(* ===== verification/Config.thy ===== *)
theory Config
  imports Prelude
begin

text \<open>
  \<open>src/src/config.hpp\<close>: the tunable defaults and the process exit codes. The enumerators
  of \<open>ExitCode\<close> are ordered by their values, as the unscoped C++ enumeration is.
\<close>

definition kThreadCount :: u64 where "kThreadCount = 32"
definition kSshPort :: u16 where "kSshPort = 22"
definition kTcpConnectTimeout :: milliseconds where "kTcpConnectTimeout = 750"
definition kSshBannerTimeout :: milliseconds where "kSshBannerTimeout = 1000"
definition kSshAuthTimeout :: milliseconds where "kSshAuthTimeout = 5000"
definition kSshCommandTimeout :: milliseconds where "kSshCommandTimeout = 5000"
definition kLayer2ListenWindow :: milliseconds where "kLayer2ListenWindow = 4000"
definition kMinimumScanPrefix :: int where "kMinimumScanPrefix = 22"
definition kSshUser :: string where "kSshUser = ''root''"
definition kPasswordEnvVar :: string where "kPasswordEnvVar = ''DEVICE_SSH_PASSWORD''"

datatype ExitCode = kSuccess | kUsageError | kNoInterface | kMultipleInterfaces | kNoDevice
  | kMultipleDevices | kSshConnectionFailed | kSshAuthFailed | kRemoteCommandFailed
  | kParseFailed | kUnexpectedInterfaceCount

fun exit_value :: "ExitCode \<Rightarrow> int" where
  "exit_value kSuccess = 0"
| "exit_value kUsageError = 2"
| "exit_value kNoInterface = 3"
| "exit_value kMultipleInterfaces = 4"
| "exit_value kNoDevice = 5"
| "exit_value kMultipleDevices = 6"
| "exit_value kSshConnectionFailed = 7"
| "exit_value kSshAuthFailed = 8"
| "exit_value kRemoteCommandFailed = 9"
| "exit_value kParseFailed = 10"
| "exit_value kUnexpectedInterfaceCount = 11"

lemma exit_value_inj: "exit_value a = exit_value b \<longleftrightarrow> a = b"
  by (cases a; cases b) simp_all

instantiation ExitCode :: linorder
begin

definition less_eq_ExitCode :: "ExitCode \<Rightarrow> ExitCode \<Rightarrow> bool" where
  "less_eq_ExitCode a b \<longleftrightarrow> exit_value a \<le> exit_value b"

definition less_ExitCode :: "ExitCode \<Rightarrow> ExitCode \<Rightarrow> bool" where
  "less_ExitCode a b \<longleftrightarrow> exit_value a < exit_value b"

instance
  by standard (auto simp: less_eq_ExitCode_def less_ExitCode_def exit_value_inj)

end

end
