(* ===== verification/Cxx_String.thy ===== *)
theory Cxx_String
  imports Prelude
begin

text \<open>
  The operations of \<open>std::string\<close>, \<open>std::istringstream\<close>, \<open><cctype>\<close> and
  \<open>std::to_string\<close> that the program uses, on strings as lists of 8-bit characters.
  \<open>std::string::npos\<close> is \<open>None\<close>. Character classes are those of the "C" locale, the one
  a C++ program runs in unless it changes it (this one does not).
\<close>

section \<open>Character classes\<close>

abbreviation code :: "char \<Rightarrow> nat" where "code \<equiv> of_char"

abbreviation newline :: char where "newline \<equiv> CHR 0x0A"
abbreviation carriage_return :: char where "carriage_return \<equiv> CHR 0x0D"
abbreviation tab :: char where "tab \<equiv> CHR 0x09"

definition isspace :: "char \<Rightarrow> bool" where
  "isspace c \<longleftrightarrow> c = CHR '' '' \<or> c = CHR 0x09 \<or> c = CHR 0x0A \<or> c = CHR 0x0B
     \<or> c = CHR 0x0C \<or> c = CHR 0x0D"

definition isdigit :: "char \<Rightarrow> bool" where
  "isdigit c \<longleftrightarrow> 48 \<le> code c \<and> code c \<le> 57"

definition tolower :: "char \<Rightarrow> char" where
  "tolower c = (if 65 \<le> code c \<and> code c \<le> 90 then char_of (code c + 32) else c)"

lemma tolower_code:
  "code (tolower c) = (if 65 \<le> code c \<and> code c \<le> 90 then code c + 32 else code c)"
  by (simp add: tolower_def)

lemma tolower_idem [simp]: "tolower (tolower c) = tolower c"
  by (simp add: tolower_def)

lemma isdigit_not_space: "isdigit c \<Longrightarrow> \<not> isspace c"
  by (auto simp: isdigit_def isspace_def)

section \<open>Searching and slicing\<close>

definition substr :: "string \<Rightarrow> nat \<Rightarrow> nat \<Rightarrow> string" where
  "substr s pos count = take count (drop pos s)"

definition substr_from :: "string \<Rightarrow> nat \<Rightarrow> string" where
  "substr_from s pos = drop pos s"

fun find_first_not_of :: "string \<Rightarrow> string \<Rightarrow> nat option" where
  "find_first_not_of cs [] = None"
| "find_first_not_of cs (c # s) =
     (if c \<in> set cs then map_option Suc (find_first_not_of cs s) else Some 0)"

definition find_last_not_of :: "string \<Rightarrow> string \<Rightarrow> nat option" where
  "find_last_not_of cs s = map_option (\<lambda>i. length s - 1 - i) (find_first_not_of cs (rev s))"

fun find_char :: "char \<Rightarrow> string \<Rightarrow> nat option" where
  "find_char x [] = None"
| "find_char x (c # s) = (if c = x then Some 0 else map_option Suc (find_char x s))"

text \<open>\<open>s.rfind(p, 0) == 0\<close>: the only position tried is 0.\<close>

definition starts_with :: "string \<Rightarrow> string \<Rightarrow> bool" where
  "starts_with p s \<longleftrightarrow> take (length p) s = p"

text \<open>\<open>s.find(p) != npos\<close>: \<open>p\<close> occurs in \<open>s\<close>.\<close>

fun contains :: "string \<Rightarrow> string \<Rightarrow> bool" where
  "contains p [] = (p = [])"
| "contains p (c # s) = (starts_with p (c # s) \<or> contains p s)"

lemma starts_with_append: "starts_with p s \<longleftrightarrow> (\<exists>t. s = p @ t)"
  unfolding starts_with_def by (metis append_eq_conv_conj append_take_drop_id)

lemma starts_with_self [simp]: "starts_with p (p @ s)"
  by (simp add: starts_with_def)

lemma starts_with_Nil [simp]: "starts_with [] s"
  by (simp add: starts_with_def)

lemma starts_with_Cons [simp]: "starts_with (c # p) (d # s) \<longleftrightarrow> c = d \<and> starts_with p s"
  by (auto simp: starts_with_def)

lemma starts_with_Cons_Nil [simp]: "\<not> starts_with (c # p) []"
  by (simp add: starts_with_def)

lemma contains_iff: "contains p s \<longleftrightarrow> (\<exists>u v. s = u @ p @ v)"
proof (induction s)
  case Nil
  show ?case by auto
next
  case (Cons c s)
  have "(\<exists>u v. c # s = u @ p @ v) \<longleftrightarrow> starts_with p (c # s) \<or> (\<exists>u v. s = u @ p @ v)"
    by (metis Cons_eq_append_conv append_Cons append_self_conv2 starts_with_append)
  with Cons.IH show ?case by simp
qed

lemma contains_extend: "contains p s \<Longrightarrow> contains p (a @ s @ b)"
  unfolding contains_iff by (metis append.assoc)

lemma find_char_None: "find_char x s = None \<longleftrightarrow> x \<notin> set s"
  by (induction s) auto

lemma find_char_take: "find_char x s = Some i \<Longrightarrow> take i s = takeWhile (\<lambda>c. c \<noteq> x) s"
  by (induction s arbitrary: i) (auto split: if_splits)

lemma find_char_cut [cxx_simps]:
  "(case find_char x s of None \<Rightarrow> s | Some i \<Rightarrow> substr s 0 i) = takeWhile (\<lambda>c. c \<noteq> x) s"
proof (cases "find_char x s")
  case None
  then have "x \<notin> set s" by (simp add: find_char_None)
  then have "takeWhile (\<lambda>c. c \<noteq> x) s = s"
    by (metis (mono_tags, lifting) takeWhile_eq_all_conv)
  then show ?thesis by (simp only: None option.case)
next
  case (Some i)
  then show ?thesis by (simp add: substr_def find_char_take)
qed

lemma find_first_not_of_None: "find_first_not_of cs s = None \<longleftrightarrow> set s \<subseteq> set cs"
  by (induction s) auto

lemma find_first_not_of_drop:
  "find_first_not_of cs s = Some i \<Longrightarrow>
     drop i s = dropWhile (\<lambda>c. c \<in> set cs) s \<and> i < length s"
  by (induction s arbitrary: i) (auto split: if_splits)

lemma find_first_not_of_length:
  "find_first_not_of cs s = Some i \<Longrightarrow> length (dropWhile (\<lambda>c. c \<in> set cs) s) = length s - i"
  by (metis find_first_not_of_drop length_drop)

section \<open>Input streams\<close>

text \<open>
  \<open>operator>>\<close> on a string: skip white space, then take characters up to the next white
  space; the extraction fails when nothing is left.
\<close>

definition read_token :: "string \<Rightarrow> (string \<times> string) option" where
  "read_token s =
     (let r = dropWhile isspace s
      in if r = [] then None
         else Some (takeWhile (\<lambda>c. \<not> isspace c) r, dropWhile (\<lambda>c. \<not> isspace c) r))"

lemma read_token_shorter: "read_token s = Some (t, r) \<Longrightarrow> length r < length s"
proof -
  assume "read_token s = Some (t, r)"
  then have ne: "dropWhile isspace s \<noteq> []"
    and r: "r = dropWhile (\<lambda>c. \<not> isspace c) (dropWhile isspace s)"
    by (auto simp: read_token_def Let_def split: if_splits)
  from ne have "\<not> isspace (hd (dropWhile isspace s))" by (rule hd_dropWhile)
  with ne have "length r < length (dropWhile isspace s)"
    unfolding r by (intro length_dropWhile_less) auto
  also have "\<dots> \<le> length s" by (rule length_dropWhile_le)
  finally show ?thesis .
qed

lemma read_token_nonempty:
  assumes "read_token s = Some (t, r)"
  shows "t \<noteq> []"
proof -
  from assms have ne: "dropWhile isspace s \<noteq> []"
    and t: "t = takeWhile (\<lambda>c. \<not> isspace c) (dropWhile isspace s)"
    by (simp_all add: read_token_def Let_def split: if_splits)
  from ne have "\<not> isspace (hd (dropWhile isspace s))" by (rule hd_dropWhile)
  with ne show ?thesis unfolding t by (cases "dropWhile isspace s") auto
qed

text \<open>A word followed by white space is the next token, whatever blanks precede it.\<close>

lemma read_token_word [cxx_simps]:
  assumes "\<And>c. c \<in> set b \<Longrightarrow> isspace c" and "w \<noteq> []"
    and "\<And>c. c \<in> set w \<Longrightarrow> \<not> isspace c" and "isspace x"
  shows "read_token (b @ w @ x # s) = Some (w, x # s)"
proof -
  obtain c w' where w: "w = c # w'" using assms(2) by (cases w) auto
  have "dropWhile isspace (b @ w @ x # s) = w @ x # s"
    using assms(1,3) by (simp add: w dropWhile_append_stop)
  moreover have "takeWhile (\<lambda>c. \<not> isspace c) (w @ x # s) = w"
    using assms(3,4) by (simp add: takeWhile_append_stop)
  moreover have "dropWhile (\<lambda>c. \<not> isspace c) (w @ x # s) = x # s"
    using assms(3,4) by (simp add: dropWhile_append_stop)
  ultimately show ?thesis using w by (simp add: read_token_def)
qed

lemma read_token_word_end [cxx_simps]:
  assumes "\<And>c. c \<in> set b \<Longrightarrow> isspace c" and "w \<noteq> []"
    and "\<And>c. c \<in> set w \<Longrightarrow> \<not> isspace c"
  shows "read_token (b @ w) = Some (w, [])"
proof -
  obtain c w' where w: "w = c # w'" using assms(2) by (cases w) auto
  have "dropWhile isspace (b @ w) = w"
    using assms(1,3) by (simp add: w dropWhile_append_stop)
  moreover have "takeWhile (\<lambda>c. \<not> isspace c) w = w" "dropWhile (\<lambda>c. \<not> isspace c) w = []"
    using assms(3) by (simp_all add: takeWhile_all dropWhile_all)
  ultimately show ?thesis using w by (simp add: read_token_def)
qed

text \<open>
  \<open>while (std::getline(stream, line))\<close>: the lines of the text; a final newline does not
  start another line, and a last line without a newline is still returned.
\<close>

definition getline :: "string \<Rightarrow> (string \<times> string) option" where
  "getline s =
     (if s = [] then None
      else Some (takeWhile (\<lambda>c. c \<noteq> newline) s, drop 1 (dropWhile (\<lambda>c. c \<noteq> newline) s)))"

lemma getline_shorter: "getline s = Some (l, r) \<Longrightarrow> length r < length s"
  by (cases s) (auto simp: getline_def less_Suc_eq_le intro!: le_trans [OF diff_le_self] length_dropWhile_le)

function getlines :: "string \<Rightarrow> string list" where
  "getlines s = (case getline s of None \<Rightarrow> [] | Some (l, r) \<Rightarrow> l # getlines r)"
  by pat_completeness auto
termination
  by (relation "measure length") (auto dest: getline_shorter)

declare getlines.simps [simp del]

lemma getlines_Nil [simp]: "getlines [] = []"
  by (simp add: getlines.simps [of "[]"] getline_def)

lemma getlines_line [cxx_simps]:
  "newline \<notin> set l \<Longrightarrow> getlines (l @ newline # s) = l # getlines s"
proof -
  assume nl: "newline \<notin> set l"
  have "takeWhile (\<lambda>c. c \<noteq> newline) (l @ newline # s) = l"
    and "dropWhile (\<lambda>c. c \<noteq> newline) (l @ newline # s) = newline # s"
    using nl by (auto intro: takeWhile_append_stop dropWhile_append_stop)
  then show ?thesis
    by (subst getlines.simps) (simp add: getline_def)
qed

lemma getlines_no_newline: "l \<in> set (getlines s) \<Longrightarrow> newline \<notin> set l"
proof (induction s rule: getlines.induct)
  case (1 s)
  show ?case
  proof (cases "getline s")
    case None
    with "1.prems" show ?thesis by (simp add: getlines.simps [of s])
  next
    case (Some p)
    obtain l' r where p: "p = (l', r)" by (cases p)
    with Some "1.prems" have "l = l' \<or> l \<in> set (getlines r)"
      by (simp add: getlines.simps [of s])
    then show ?thesis
    proof
      assume "l = l'"
      with Some p show ?thesis
        by (auto simp: getline_def split: if_splits dest: set_takeWhileD)
    next
      assume "l \<in> set (getlines r)"
      with Some p "1.IH" show ?thesis by auto
    qed
  qed
qed

section \<open>Numbers as text\<close>

definition digit_char :: "nat \<Rightarrow> char" where
  "digit_char d = char_of (if d < 10 then 48 + d else 87 + d)"

fun dec_of_nat :: "nat \<Rightarrow> string" where
  "dec_of_nat n =
     (if n < 10 then [digit_char n] else dec_of_nat (n div 10) @ [digit_char (n mod 10)])"

declare dec_of_nat.simps [simp del]

definition dec_of_int :: "int \<Rightarrow> string" where
  "dec_of_int i = (if i < 0 then CHR ''-'' # dec_of_nat (nat (- i)) else dec_of_nat (nat i))"

text \<open>\<open>"%02x"\<close> of one byte.\<close>

definition hex2 :: "u8 \<Rightarrow> string" where
  "hex2 b = [digit_char (unat b div 16), digit_char (unat b mod 16)]"

lemma isdigit_digit_char: "d < 10 \<Longrightarrow> isdigit (digit_char d)"
  by (simp add: isdigit_def digit_char_def)

lemma dec_of_nat_digits: "c \<in> set (dec_of_nat n) \<Longrightarrow> isdigit c"
proof (induction n rule: dec_of_nat.induct)
  case (1 n)
  then show ?case
    by (subst (asm) (2) dec_of_nat.simps) (auto split: if_splits intro: isdigit_digit_char)
qed

lemma dec_of_nat_nonempty [simp]: "dec_of_nat n \<noteq> []"
  by (subst dec_of_nat.simps) simp

section \<open>Text files\<close>

text \<open>
  What reading a file opened in text mode delivers on Windows, where the program runs: a carriage
  return before a newline is dropped and Ctrl-Z ends the file. \<open>crlf\<close> is the reverse, which
  writing in text mode does.
\<close>

abbreviation ctrl_z :: char where "ctrl_z \<equiv> CHR 0x1A"

fun text_mode :: "string \<Rightarrow> string" where
  "text_mode [] = []"
| "text_mode (c # s) =
     (if c = ctrl_z then []
      else if c = carriage_return \<and> take 1 s = [newline] then text_mode s
      else c # text_mode s)"

definition crlf :: "string \<Rightarrow> string" where
  "crlf s = concat (map (\<lambda>c. if c = newline then [carriage_return, newline] else [c]) s)"

definition clean_text :: "string \<Rightarrow> bool" where
  "clean_text s \<longleftrightarrow> carriage_return \<notin> set s \<and> ctrl_z \<notin> set s"

lemma text_mode_clean: "clean_text s \<Longrightarrow> text_mode s = s"
  by (induction s) (auto simp: clean_text_def)

lemma text_mode_crlf: "clean_text s \<Longrightarrow> text_mode (crlf s) = s"
  by (induction s) (auto simp: clean_text_def crlf_def)

lemma text_mode_sound: "ctrl_z \<notin> set (text_mode s) \<and> set (text_mode s) \<subseteq> set s"
  by (induction s rule: text_mode.induct) auto

end
