(* ===== verification/Inet.thy ===== *)
theory Inet
  imports Cxx_String
begin

text \<open>
  The address conversions of Winsock that the program calls: \<open>inet_pton\<close>,
  \<open>inet_ntop\<close>, \<open>ntohl\<close> and \<open>htonl\<close>. They are not part of the repository, so every
  definition that uses them takes them as a parameter, a record \<open>inet_api\<close>. What the
  program relies on is stated by two locales: \<open>inet_text\<close> (formatting succeeds and
  parsing inverts it, byte swaps invert each other) and its extension \<open>inet_dotted\<close>
  (the text is dotted decimal over the bytes in memory order, on a little-endian host).
  Both are interpreted on \<open>dotted_api\<close>, a complete implementation of strict dotted
  decimal, which the witnesses of the development use.
\<close>

section \<open>The interface\<close>

record inet_api =
  inet_pton :: "string \<Rightarrow> u32 option"
  inet_ntop :: "u32 \<Rightarrow> string option"
  ntohl :: "u32 \<Rightarrow> u32"
  htonl :: "u32 \<Rightarrow> u32"

text \<open>\<open>s.c_str()\<close> handed to a C function: the callee reads up to the first NUL.\<close>

definition c_str :: "string \<Rightarrow> string" where
  "c_str s = takeWhile (\<lambda>c. c \<noteq> CHR 0x00) s"

definition dotted_char :: "char \<Rightarrow> bool" where
  "dotted_char c \<longleftrightarrow> isdigit c \<or> c = CHR ''.''"

locale inet_text =
  fixes api :: inet_api
  assumes ntop_total: "\<exists>s. inet_ntop api w = Some s"
    and ntop_chars: "inet_ntop api w = Some s \<Longrightarrow> s \<noteq> [] \<and> (\<forall>c \<in> set s. dotted_char c)"
    and pton_ntop: "inet_ntop api w = Some s \<Longrightarrow> inet_pton api s = Some w"
    and pton_empty: "inet_pton api [] = None"
    and ntohl_htonl [simp]: "ntohl api (htonl api w) = w"
    and htonl_ntohl [simp]: "htonl api (ntohl api w) = w"
begin

lemma ntop_inj: "inet_ntop api v = Some s \<Longrightarrow> inet_ntop api w = Some s \<Longrightarrow> v = w"
  by (drule pton_ntop)+ simp

lemma htonl_inj: "htonl api v = htonl api w \<Longrightarrow> v = w"
  by (metis ntohl_htonl)

lemma c_str_ntop: "inet_ntop api w = Some s \<Longrightarrow> c_str s = s"
  unfolding c_str_def using ntop_chars
  by (intro takeWhile_all) (force simp: dotted_char_def isdigit_def)

lemma pton_c_str_ntop: "inet_ntop api w = Some s \<Longrightarrow> inet_pton api (c_str s) = Some w"
  by (simp add: c_str_ntop pton_ntop)

end

section \<open>Bytes of an address in memory\<close>

definition mem_byte :: "nat \<Rightarrow> u32 \<Rightarrow> u8" where
  "mem_byte k w = ucast (drop_bit (8 * k) w)"

text \<open>A 32-bit load from four consecutive bytes on a little-endian host.\<close>

definition le_word :: "u8 \<Rightarrow> u8 \<Rightarrow> u8 \<Rightarrow> u8 \<Rightarrow> u32" where
  "le_word a b c d =
     ucast a + 256 * ucast b + 65536 * ucast c + 16777216 * ucast d"

definition bswap32 :: "u32 \<Rightarrow> u32" where
  "bswap32 w = le_word (mem_byte 3 w) (mem_byte 2 w) (mem_byte 1 w) (mem_byte 0 w)"

definition dotted_quad :: "u32 \<Rightarrow> string" where
  "dotted_quad w =
     dec_of_nat (unat (mem_byte 0 w)) @ CHR ''.'' # dec_of_nat (unat (mem_byte 1 w)) @
     CHR ''.'' # dec_of_nat (unat (mem_byte 2 w)) @ CHR ''.'' # dec_of_nat (unat (mem_byte 3 w))"

lemma unat_mem_byte: "unat (mem_byte k w) = unat w div 2 ^ (8 * k) mod 256"
  by (simp add: mem_byte_def unsigned_ucast_eq take_bit_eq_mod unat_drop_bit_eq
      flip: drop_bit_eq_div)

lemma unat_u8_less: "unat (b :: u8) < 256"
  using unsigned_less [of b, where ?'a = nat] by simp

lemma unat_u32_less: "unat (w :: u32) < 4294967296"
  using unsigned_less [of w, where ?'a = nat] by simp

lemma bytes_of_sum:
  fixes a b c d :: nat
  assumes "a < 256" "b < 256" "c < 256" "d < 256"
  shows "(a + 256 * b + 65536 * c + 16777216 * d) mod 256 = a"
    and "(a + 256 * b + 65536 * c + 16777216 * d) div 256 mod 256 = b"
    and "(a + 256 * b + 65536 * c + 16777216 * d) div 65536 mod 256 = c"
    and "(a + 256 * b + 65536 * c + 16777216 * d) div 16777216 mod 256 = d"
proof -
  let ?n = "a + 256 * b + 65536 * c + 16777216 * d"
  have horner: "?n = a + 256 * (b + 256 * (c + 256 * d))" by simp
  have q1: "?n div 256 = b + 256 * (c + 256 * d)"
    using assms(1) unfolding horner by simp
  have q2: "?n div 65536 = c + 256 * d"
    using assms(2) q1 div_mult2_eq [of ?n 256 256] by simp
  have q3: "?n div 16777216 = d"
    using assms(3) q2 div_mult2_eq [of ?n 65536 256] by simp
  show "?n mod 256 = a" unfolding horner using assms(1) by (simp only: mod_mult_self2 mod_less)
  show "?n div 256 mod 256 = b" unfolding q1 using assms(2) by (simp only: mod_mult_self2 mod_less)
  show "?n div 65536 mod 256 = c" unfolding q2 using assms(3) by (simp only: mod_mult_self2 mod_less)
  show "?n div 16777216 mod 256 = d" unfolding q3 using assms(4) by (simp only: mod_mult_self2 mod_less)
qed

lemma sum_of_bytes:
  fixes n :: nat
  shows "n mod 256 + 256 * (n div 256 mod 256) + 65536 * (n div 65536 mod 256)
           + 16777216 * (n div 16777216) = n"
proof -
  have "n = 256 * (n div 256) + n mod 256" by simp
  moreover have "n div 256 = 256 * (n div 65536) + n div 256 mod 256"
    using div_mult2_eq [of n 256 256] mult_div_mod_eq [of 256 "n div 256"] by simp
  moreover have "n div 65536 = 256 * (n div 16777216) + n div 65536 mod 256"
    using div_mult2_eq [of n 65536 256] mult_div_mod_eq [of 256 "n div 65536"] by simp
  ultimately show ?thesis by linarith
qed

lemma unat_le_word:
  "unat (le_word a b c d) = unat a + 256 * unat b + 65536 * unat c + 16777216 * unat d"
proof -
  have "unat a < 256" "unat b < 256" "unat c < 256" "unat d < 256"
    by (rule unat_u8_less)+
  moreover have "le_word a b c d =
      of_nat (unat a + 256 * unat b + 65536 * unat c + 16777216 * unat d)"
    by (simp add: le_word_def)
  ultimately show ?thesis by (simp only: unat_of_nat) simp
qed

lemma mem_byte_le_word [simp]:
  "mem_byte 0 (le_word a b c d) = a" "mem_byte (Suc 0) (le_word a b c d) = b"
  "mem_byte 1 (le_word a b c d) = b" "mem_byte 2 (le_word a b c d) = c"
  "mem_byte 3 (le_word a b c d) = d"
proof -
  have lt: "unat a < 256" "unat b < 256" "unat c < 256" "unat d < 256"
    by (rule unat_u8_less)+
  show "mem_byte 0 (le_word a b c d) = a" "mem_byte (Suc 0) (le_word a b c d) = b"
    "mem_byte 1 (le_word a b c d) = b" "mem_byte 2 (le_word a b c d) = c"
    "mem_byte 3 (le_word a b c d) = d"
    using lt by (simp_all add: word_unat_eq_iff unat_mem_byte unat_le_word bytes_of_sum)
qed

lemma le_word_mem_byte [simp]:
  "le_word (mem_byte 0 w) (mem_byte 1 w) (mem_byte 2 w) (mem_byte 3 w) = w"
proof -
  have "unat w < 4294967296" by (rule unat_u32_less)
  then show ?thesis
    by (simp add: word_unat_eq_iff unat_mem_byte unat_le_word sum_of_bytes)
qed

lemma bswap32_bswap32 [simp]: "bswap32 (bswap32 w) = w"
  using le_word_mem_byte [of w] by (simp add: bswap32_def)

locale inet_dotted = inet_text +
  assumes ntop_dotted: "inet_ntop api w = Some (dotted_quad w)"
    and ntohl_bswap: "ntohl api w = bswap32 w"

section \<open>Strict dotted decimal\<close>

fun split_dots :: "string \<Rightarrow> string list" where
  "split_dots [] = [[]]"
| "split_dots (c # s) =
     (if c = CHR ''.'' then [] # split_dots s
      else case split_dots s of [] \<Rightarrow> [[c]] | p # ps \<Rightarrow> (c # p) # ps)"

definition octet :: "string \<Rightarrow> u8 option" where
  "octet s =
     (let n = foldl (\<lambda>n c. 10 * n + (code c - 48)) 0 s
      in if s \<noteq> [] \<and> length s \<le> 3 \<and> list_all isdigit s
            \<and> (hd s \<noteq> CHR ''0'' \<or> length s = 1) \<and> n < 256
         then Some (of_nat n) else None)"

definition dotted_pton :: "string \<Rightarrow> u32 option" where
  "dotted_pton s =
     (case map octet (split_dots s) of
        [Some a, Some b, Some c, Some d] \<Rightarrow> Some (le_word a b c d)
      | _ \<Rightarrow> None)"

definition dotted_api :: inet_api where
  "dotted_api = \<lparr>inet_pton = dotted_pton, inet_ntop = (\<lambda>w. Some (dotted_quad w)),
                 ntohl = bswap32, htonl = bswap32\<rparr>"

lemma split_dots_no_dot: "CHR ''.'' \<notin> set s \<Longrightarrow> split_dots s = [s]"
  by (induction s) auto

lemma split_dots_append: "CHR ''.'' \<notin> set s \<Longrightarrow> split_dots (s @ CHR ''.'' # t) = s # split_dots t"
  by (induction s) auto

lemma dec_of_nat_no_dot: "CHR ''.'' \<notin> set (dec_of_nat n)"
  using dec_of_nat_digits [of "CHR ''.''" n] by (auto simp: isdigit_def)

definition dec_val :: "string \<Rightarrow> nat" where
  "dec_val s = foldl (\<lambda>n c. 10 * n + (code c - 48)) 0 s"

lemma dec_val_dec_of_nat: "dec_val (dec_of_nat n) = n"
proof (induction n rule: dec_of_nat.induct)
  case (1 n)
  then show ?case
    by (subst dec_of_nat.simps) (auto simp: dec_val_def digit_char_def)
qed

lemma length_dec_of_nat: "n < 1000 \<Longrightarrow> length (dec_of_nat n) \<le> 3"
  by (simp add: dec_of_nat.simps [of n] dec_of_nat.simps [of "n div 10"]
      dec_of_nat.simps [of "n div 10 div 10"])

lemma hd_dec_of_nat: "hd (dec_of_nat n) \<noteq> CHR ''0'' \<or> length (dec_of_nat n) = 1"
proof (induction n rule: dec_of_nat.induct)
  case (1 n)
  have "0 < n \<Longrightarrow> hd (dec_of_nat n) \<noteq> CHR ''0''" for n
  proof (induction n rule: dec_of_nat.induct)
    case (1 n)
    have "n < 10 \<Longrightarrow> digit_char n = CHR ''0'' \<Longrightarrow> n = 0"
      by (auto simp: digit_char_def dest: arg_cong [where f = code])
    with 1 show ?case by (subst dec_of_nat.simps) auto
  qed
  then show ?case
    by (cases "n = 0") (auto simp: dec_of_nat.simps [of 0])
qed

lemma octet_dec_of_nat: "octet (dec_of_nat (unat b)) = Some b"
proof -
  have lt: "unat b < 256" by (rule unat_u8_less)
  then have "length (dec_of_nat (unat b)) \<le> 3" by (intro length_dec_of_nat) simp
  moreover have "list_all isdigit (dec_of_nat (unat b))"
    using dec_of_nat_digits by (auto simp: list_all_iff)
  ultimately show ?thesis
    using lt dec_val_dec_of_nat [of "unat b"] hd_dec_of_nat [of "unat b"]
    by (simp add: octet_def Let_def flip: dec_val_def)
qed

lemma dotted_pton_quad: "dotted_pton (dotted_quad w) = Some w"
  using le_word_mem_byte [of w]
  by (simp add: dotted_pton_def dotted_quad_def split_dots_append split_dots_no_dot
      dec_of_nat_no_dot octet_dec_of_nat)

lemma dotted_quad_chars: "dotted_quad w \<noteq> [] \<and> (\<forall>c \<in> set (dotted_quad w). dotted_char c)"
  by (auto simp: dotted_quad_def dotted_char_def dest: dec_of_nat_digits)

lemma dotted_pton_Nil: "dotted_pton [] = None"
  by (simp add: dotted_pton_def octet_def)

lemma dotted_api_simps [simp]:
  "inet_pton dotted_api = dotted_pton" "inet_ntop dotted_api w = Some (dotted_quad w)"
  "ntohl dotted_api = bswap32" "htonl dotted_api = bswap32"
  by (simp_all add: dotted_api_def)

interpretation dotted: inet_dotted dotted_api
  using dotted_quad_chars by unfold_locales (auto simp: dotted_pton_quad dotted_pton_Nil)

end
