(* ===== verification/Keyed_Insert.thy ===== *)
theory Keyed_Insert
  imports Prelude
begin

text \<open>
  The interface of the two "insert unless already there" operations of the program,
  \<open>append\<close> of the interface parser and \<open>add_observation\<close> of the layer-2 discovery: an
  item is dropped when its key is not acceptable, leaves the keys alone when its key is
  already present, and is added at the end otherwise. The clients fold such an operation over a
  sequence; what they need is proved once here: the keys are the acceptable keys in the
  order of their first occurrence.
\<close>

text \<open>The first occurrences of a list, in order.\<close>

fun firsts :: "'a list \<Rightarrow> 'a list" where
  "firsts [] = []"
| "firsts (x # xs) = x # filter (\<lambda>y. y \<noteq> x) (firsts xs)"

lemma set_firsts [simp]: "set (firsts xs) = set xs"
  by (induction xs) auto

lemma distinct_firsts [simp]: "distinct (firsts xs)"
  by (induction xs) auto

lemma firsts_distinct: "distinct xs \<Longrightarrow> firsts xs = xs"
  by (induction xs) (auto intro!: filter_True)

lemma firsts_snoc: "firsts (xs @ [x]) = (if x \<in> set xs then firsts xs else firsts xs @ [x])"
  by (induction xs) auto

locale keyed_insert =
  fixes key :: "'a \<Rightarrow> 'k" and ok :: "'k \<Rightarrow> bool" and ins :: "'a list \<Rightarrow> 'a \<Rightarrow> 'a list"
  assumes ins_rejected: "\<not> ok (key x) \<Longrightarrow> ins xs x = xs"
    and ins_present: "ok (key x) \<Longrightarrow> key x \<in> key ` set xs \<Longrightarrow> map key (ins xs x) = map key xs"
    and ins_new: "ok (key x) \<Longrightarrow> key x \<notin> key ` set xs \<Longrightarrow> ins xs x = xs @ [x]"
begin

lemma keys_ins:
  "map key (ins xs x) =
     (if ok (key x) \<and> key x \<notin> key ` set xs then map key xs @ [key x] else map key xs)"
proof (cases "ok (key x) \<and> key x \<notin> key ` set xs")
  case True
  then show ?thesis using ins_new by simp
next
  case False
  then have "map key (ins xs x) = map key xs" using ins_rejected ins_present by metis
  with False show ?thesis by simp
qed

lemma keys_fold_from:
  "map key (foldl ins xs ys) =
     map key xs @ filter (\<lambda>k. k \<notin> key ` set xs) (firsts (filter ok (map key ys)))"
proof (induction ys rule: rev_induct)
  case Nil
  show ?case by simp
next
  case (snoc y ys)
  have "key ` set (foldl ins xs ys) = set (map key (foldl ins xs ys))" by simp
  also have "\<dots> = key ` set xs \<union> {k \<in> set (map key ys). ok k}" by (subst snoc.IH) auto
  finally have "key y \<in> key ` set (foldl ins xs ys) \<longleftrightarrow>
      key y \<in> key ` set xs \<or> key y \<in> set (map key ys) \<and> ok (key y)" by simp
  then show ?case by (simp add: keys_ins firsts_snoc snoc.IH)
qed

lemma keys_fold: "map key (foldl ins [] xs) = firsts (filter ok (map key xs))"
  using keys_fold_from [of "[]" xs] by simp

lemma fold_ok: "x \<in> set (foldl ins [] xs) \<Longrightarrow> ok (key x)"
proof -
  assume "x \<in> set (foldl ins [] xs)"
  then have "key x \<in> set (map key (foldl ins [] xs))" by simp
  then show ?thesis by (simp only: keys_fold set_firsts) auto
qed

lemma fold_distinct: "distinct (map key (foldl ins [] xs))"
  by (simp only: keys_fold distinct_firsts)

end

end
