(* ===== verification/Ifconfig_Parser.thy ===== *)
theory Ifconfig_Parser
  imports Inet Keyed_Insert
begin

text \<open>
  \<open>src/src/parser/ifconfig_parser.cpp\<close>: the parsers of \<open>ifconfig\<close> and \<open>ip -4 addr\<close>
  output. A \<open>while (std::getline ...)\<close> loop is a left fold of its body over the lines,
  with the variables the loop writes (\<open>interfaces\<close>, \<open>current\<close>) as the state;
  \<open>continue\<close> returns the state. The start-up call inside \<open>is_valid_ipv4\<close>, whose result
  is not used, is left out.
\<close>

section \<open>Data and helpers\<close>

record RemoteInterface =
  ri_name :: string
  ri_ipv4 :: string

definition is_valid_ipv4 :: "inet_api \<Rightarrow> string \<Rightarrow> bool" where
  "is_valid_ipv4 api text \<longleftrightarrow> inet_pton api (c_str text) \<noteq> None"

definition blanks :: string where
  "blanks = [CHR '' '', tab, carriage_return, newline]"

definition trim :: "string \<Rightarrow> string" where
  "trim value =
     (case find_first_not_of blanks value of
        None \<Rightarrow> []
      | Some begin_pos \<Rightarrow>
          (case find_last_not_of blanks value of
             None \<Rightarrow> []
           | Some end_pos \<Rightarrow> substr value begin_pos (end_pos - begin_pos + 1)))"

definition normalize_name :: "string \<Rightarrow> string" where
  "normalize_name name =
     (let name' = (if name \<noteq> [] \<and> last name = CHR '':'' then butlast name else name)
      in case find_char CHR ''@'' name' of
           None \<Rightarrow> name'
         | Some at \<Rightarrow> substr name' 0 at)"

text \<open>What follows the choice of the candidate in the loop of \<open>extract_inet_address\<close>.\<close>

definition check_candidate :: "inet_api \<Rightarrow> string \<Rightarrow> string" where
  "check_candidate api candidate =
     (let stripped = (if starts_with ''addr:'' candidate then substr_from candidate 5
                      else candidate);
          cut = (case find_char CHR ''/'' stripped of
                   None \<Rightarrow> stripped
                 | Some slash \<Rightarrow> substr stripped 0 slash)
      in if is_valid_ipv4 api cut then cut else [])"

function extract_loop :: "inet_api \<Rightarrow> string \<Rightarrow> string" where
  "extract_loop api stream =
     (case read_token stream of
        None \<Rightarrow> []
      | Some (token, rest) \<Rightarrow>
          if token = ''inet'' then
            (case read_token rest of
               None \<Rightarrow> []
             | Some (candidate, _) \<Rightarrow> check_candidate api candidate)
          else if starts_with ''addr:'' token then check_candidate api (substr_from token 5)
          else extract_loop api rest)"
  by pat_completeness auto
termination
  by (relation "measure (\<lambda>(api, s). length s)") (auto dest: read_token_shorter)

declare extract_loop.simps [simp del]

definition extract_inet_address :: "inet_api \<Rightarrow> string \<Rightarrow> string" where
  "extract_inet_address api line = extract_loop api (trim line)"

definition is_loopback_interface_name :: "string \<Rightarrow> bool" where
  "is_loopback_interface_name name \<longleftrightarrow> name = ''lo'' \<or> name = ''lo0''"

definition append_interface ::
  "RemoteInterface list \<Rightarrow> string \<Rightarrow> string \<Rightarrow> RemoteInterface list" where
  "append_interface interfaces name ipv4 =
     (if name = [] \<or> ipv4 = [] \<or> is_loopback_interface_name name then interfaces
      else if list_ex (\<lambda>existing. ri_name existing = name \<and> ri_ipv4 existing = ipv4) interfaces
      then interfaces
      else interfaces @ [\<lparr>ri_name = name, ri_ipv4 = ipv4\<rparr>])"

section \<open>The parsers\<close>

type_synonym parser_state = "RemoteInterface list \<times> string"

text \<open>\<open>std::istringstream tokens(line); tokens >> first;\<close>\<close>

definition first_token :: "string \<Rightarrow> string" where
  "first_token line = (case read_token line of None \<Rightarrow> [] | Some (first, _) \<Rightarrow> first)"

text \<open>\<open>tokens >> index >> name;\<close>\<close>

definition second_token :: "string \<Rightarrow> string" where
  "second_token line = (case read_token line of None \<Rightarrow> [] | Some (_, rest) \<Rightarrow> first_token rest)"

definition ifconfig_line :: "inet_api \<Rightarrow> parser_state \<Rightarrow> string \<Rightarrow> parser_state" where
  "ifconfig_line api state line =
     (case state of (interfaces, current) \<Rightarrow>
        if line = [] then (interfaces, current)
        else
          let new_block = \<not> isspace (hd line);
              current' = (if new_block then normalize_name (first_token line) else current)
          in if current' = [] then (interfaces, current')
             else let address = extract_inet_address api line
                  in if address \<noteq> [] then (append_interface interfaces current' address, current')
                     else (interfaces, current'))"

definition parse_ifconfig_output :: "inet_api \<Rightarrow> string \<Rightarrow> RemoteInterface list" where
  "parse_ifconfig_output api output = fst (foldl (ifconfig_line api) ([], []) (getlines output))"

definition ip_addr_line :: "inet_api \<Rightarrow> parser_state \<Rightarrow> string \<Rightarrow> parser_state" where
  "ip_addr_line api state line =
     (case state of (interfaces, current) \<Rightarrow>
        let trimmed = trim line
        in if trimmed = [] then (interfaces, current)
           else if isdigit (hd trimmed) \<and> find_char CHR '':'' trimmed \<noteq> None
           then (interfaces, normalize_name (second_token trimmed))
           else if current = [] then (interfaces, current)
           else let address = extract_inet_address api trimmed
                in if address \<noteq> [] then (append_interface interfaces current address, current)
                   else (interfaces, current))"

definition parse_ip_addr_output :: "inet_api \<Rightarrow> string \<Rightarrow> RemoteInterface list" where
  "parse_ip_addr_output api output = fst (foldl (ip_addr_line api) ([], []) (getlines output))"

section \<open>Tokens of a line\<close>

function tokens :: "string \<Rightarrow> string list" where
  "tokens s = (case read_token s of None \<Rightarrow> [] | Some (t, r) \<Rightarrow> t # tokens r)"
  by pat_completeness auto
termination
  by (relation "measure length") (auto dest: read_token_shorter)

declare tokens.simps [simp del]

lemma read_token_blank [simp]: "isspace c \<Longrightarrow> read_token (c # s) = read_token s"
  by (simp add: read_token_def)

lemma tokens_blank [simp]: "isspace c \<Longrightarrow> tokens (c # s) = tokens s"
  by (simp add: tokens.simps [of "c # s"] tokens.simps [of s])

lemma tokens_Nil [simp]: "tokens [] = []"
  by (simp add: tokens.simps [of "[]"] read_token_def)

lemma read_token_append_word:
  assumes "w \<noteq> []" and "\<And>c. c \<in> set w \<Longrightarrow> \<not> isspace c" and "s = [] \<or> isspace (hd s)"
  shows "read_token (w @ s) = Some (w, s)"
proof (cases s)
  case Nil
  then show ?thesis using read_token_word_end [of "[]" w] assms by simp
next
  case (Cons c s')
  then show ?thesis using read_token_word [of "[]" w c s'] assms by simp
qed

lemma tokens_append_word:
  assumes "w \<noteq> []" and "\<And>c. c \<in> set w \<Longrightarrow> \<not> isspace c" and "s = [] \<or> isspace (hd s)"
  shows "tokens (w @ s) = w # tokens s"
  by (subst tokens.simps) (simp add: read_token_append_word [OF assms])

lemma tokens_append_blanks:
  assumes "\<And>c. c \<in> set b \<Longrightarrow> isspace c"
  shows "tokens (s @ b) = tokens s"
proof (induction s rule: tokens.induct)
  case (1 s)
  let ?r = "dropWhile isspace s"
  show ?case
  proof (cases "?r = []")
    case True
    then have "\<forall>c \<in> set (s @ b). isspace c" using assms by (auto simp: dropWhile_eq_Nil_conv)
    then have "read_token (s @ b) = None" "read_token s = None"
      using True by (simp_all add: read_token_def dropWhile_eq_Nil_conv)
    then show ?thesis by (simp add: tokens.simps)
  next
    case False
    let ?w = "takeWhile (\<lambda>c. \<not> isspace c) ?r" and ?rest = "dropWhile (\<lambda>c. \<not> isspace c) ?r"
    have rs: "read_token s = Some (?w, ?rest)"
      unfolding read_token_def Let_def using False by (simp only: if_False)
    have drop: "dropWhile isspace (s @ b) = ?r @ b"
      using False by (metis dropWhile_append1 dropWhile_eq_Nil_conv)
    have "takeWhile (\<lambda>c. \<not> isspace c) (?r @ b) = ?w \<and> dropWhile (\<lambda>c. \<not> isspace c) (?r @ b) = ?rest @ b"
    proof (cases "\<exists>c \<in> set ?r. isspace c")
      case True
      then obtain c where "c \<in> set ?r" "isspace c" by blast
      then show ?thesis by (simp add: takeWhile_append1 dropWhile_append1)
    next
      case False
      then have "takeWhile (\<lambda>c. \<not> isspace c) ?r = ?r" "?rest = []"
        by (auto intro: takeWhile_all dropWhile_all)
      moreover have "takeWhile (\<lambda>c. \<not> isspace c) b = [] \<and> dropWhile (\<lambda>c. \<not> isspace c) b = b"
        using assms by (cases b) auto
      ultimately show ?thesis using False takeWhile_append2 [of ?r "\<lambda>c. \<not> isspace c" b]
          dropWhile_append2 [of ?r "\<lambda>c. \<not> isspace c" b] by (simp only: append_Nil append_Nil2) simp
    qed
    moreover have "?r @ b \<noteq> []" using False by blast
    ultimately have rb: "read_token (s @ b) = Some (?w, ?rest @ b)"
      unfolding read_token_def Let_def drop by (simp only: if_False)
    have "tokens (?rest @ b) = tokens ?rest" using "1.IH" rs by simp
    then show ?thesis using rs rb by (simp add: tokens.simps [of s] tokens.simps [of "s @ b"])
  qed
qed

lemma takeWhile_shorter: "x \<in> set xs \<Longrightarrow> \<not> P x \<Longrightarrow> length (takeWhile P xs) < length xs"
  by (induction xs) auto

lemma tokens_drop_blanks: "tokens (dropWhile (\<lambda>c. c \<in> set blanks) s) = tokens s"
  by (induction s) (auto simp: blanks_def isspace_def)

lemma blanks_space: "c \<in> set blanks \<Longrightarrow> isspace c"
  by (auto simp: blanks_def isspace_def)

lemma find_first_not_of_position:
  "find_first_not_of cs s = Some i \<Longrightarrow>
     i = length (takeWhile (\<lambda>c. c \<in> set cs) s) \<and> (\<exists>c \<in> set s. c \<notin> set cs)"
  by (induction s arbitrary: i) (auto split: if_splits)

lemma trim_eq:
  "trim s = dropWhile (\<lambda>c. c \<in> set blanks) (rev (dropWhile (\<lambda>c. c \<in> set blanks) (rev s)))"
proof (cases "find_first_not_of blanks s")
  case None
  then have "\<forall>c \<in> set (rev s). c \<in> set blanks" by (auto simp: find_first_not_of_None)
  then have d: "dropWhile (\<lambda>c. c \<in> set blanks) (rev s) = []" by (simp only: dropWhile_eq_Nil_conv)
  show ?thesis unfolding d by (simp add: trim_def None)
next
  case (Some i)
  let ?P = "\<lambda>c. c \<in> set blanks"
  let ?X = "rev (dropWhile ?P (rev s))" and ?Y = "rev (takeWhile ?P (rev s))"
  have s: "s = ?X @ ?Y" by (metis rev_append rev_rev_ident takeWhile_dropWhile_id)
  from Some obtain c where c: "c \<in> set s" "\<not> ?P c"
    using find_first_not_of_position by blast
  then have cX: "c \<in> set ?X" using s by (metis Un_iff set_append set_rev set_takeWhileD)
  have "\<not> set (rev s) \<subseteq> set blanks" using c by auto
  then obtain j where j: "find_first_not_of blanks (rev s) = Some j"
    by (metis find_first_not_of_None option.exhaust)
  have "j = length (takeWhile ?P (rev s))" using find_first_not_of_position [OF j] by simp
  moreover have "length s = length ?X + length (takeWhile ?P (rev s))"
    using arg_cong [OF s, of length] by simp
  moreover have "0 < length ?X" using cX by (intro length_pos_if_in_set)
  ultimately have last: "length s - 1 - j = length ?X - 1" by simp
  have i: "i = length (takeWhile ?P ?X)"
    using find_first_not_of_position [OF Some] takeWhile_append1 [OF cX, of ?P ?Y] c(2) s by metis
  have "i < length ?X" unfolding i using cX c(2) by (rule takeWhile_shorter)
  then have "trim s = take (length ?X - i) (drop i s)"
    using Some j last by (simp add: trim_def find_last_not_of_def substr_def Suc_diff_Suc)
  also have "\<dots> = drop i (take (length ?X) s)" by (simp add: drop_take)
  also have "take (length ?X) s = ?X" using s by (metis append_eq_conv_conj)
  also have "drop i ?X = dropWhile ?P ?X" by (simp only: i dropWhile_eq_drop)
  finally show ?thesis .
qed

lemma tokens_trim [simp]: "tokens (trim s) = tokens s"
proof -
  let ?P = "\<lambda>c. c \<in> set blanks"
  let ?X = "rev (dropWhile ?P (rev s))" and ?Y = "rev (takeWhile ?P (rev s))"
  have "s = ?X @ ?Y" by (metis rev_append rev_rev_ident takeWhile_dropWhile_id)
  moreover have "tokens (?X @ ?Y) = tokens ?X"
    by (rule tokens_append_blanks) (metis blanks_space set_rev set_takeWhileD)
  ultimately have "tokens s = tokens ?X" by metis
  then show ?thesis by (simp only: trim_eq tokens_drop_blanks)
qed

fun extract_tokens :: "inet_api \<Rightarrow> string list \<Rightarrow> string" where
  "extract_tokens api [] = []"
| "extract_tokens api (t # ts) =
     (if t = ''inet'' then (case ts of [] \<Rightarrow> [] | candidate # _ \<Rightarrow> check_candidate api candidate)
      else if starts_with ''addr:'' t then check_candidate api (substr_from t 5)
      else extract_tokens api ts)"

lemma extract_loop_tokens: "extract_loop api s = extract_tokens api (tokens s)"
proof (induction api s rule: extract_loop.induct)
  case (1 api s)
  show ?case
  proof (cases "read_token s")
    case None
    then show ?thesis by (simp add: extract_loop.simps [of api s] tokens.simps [of s])
  next
    case (Some p)
    obtain t r where p: "p = (t, r)" by (cases p)
    with Some 1 show ?thesis
      by (auto simp: extract_loop.simps [of api s] tokens.simps [of s] tokens.simps [of r]
          split: option.split)
  qed
qed

lemma extract_inet_address_tokens: "extract_inet_address api s = extract_tokens api (tokens s)"
  by (simp add: extract_inet_address_def extract_loop_tokens)

lemma check_candidate_valid:
  assumes "check_candidate api c \<noteq> []"
  shows "is_valid_ipv4 api (check_candidate api c)"
proof -
  obtain cut where "check_candidate api c = (if is_valid_ipv4 api cut then cut else [])"
    unfolding check_candidate_def Let_def by blast
  with assms show ?thesis by (auto split: if_splits)
qed

lemma extract_tokens_valid:
  "extract_tokens api ts \<noteq> [] \<Longrightarrow> is_valid_ipv4 api (extract_tokens api ts)"
proof (induction ts)
  case Nil
  then show ?case by simp
next
  case (Cons t ts)
  show ?case
  proof (cases "t = ''inet''")
    case True
    with Cons.prems show ?thesis by (cases ts) (simp_all add: check_candidate_valid)
  next
    case False
    with Cons show ?thesis
      by (cases "starts_with ''addr:'' t") (simp_all add: check_candidate_valid)
  qed
qed

lemma extract_inet_address_valid:
  "extract_inet_address api l \<noteq> [] \<Longrightarrow> is_valid_ipv4 api (extract_inet_address api l)"
  by (simp add: extract_inet_address_tokens extract_tokens_valid)

section \<open>The interfaces of a text\<close>

definition iface_key :: "RemoteInterface \<Rightarrow> string \<times> string" where
  "iface_key r = (ri_name r, ri_ipv4 r)"

definition reportable :: "string \<times> string \<Rightarrow> bool" where
  "reportable k \<longleftrightarrow> fst k \<noteq> [] \<and> snd k \<noteq> [] \<and> \<not> is_loopback_interface_name (fst k)"

definition append_item :: "RemoteInterface list \<Rightarrow> RemoteInterface \<Rightarrow> RemoteInterface list" where
  "append_item interfaces r = append_interface interfaces (ri_name r) (ri_ipv4 r)"

lemma iface_key_inj: "iface_key r = iface_key (s :: RemoteInterface) \<longleftrightarrow> r = s"
  by (cases r; cases s) (simp add: iface_key_def)

interpretation iface_table: keyed_insert iface_key reportable append_item
proof unfold_locales
  fix x :: RemoteInterface and xs :: "RemoteInterface list"
  have dup: "list_ex (\<lambda>e. ri_name e = ri_name x \<and> ri_ipv4 e = ri_ipv4 x) xs
      \<longleftrightarrow> iface_key x \<in> iface_key ` set xs"
    unfolding list_ex_iff image_iff Bex_def iface_key_def by auto
  show "\<not> reportable (iface_key x) \<Longrightarrow> append_item xs x = xs"
    by (auto simp: append_item_def append_interface_def reportable_def iface_key_def)
  show "reportable (iface_key x) \<Longrightarrow> iface_key x \<in> iface_key ` set xs \<Longrightarrow>
      map iface_key (append_item xs x) = map iface_key xs"
    using dup by (simp add: append_item_def append_interface_def)
  show "reportable (iface_key x) \<Longrightarrow> iface_key x \<notin> iface_key ` set xs \<Longrightarrow>
      append_item xs x = xs @ [x]"
    using dup by (auto simp: append_item_def append_interface_def reportable_def iface_key_def)
qed

lemma fold_append_item:
  "foldl append_item [] xs = firsts (filter (\<lambda>r. reportable (iface_key r)) xs)"
proof -
  have inj: "inj (iface_key :: RemoteInterface \<Rightarrow> _)"
    by (simp add: inj_def iface_key_inj)
  have firsts_map: "firsts (map iface_key ys) = map iface_key (firsts ys)" for ys :: "RemoteInterface list"
    by (induction ys) (auto simp: filter_map comp_def iface_key_inj)
  have "map iface_key (foldl append_item [] xs) = firsts (filter reportable (map iface_key xs))"
    by (rule iface_table.keys_fold)
  also have "\<dots> = map iface_key (firsts (filter (\<lambda>r. reportable (iface_key r)) xs))"
    by (simp add: filter_map comp_def firsts_map)
  finally show ?thesis using inj by (simp only: inj_map_eq_map)
qed

text \<open>The (name, address) pairs that the loops hand to \<open>append\<close>, in order.\<close>

fun ifconfig_items :: "inet_api \<Rightarrow> string \<Rightarrow> string list \<Rightarrow> RemoteInterface list" where
  "ifconfig_items api current [] = []"
| "ifconfig_items api current (line # lines) =
     (if line = [] then ifconfig_items api current lines
      else let current' = (if isspace (hd line) then current
                           else normalize_name (first_token line));
               address = extract_inet_address api line
           in (if current' \<noteq> [] \<and> address \<noteq> [] then [\<lparr>ri_name = current', ri_ipv4 = address\<rparr>] else [])
              @ ifconfig_items api current' lines)"

fun ip_addr_items :: "inet_api \<Rightarrow> string \<Rightarrow> string list \<Rightarrow> RemoteInterface list" where
  "ip_addr_items api current [] = []"
| "ip_addr_items api current (line # lines) =
     (if trim line = [] then ip_addr_items api current lines
      else if isdigit (hd (trim line)) \<and> CHR '':'' \<in> set (trim line)
      then ip_addr_items api (normalize_name (second_token (trim line))) lines
      else let address = extract_inet_address api line
           in (if current \<noteq> [] \<and> address \<noteq> [] then [\<lparr>ri_name = current, ri_ipv4 = address\<rparr>] else [])
              @ ip_addr_items api current lines)"

lemma append_item_record [simp]:
  "append_item ifs \<lparr>ri_name = n, ri_ipv4 = a\<rparr> = append_interface ifs n a"
  by (simp add: append_item_def)

lemma ifconfig_fold:
  "fst (foldl (ifconfig_line api) (ifs, cur) lines) = foldl append_item ifs (ifconfig_items api cur lines)"
  by (induction lines arbitrary: ifs cur) (auto simp: ifconfig_line_def Let_def)

lemma ip_addr_fold:
  "fst (foldl (ip_addr_line api) (ifs, cur) lines) = foldl append_item ifs (ip_addr_items api cur lines)"
  by (induction lines arbitrary: ifs cur)
    (auto simp: ip_addr_line_def Let_def find_char_None extract_inet_address_tokens)

lemma parse_ifconfig_items:
  "parse_ifconfig_output api s =
     firsts (filter (\<lambda>r. reportable (iface_key r)) (ifconfig_items api [] (getlines s)))"
  by (simp add: parse_ifconfig_output_def ifconfig_fold fold_append_item)

lemma parse_ip_addr_items:
  "parse_ip_addr_output api s =
     firsts (filter (\<lambda>r. reportable (iface_key r)) (ip_addr_items api [] (getlines s)))"
  by (simp add: parse_ip_addr_output_def ip_addr_fold fold_append_item)

lemma ifconfig_items_valid: "r \<in> set (ifconfig_items api cur ls) \<Longrightarrow> is_valid_ipv4 api (ri_ipv4 r)"
  by (induction ls arbitrary: cur) (auto simp: Let_def extract_inet_address_valid split: if_splits)

lemma ip_addr_items_valid: "r \<in> set (ip_addr_items api cur ls) \<Longrightarrow> is_valid_ipv4 api (ri_ipv4 r)"
  by (induction ls arbitrary: cur) (auto simp: Let_def extract_inet_address_valid split: if_splits)

definition well_formed_interface :: "inet_api \<Rightarrow> RemoteInterface \<Rightarrow> bool" where
  "well_formed_interface api r \<longleftrightarrow> ri_name r \<noteq> [] \<and> ri_name r \<noteq> ''lo'' \<and> ri_name r \<noteq> ''lo0''
     \<and> ri_ipv4 r \<noteq> [] \<and> is_valid_ipv4 api (ri_ipv4 r)"

lemma parsed_well_formed:
  assumes "out \<in> {parse_ifconfig_output api text, parse_ip_addr_output api text}"
  shows "distinct out \<and> list_all (well_formed_interface api) out"
  using assms
  by (auto simp: parse_ifconfig_items parse_ip_addr_items reportable_def iface_key_def list_all_iff
      well_formed_interface_def is_loopback_interface_name_def dest: ifconfig_items_valid ip_addr_items_valid)

text \<open>C36: Whatever the remote command printed, both parsers return a duplicate-free list in which
every entry has a nonempty name other than \<open>lo\<close> and \<open>lo0\<close> and an address that \<open>inet_pton\<close> accepts.\<close>

theorem parsed_interfaces_well_formed:
  assumes "out \<in> {parse_ifconfig_output api text, parse_ip_addr_output api text}"
  shows "distinct out \<and> (\<forall>r \<in> set out. ri_name r \<noteq> [] \<and> ri_name r \<noteq> ''lo'' \<and> ri_name r \<noteq> ''lo0''
           \<and> ri_ipv4 r \<noteq> [] \<and> is_valid_ipv4 api (ri_ipv4 r))"
  using parsed_well_formed [OF assms] by (simp add: list_all_iff well_formed_interface_def)

definition sample_output :: string where
  "sample_output = ''eth0: flags=4163'' @ newline # ''        inet 10.0.0.5  netmask 255.255.255.0'' @ newline
     # ''lo: flags=73'' @ newline # ''        inet 127.0.0.1  netmask 255.0.0.0'' @ [newline]"

theorem parsed_interfaces_well_formed_witness:
  "\<exists>r. parse_ifconfig_output dotted_api sample_output = [r] \<and> ri_name r \<noteq> ''lo'' \<and> is_valid_ipv4 dotted_api (ri_ipv4 r)"
proof -
  have "parse_ifconfig_output dotted_api sample_output = [\<lparr>ri_name = ''eth0'', ri_ipv4 = ''10.0.0.5''\<rparr>]" by code_simp
  with parsed_interfaces_well_formed [of "parse_ifconfig_output dotted_api sample_output" dotted_api sample_output]
  show ?thesis by auto
qed

end
