(* ===== verification/Formatter.thy ===== *)
theory Formatter
  imports Ifconfig_Parser
begin

text \<open>
  \<open>src/src/output/formatter.cpp\<close>: the text and JSON reports. A stream of \<open><<\<close> insertions is
  the concatenation of the inserted strings. The lemmas here describe the layout of the text
  report; the JSON report is read back in \<open>Report_Json\<close>.
\<close>

section \<open>The report\<close>

record DiscoveryReport =
  rep_interface_name :: string
  rep_ssh_ip :: string
  rep_ssh_banner :: string
  rep_host_key_status :: string
  rep_discovery_stage :: string
  rep_interfaces :: "RemoteInterface list"
  rep_warnings :: "string list"

definition json_char :: "char \<Rightarrow> string" where
  "json_char c =
     (if c = CHR 0x22 then [CHR 0x5C, CHR 0x22]
      else if c = CHR 0x5C then [CHR 0x5C, CHR 0x5C]
      else if c = newline then [CHR 0x5C, CHR ''n'']
      else if c = carriage_return then [CHR 0x5C, CHR ''r'']
      else if c = tab then [CHR 0x5C, CHR ''t'']
      else if code c < 0x20 then [CHR 0x5C, CHR ''u''] @ ''00'' @ hex2 (of_char c)
      else [c])"

definition json_escape :: "string \<Rightarrow> string" where
  "json_escape value = concat (map json_char value)"

section \<open>Text\<close>

definition put_line :: "string \<Rightarrow> string" where
  "put_line s = s @ [newline]"

text \<open>\<open>std::left << std::setw(n) << s\<close>.\<close>

definition setw_left :: "nat \<Rightarrow> string \<Rightarrow> string" where
  "setw_left n s = s @ replicate (n - length s) CHR '' ''"

definition name_width :: "RemoteInterface list \<Rightarrow> nat" where
  "name_width interfaces = foldl (\<lambda>width iface. max width (length (ri_name iface))) 4 interfaces"

definition format_text :: "DiscoveryReport \<Rightarrow> string" where
  "format_text report =
     (if rep_ssh_ip report = [] then put_line ''Network interfaces:''
      else put_line ''Directly connected device discovered'' @ [newline] @ put_line ''SSH endpoint:''
        @ put_line (''  IP:       '' @ rep_ssh_ip report)
        @ put_line (''  Banner:   '' @ rep_ssh_banner report)
        @ (if rep_interface_name report \<noteq> [] then
             put_line (''  Via:      '' @ rep_interface_name report
               @ (if rep_discovery_stage report \<noteq> []
                  then '' ('' @ rep_discovery_stage report @ '')'' else []))
           else [])
        @ (if rep_host_key_status report \<noteq> []
           then put_line (''  Host key: '' @ rep_host_key_status report) else [])
        @ [newline] @ put_line ''Network interfaces:'')
     @ (if rep_interfaces report = [] then put_line ''  (none found)''
        else let width = name_width (rep_interfaces report)
             in concat (map (\<lambda>iface. put_line (''  '' @ setw_left (width + 2) (ri_name iface) @ ri_ipv4 iface))
                  (rep_interfaces report)))
     @ (if rep_warnings report \<noteq> [] then
          [newline] @ concat (map (\<lambda>warning. put_line (''WARNING: '' @ warning)) (rep_warnings report))
        else [])"

section \<open>JSON\<close>

definition quoted :: "string \<Rightarrow> string" where
  "quoted s = [CHR 0x22] @ s @ [CHR 0x22]"

text \<open>
  An indented member \<open>"key": "value"\<close>, without the separator and the line end that follow it.
\<close>

definition json_member :: "string \<Rightarrow> string \<Rightarrow> string \<Rightarrow> string" where
  "json_member indent key value = indent @ quoted key @ '': '' @ quoted (json_escape value)"

definition json_interface :: "RemoteInterface \<Rightarrow> string" where
  "json_interface iface =
     put_line ''    {''
     @ put_line (json_member ''      '' ''name'' (ri_name iface) @ '','')
     @ put_line (json_member ''      '' ''ipv4'' (ri_ipv4 iface))
     @ ''    }''"

text \<open>
  The loop over the elements of an array: a newline before the first one, a comma and a newline
  before the others, then the closing bracket on the same put_line (no element) or on its own.
\<close>

fun json_elements :: "bool \<Rightarrow> string list \<Rightarrow> string" where
  "json_elements first [] = []"
| "json_elements first (e # es) =
     (if first then [newline] else '','' @ [newline]) @ e @ json_elements False es"

definition json_array :: "string list \<Rightarrow> string" where
  "json_array es = ''['' @ json_elements True es @ (if es = [] then '']'' else [newline] @ ''  ]'')"

definition format_json :: "DiscoveryReport \<Rightarrow> string" where
  "format_json report =
     put_line ''{''
     @ put_line (json_member ''  '' ''ssh_ip'' (rep_ssh_ip report) @ '','')
     @ put_line (json_member ''  '' ''ssh_banner'' (rep_ssh_banner report) @ '','')
     @ put_line (json_member ''  '' ''local_interface'' (rep_interface_name report) @ '','')
     @ put_line (json_member ''  '' ''discovery_stage'' (rep_discovery_stage report) @ '','')
     @ put_line (json_member ''  '' ''host_key_status'' (rep_host_key_status report) @ '','')
     @ put_line (''  '' @ quoted ''interfaces'' @ '': '' @ json_array (map json_interface (rep_interfaces report)) @ '','')
     @ put_line (''  '' @ quoted ''warnings'' @ '': ''
         @ json_array (map (\<lambda>w. ''    '' @ quoted (json_escape w)) (rep_warnings report)))
     @ put_line ''}''"

section \<open>The table of the text report\<close>

lemma getlines_line_append: "newline \<notin> set l \<Longrightarrow> getlines (put_line l @ s) = l # getlines s"
  by (simp add: put_line_def cxx_simps)

lemma getlines_newline: "getlines (newline # s) = [] # getlines s"
  using getlines_line [of "[]" s] by simp

lemma getlines_concat_lines:
  "(\<And>x. x \<in> set xs \<Longrightarrow> newline \<notin> set (f x)) \<Longrightarrow>
     getlines (concat (map (\<lambda>x. put_line (f x)) xs) @ s) = map f xs @ getlines s"
  by (induction xs) (simp_all add: getlines_line_append)

lemma foldl_max_ge: "w \<le> foldl (\<lambda>w r. max w (f r)) w rs \<and> (\<forall>r \<in> set rs. f r \<le> foldl (\<lambda>w r. max w (f r)) (w :: nat) rs)"
proof (induction rs arbitrary: w)
  case (Cons r rs)
  from Cons [of "max w (f r)"] show ?case by auto
qed simp

lemma name_width_ge: "r \<in> set rs \<Longrightarrow> length (ri_name r) \<le> name_width rs"
  using foldl_max_ge [of 4 "\<lambda>r. length (ri_name r)" rs] by (auto simp: name_width_def)

definition report_row :: "nat \<Rightarrow> RemoteInterface \<Rightarrow> string" where
  "report_row w r = ''  '' @ setw_left (w + 2) (ri_name r) @ ri_ipv4 r"

definition report_strings :: "DiscoveryReport \<Rightarrow> string set" where
  "report_strings report =
     {rep_interface_name report, rep_ssh_ip report, rep_ssh_banner report,
      rep_host_key_status report, rep_discovery_stage report}
     \<union> ri_name ` set (rep_interfaces report) \<union> ri_ipv4 ` set (rep_interfaces report)
     \<union> set (rep_warnings report)"

lemma report_row_columns:
  assumes "length (ri_name r) \<le> w"
  shows "drop (w + 4) (report_row w r) = ri_ipv4 r"
    and "take (w + 4) (report_row w r) = ''  '' @ ri_name r @ replicate (w + 2 - length (ri_name r)) CHR '' ''"
proof -
  let ?p = "''  '' @ ri_name r @ replicate (w + 2 - length (ri_name r)) CHR '' ''"
  have "report_row w r = ?p @ ri_ipv4 r" "length ?p = w + 4"
    using assms by (simp_all add: report_row_def setw_left_def)
  then show "drop (w + 4) (report_row w r) = ri_ipv4 r" "take (w + 4) (report_row w r) = ?p"
    by (metis append_eq_conv_conj)+
qed

definition warning_lines :: "string list \<Rightarrow> string list" where
  "warning_lines ws = (if ws = [] then [] else [] # map ((@) ''WARNING: '') ws)"

lemma warning_lines:
  assumes "\<And>x. x \<in> set ws \<Longrightarrow> newline \<notin> set x"
  shows "getlines (if ws \<noteq> [] then [newline] @ concat (map (\<lambda>w. put_line (''WARNING: '' @ w)) ws) else [])
    = warning_lines ws"
  using getlines_concat_lines [of ws "(@) ''WARNING: ''" "[]"] assms
  by (auto simp: warning_lines_def getlines_newline getlines.simps [of "[]"] getline_def)

text \<open>The lines before the heading of the interfaces.\<close>

definition endpoint_lines :: "DiscoveryReport \<Rightarrow> string list" where
  "endpoint_lines report = (if rep_ssh_ip report = [] then [] else
     [''Directly connected device discovered'', [], ''SSH endpoint:'',
      ''  IP:       '' @ rep_ssh_ip report, ''  Banner:   '' @ rep_ssh_banner report]
     @ (if rep_interface_name report = [] then [] else
         [''  Via:      '' @ rep_interface_name report
           @ (if rep_discovery_stage report = [] then [] else '' ('' @ rep_discovery_stage report @ '')'')])
     @ (if rep_host_key_status report = [] then [] else [''  Host key: '' @ rep_host_key_status report])
     @ [[]])"

definition interface_lines :: "RemoteInterface list \<Rightarrow> string list" where
  "interface_lines rs = (if rs = [] then [''  (none found)''] else map (report_row (name_width rs)) rs)"

lemma format_text_lines:
  assumes "\<forall>s \<in> report_strings report. newline \<notin> set s"
  shows "getlines (format_text report) = endpoint_lines report @ ''Network interfaces:''
    # interface_lines (rep_interfaces report) @ warning_lines (rep_warnings report)"
proof -
  let ?row = "report_row (name_width (rep_interfaces report))"
  define via where "via = ''  Via:      '' @ rep_interface_name report
    @ (if rep_discovery_stage report \<noteq> [] then '' ('' @ rep_discovery_stage report @ '')'' else [])"
  define tail where "tail = (if rep_interfaces report = [] then put_line ''  (none found)''
      else concat (map (\<lambda>r. put_line (?row r)) (rep_interfaces report)))
    @ (if rep_warnings report \<noteq> []
       then [newline] @ concat (map (\<lambda>w. put_line (''WARNING: '' @ w)) (rep_warnings report)) else [])"
  have row: "newline \<notin> set (?row r)" if "r \<in> set (rep_interfaces report)" for r
    using assms(1) that by (auto simp: report_row_def setw_left_def report_strings_def)
  have warnings: "getlines (if rep_warnings report \<noteq> []
      then [newline] @ concat (map (\<lambda>w. put_line (''WARNING: '' @ w)) (rep_warnings report)) else [])
    = warning_lines (rep_warnings report)"
    using assms(1) by (intro warning_lines) (auto simp: report_strings_def)
  have "getlines tail = interface_lines (rep_interfaces report) @ warning_lines (rep_warnings report)"
  proof (cases "rep_interfaces report = []")
    case True
    then show ?thesis unfolding tail_def interface_lines_def
      by (simp add: getlines_line_append warnings del: append.simps)
  next
    case False
    then show ?thesis unfolding tail_def interface_lines_def if_not_P [OF False]
      by (subst getlines_concat_lines) (simp_all add: row warnings)
  qed
  moreover have "format_text report = (if rep_ssh_ip report = [] then put_line ''Network interfaces:''
      else put_line ''Directly connected device discovered'' @ [newline] @ put_line ''SSH endpoint:''
        @ put_line (''  IP:       '' @ rep_ssh_ip report)
        @ put_line (''  Banner:   '' @ rep_ssh_banner report)
        @ (if rep_interface_name report \<noteq> [] then put_line via else [])
        @ (if rep_host_key_status report \<noteq> []
           then put_line (''  Host key: '' @ rep_host_key_status report) else [])
        @ [newline] @ put_line ''Network interfaces:'') @ tail"
    by (simp add: format_text_def tail_def via_def report_row_def Let_def)
  moreover have "newline \<notin> set (rep_ssh_ip report)" "newline \<notin> set (rep_ssh_banner report)"
    "newline \<notin> set via" "newline \<notin> set (rep_host_key_status report)"
    using assms(1) by (auto simp: report_strings_def via_def)
  ultimately show ?thesis
    by (auto simp: getlines_line_append getlines_newline endpoint_lines_def via_def)
qed

text \<open>C37: The lines of the text report, when no string of the report holds a line feed. With a device,
first the heading, an empty line, \<open>SSH endpoint:\<close>, its address, its banner, the interface and the stage if
there is an interface, the status of the host key if there is one, and an empty line; then \<open>Network interfaces:\<close>,
one line per interface in order, or \<open>(none found)\<close>; then the warnings after an empty line, if there are
any. All names start in the third column and are followed by at least one space, and all addresses start in one
common column and reach to the end of their line.\<close>

theorem format_text_table:
  assumes "\<forall>s \<in> report_strings report. newline \<notin> set s"
  shows "\<exists>rows column.
    getlines (format_text report) =
      (if rep_ssh_ip report = [] then [] else
         [''Directly connected device discovered'', [], ''SSH endpoint:'',
          ''  IP:       '' @ rep_ssh_ip report, ''  Banner:   '' @ rep_ssh_banner report]
         @ (if rep_interface_name report = [] then [] else
             [''  Via:      '' @ rep_interface_name report
               @ (if rep_discovery_stage report = [] then [] else '' ('' @ rep_discovery_stage report @ '')'')])
         @ (if rep_host_key_status report = [] then [] else [''  Host key: '' @ rep_host_key_status report])
         @ [[]])
      @ ''Network interfaces:'' # rows
      @ (if rep_warnings report = [] then [] else [] # map ((@) ''WARNING: '') (rep_warnings report))
    \<and> (if rep_interfaces report = [] then rows = [''  (none found)'']
       else list_all2 (\<lambda>row r. drop column row = ri_ipv4 r
              \<and> (\<exists>k. take column row = ''  '' @ ri_name r @ replicate (Suc k) CHR '' ''))
            rows (rep_interfaces report))"
proof -
  let ?w = "name_width (rep_interfaces report)"
  have "drop (?w + 4) (report_row ?w r) = ri_ipv4 r
      \<and> (\<exists>k. take (?w + 4) (report_row ?w r) = ''  '' @ ri_name r @ replicate (Suc k) CHR '' '')"
    if "r \<in> set (rep_interfaces report)" for r
  proof -
    note w = name_width_ge [OF that]
    then have "?w + 2 - length (ri_name r) = Suc (?w + 1 - length (ri_name r))" by simp
    with report_row_columns [OF w] show ?thesis by metis
  qed
  then have rows: "list_all2 (\<lambda>row r. drop (?w + 4) row = ri_ipv4 r
        \<and> (\<exists>k. take (?w + 4) row = ''  '' @ ri_name r @ replicate (Suc k) CHR '' ''))
      (map (report_row ?w) (rep_interfaces report)) (rep_interfaces report)"
    by (simp add: list_all2_conv_all_nth)
  show ?thesis
    unfolding format_text_lines [OF assms] endpoint_lines_def warning_lines_def
    by (rule exI [of _ "interface_lines (rep_interfaces report)"], rule exI [of _ "?w + 4"], intro conjI refl)
      (cases "rep_interfaces report = []"; use rows in \<open>simp add: interface_lines_def\<close>)
qed

theorem format_text_table_witness:
  "\<exists>rows. getlines (format_text
       \<lparr>rep_interface_name = ''Ethernet'', rep_ssh_ip = ''192.168.1.2'', rep_ssh_banner = ''SSH-2.0-x'',
        rep_host_key_status = [], rep_discovery_stage = ''subnet-scan'',
        rep_interfaces = [\<lparr>ri_name = ''eth0'', ri_ipv4 = ''192.168.1.2''\<rparr>],
        rep_warnings = [''w'']\<rparr>) =
     [''Directly connected device discovered'', [], ''SSH endpoint:'', ''  IP:       192.168.1.2'',
      ''  Banner:   SSH-2.0-x'', ''  Via:      Ethernet (subnet-scan)'', [], ''Network interfaces:'']
     @ rows @ [[], ''WARNING: w''] \<and> length rows = 1"
proof -
  define report where "report = \<lparr>rep_interface_name = ''Ethernet'', rep_ssh_ip = ''192.168.1.2'',
        rep_ssh_banner = ''SSH-2.0-x'',
        rep_host_key_status = [], rep_discovery_stage = ''subnet-scan'',
        rep_interfaces = [\<lparr>ri_name = ''eth0'', ri_ipv4 = ''192.168.1.2''\<rparr>],
        rep_warnings = [''w'']\<rparr>"
  have "\<forall>s \<in> report_strings report. newline \<notin> set s" by (simp add: report_def report_strings_def)
  from format_text_table [OF this] show ?thesis
    unfolding report_def [symmetric] by (auto simp: report_def dest: list_all2_lengthD)
qed

end
