(* ===== verification/Platform.thy ===== *)
theory Platform
  imports Inet "HOL-Library.Multiset" "HOL-Library.State_Monad"
begin

text \<open>
  \<open>src/src/platform/windows_sockets.cpp\<close> and the boundary to the operating system and to
  libssh2. A program action is a state monad over the trace of system calls made so far;
  every call appends one event holding its arguments and its answer. The answers are not
  modelled: they come from a record \<open>os\<close> of functions of the call's arguments and of the
  whole trace before it, so a theorem for every \<open>os\<close> holds whatever the environment does,
  including answers that change over time.
\<close>

section \<open>Events and the environment\<close>

type_synonym socket_t = u64

definition kInvalidSocket :: socket_t where "kInvalidSocket = - 1"

datatype sock_kind = Sock_stream | Sock_raw

text \<open>
  The answer of \<open>recv\<close>: the bytes received (none: the peer closed the connection) or
  \<open>SOCKET_ERROR\<close>.
\<close>

datatype recv_result = Received string | Recv_error

type_synonym session = nat
type_synonym channel = nat

datatype hostkey_type = Hostkey_rsa | Hostkey_other
datatype knownhost_check = Check_match | Check_mismatch | Check_notfound | Check_failure

text \<open>Winsock calls, process-wide calls, libssh2 session calls and libssh2 channel calls.\<close>

datatype sock_event =
    Ev_WSAStartup bool
  | Ev_WSACleanup
  | Ev_socket sock_kind socket_t
  | Ev_closesocket socket_t
  | Ev_FIONBIO socket_t u32 bool
  | Ev_connect socket_t u32 u16 int
  | Ev_WSAGetLastError int
  | Ev_WSAPoll socket_t bool int int
  | Ev_SO_ERROR socket_t bool int
  | Ev_recv socket_t nat recv_result
  | Ev_bind socket_t u32 bool
  | Ev_SIO_RCVALL socket_t bool

datatype proc_event =
    Ev_now int
  | Ev_FormatMessage int "string option"
  | Ev_OpenProcessToken bool
  | Ev_TokenElevation "bool option"
  | Ev_getenv string "string option"
  | Ev_GetIpNetTable2 bool
  | Ev_stdout string
  | Ev_stderr string

datatype ssh_event =
    Ev_libssh2_init bool
  | Ev_session_init "session option"
  | Ev_session_set_blocking session
  | Ev_session_set_timeout session int
  | Ev_handshake session socket_t int
  | Ev_hostkey session "(string \<times> hostkey_type) option"
  | Ev_knownhost_init session bool
  | Ev_knownhost_readfile session string
  | Ev_knownhost_checkp session string u16 string bool knownhost_check
  | Ev_knownhost_free session
  | Ev_userauth_password session string string int
  | Ev_last_error session int "string option"
  | Ev_session_disconnect session
  | Ev_session_free session

datatype channel_event =
    Ev_channel_open session "channel option"
  | Ev_channel_exec channel string int
  | Ev_channel_read channel bool "string option"
  | Ev_channel_close channel
  | Ev_channel_exit_status channel int
  | Ev_channel_free channel

datatype event = Sock sock_event | Proc proc_event | Ssh ssh_event | Chan channel_event

type_synonym trace = "event list"
type_synonym 'a io = "(trace, 'a) state"

record os =
  os_inet :: inet_api
  os_WSAStartup :: "trace \<Rightarrow> bool"
  os_socket :: "sock_kind \<Rightarrow> trace \<Rightarrow> socket_t"
  os_FIONBIO :: "socket_t \<Rightarrow> u32 \<Rightarrow> trace \<Rightarrow> bool"
  os_connect :: "socket_t \<Rightarrow> u32 \<Rightarrow> u16 \<Rightarrow> trace \<Rightarrow> int"
  os_WSAGetLastError :: "trace \<Rightarrow> int"
  os_WSAPoll :: "socket_t \<Rightarrow> bool \<Rightarrow> int \<Rightarrow> trace \<Rightarrow> int"
  os_SO_ERROR :: "socket_t \<Rightarrow> trace \<Rightarrow> bool \<times> int"
  os_recv :: "socket_t \<Rightarrow> nat \<Rightarrow> trace \<Rightarrow> recv_result"
  os_bind :: "socket_t \<Rightarrow> u32 \<Rightarrow> trace \<Rightarrow> bool"
  os_SIO_RCVALL :: "socket_t \<Rightarrow> trace \<Rightarrow> bool"
  os_now :: "trace \<Rightarrow> int"
  os_FormatMessage :: "int \<Rightarrow> trace \<Rightarrow> string option"
  os_OpenProcessToken :: "trace \<Rightarrow> bool"
  os_TokenElevation :: "trace \<Rightarrow> bool option"
  os_getenv :: "string \<Rightarrow> trace \<Rightarrow> string option"

definition syscall :: "(trace \<Rightarrow> 'a) \<Rightarrow> ('a \<Rightarrow> event) \<Rightarrow> 'a io" where
  "syscall answer ev = State (\<lambda>t. (answer t, t @ [ev (answer t)]))"

lemma run_state_syscall [simp]:
  "run_state (syscall answer ev) t = (answer t, t @ [ev (answer t)])"
  by (simp add: syscall_def)

abbreviation return :: "'a \<Rightarrow> 'a io" where "return \<equiv> State_Monad.return"

section \<open>Winsock start-up and clean-up\<close>

text \<open>
  \<open>ensure_winsock_initialised\<close>: a function-local static, so the first call starts Winsock
  and every later one returns that call's outcome.
\<close>

fun startup_result :: "trace \<Rightarrow> bool option" where
  "startup_result [] = None"
| "startup_result (e # t) = (case e of Sock (Ev_WSAStartup ok) \<Rightarrow> Some ok | _ \<Rightarrow> startup_result t)"

definition ensure_winsock_initialised :: "os \<Rightarrow> bool io" where
  "ensure_winsock_initialised os = do {
     t \<leftarrow> State_Monad.get;
     case startup_result t of
       Some ok \<Rightarrow> return ok
     | None \<Rightarrow> syscall (os_WSAStartup os) (Sock \<circ> Ev_WSAStartup)
   }"

text \<open>
  The destructor of the static, which runs at process exit when its constructor has run.
\<close>

definition release_winsock :: "unit io" where
  "release_winsock = do {
     t \<leftarrow> State_Monad.get;
     if startup_result t = Some True then syscall (\<lambda>_. ()) (\<lambda>_. Sock Ev_WSACleanup) else return ()
   }"

lemma startup_result_append:
  "startup_result (s @ t) =
     (case startup_result s of None \<Rightarrow> startup_result t | Some ok \<Rightarrow> Some ok)"
  by (induction s) (auto split: event.splits sock_event.splits)

lemma startup_result_snoc [simp]:
  "startup_result (t @ [Sock (Ev_WSAStartup ok)]) = (case startup_result t of None \<Rightarrow> Some ok | Some ok' \<Rightarrow> Some ok')"
  by (simp add: startup_result_append split: option.split)

text \<open>The events that neither start nor clean up Winsock.\<close>

fun steady :: "event \<Rightarrow> bool" where
  "steady (Sock (Ev_WSAStartup ok)) = False"
| "steady (Sock Ev_WSACleanup) = False"
| "steady _ = True"

section \<open>Socket helpers\<close>

definition close_socket :: "socket_t \<Rightarrow> socket_t io" where
  "close_socket handle =
     (if handle \<noteq> kInvalidSocket
      then do { _ \<leftarrow> syscall (\<lambda>_. ()) (\<lambda>_. Sock (Ev_closesocket handle)); return kInvalidSocket }
      else return handle)"

definition last_socket_error :: "os \<Rightarrow> int io" where
  "last_socket_error os = syscall (os_WSAGetLastError os) (Sock \<circ> Ev_WSAGetLastError)"

definition trim_message :: "string \<Rightarrow> string" where
  "trim_message message =
     rev (dropWhile (\<lambda>c. c = carriage_return \<or> c = newline \<or> c = CHR '' '' \<or> c = CHR ''.'')
       (rev message))"

definition socket_error_text :: "os \<Rightarrow> int \<Rightarrow> string io" where
  "socket_error_text os error_code = do {
     message \<leftarrow> syscall (os_FormatMessage os error_code) (Proc \<circ> Ev_FormatMessage error_code);
     case message of
       None \<Rightarrow> return (''Winsock error '' @ dec_of_int error_code)
     | Some m \<Rightarrow>
         if m = [] then return (''Winsock error '' @ dec_of_int error_code)
         else return (trim_message m @ '' (error '' @ dec_of_int error_code @ '')'')
   }"

definition set_non_blocking :: "os \<Rightarrow> socket_t \<Rightarrow> bool io" where
  "set_non_blocking os handle = syscall (os_FIONBIO os handle 1) (Sock \<circ> Ev_FIONBIO handle 1)"

text \<open>
  The timeout handed to \<open>WSAPoll\<close>: negative durations become 0, and the count is converted
  to the 32-bit \<open>INT\<close> of the interface. The conversion keeps the low 32 bits.
\<close>

definition poll_timeout :: "milliseconds \<Rightarrow> int" where
  "poll_timeout timeout =
     (let milliseconds = (if timeout < 0 then 0 else timeout)
      in sint (word_of_int milliseconds :: u32))"

definition wait_for_socket :: "os \<Rightarrow> socket_t \<Rightarrow> bool \<Rightarrow> milliseconds \<Rightarrow> int io" where
  "wait_for_socket os handle for_write timeout =
     syscall (os_WSAPoll os handle for_write (poll_timeout timeout))
       (Sock \<circ> Ev_WSAPoll handle for_write (poll_timeout timeout))"

definition is_process_elevated :: "os \<Rightarrow> bool io" where
  "is_process_elevated os = do {
     opened \<leftarrow> syscall (os_OpenProcessToken os) (Proc \<circ> Ev_OpenProcessToken);
     if \<not> opened then return False
     else do {
       elevation \<leftarrow> syscall (os_TokenElevation os) (Proc \<circ> Ev_TokenElevation);
       return (elevation = Some True)
     }
   }"

lemma poll_timeout_small: "0 \<le> t \<Longrightarrow> t < 2 ^ 31 \<Longrightarrow> poll_timeout t = t"
  by (simp add: poll_timeout_def signed_of_int signed_take_bit_int_eq_self)

lemma poll_timeout_range: "- (2 ^ 31) \<le> poll_timeout t \<and> poll_timeout t < 2 ^ 31"
  using sint_greater_eq [of "word_of_int (if t < 0 then 0 else t) :: u32"]
    sint_less [of "word_of_int (if t < 0 then 0 else t) :: u32"]
  by (simp add: poll_timeout_def Let_def)

section \<open>The events of an action\<close>

text \<open>
  The events that an action adds satisfy a predicate, and once Winsock was started they neither
  start it again nor clean it up.
\<close>

definition adds :: "(event \<Rightarrow> bool) \<Rightarrow> trace \<Rightarrow> trace \<Rightarrow> bool" where
  "adds P t t' \<longleftrightarrow> (\<exists>es. t' = t @ es \<and> list_all P es \<and> (startup_result t \<noteq> None \<longrightarrow> list_all steady es))"

definition emits :: "(event \<Rightarrow> bool) \<Rightarrow> 'a io \<Rightarrow> bool" where
  "emits P m \<longleftrightarrow> (\<forall>t. adds P t (snd (run_state m t)))"

lemma adds_trans: "adds P t t1 \<Longrightarrow> adds P t1 t2 \<Longrightarrow> adds P t t2"
  by (fastforce simp: adds_def startup_result_append)

lemma adds_refl: "adds P t t"
  by (simp add: adds_def)

lemma adds_mono: "adds P t t' \<Longrightarrow> (\<And>e. P e \<Longrightarrow> Q e) \<Longrightarrow> adds Q t t'"
  by (auto simp: adds_def list_all_iff)

lemma adds_snoc: "P e \<Longrightarrow> steady e \<Longrightarrow> adds P t (t @ [e])"
  by (simp add: adds_def)

lemma adds_append: "list_all P es \<Longrightarrow> list_all steady es \<Longrightarrow> adds P t (t @ es)"
  by (simp add: adds_def)

lemma emits_return: "emits P (return x)"
  by (simp add: emits_def adds_refl)

lemma emits_bind:
  assumes "emits P m" and "\<And>x. emits P (k x)"
  shows "emits P (m \<bind> k)"
  using assms unfolding emits_def by (auto simp: split_beta intro: adds_trans)

lemma emits_syscall: "(\<And>x. P (ev x)) \<Longrightarrow> (\<And>x. steady (ev x)) \<Longrightarrow> emits P (syscall answer ev)"
  by (simp add: emits_def adds_snoc)

lemma emits_get: "emits P State_Monad.get"
  by (simp add: emits_def adds_refl)

lemma emits_ensure: "(\<And>ok. P (Sock (Ev_WSAStartup ok))) \<Longrightarrow> emits P (ensure_winsock_initialised os)"
  by (auto simp: emits_def adds_def ensure_winsock_initialised_def split: option.split)

lemma emits_run: "emits P m \<Longrightarrow> run_state m t = (x, t') \<Longrightarrow> adds P t t'"
  unfolding emits_def by (metis snd_conv)

lemma adds_events: "adds P t t' \<Longrightarrow> \<exists>es. t' = t @ es \<and> list_all P es"
  by (auto simp: adds_def)

lemma emits_mono: "emits P m \<Longrightarrow> (\<And>e. P e \<Longrightarrow> Q e) \<Longrightarrow> emits Q m"
  unfolding emits_def by (blast intro: adds_mono)

lemma emits_if: "emits P m \<Longrightarrow> emits P k \<Longrightarrow> emits P (if b then m else k)"
  by simp

lemmas emits_intros = emits_return emits_bind emits_syscall emits_get

section \<open>Open sockets of a trace\<close>

text \<open>
  The sockets the program holds: those \<open>socket()\<close> returned and \<open>closesocket()\<close> has not
  taken back.
\<close>

definition live_step :: "socket_t multiset \<Rightarrow> event \<Rightarrow> socket_t multiset" where
  "live_step M e = (case e of
      Sock (Ev_socket k h) \<Rightarrow> if h = kInvalidSocket then M else add_mset h M
    | Sock (Ev_closesocket h) \<Rightarrow> M - {#h#}
    | _ \<Rightarrow> M)"

definition live_sockets :: "trace \<Rightarrow> socket_t multiset" where
  "live_sockets t = foldl live_step {#} t"

lemma live_sockets_snoc [simp]:
  "live_sockets (t @ [e]) = live_step (live_sockets t) e"
  by (simp add: live_sockets_def)

lemma live_sockets_Nil [simp]: "live_sockets [] = {#}"
  by (simp add: live_sockets_def)

lemma live_ensure [simp]:
  "live_sockets (snd (run_state (ensure_winsock_initialised os) t)) = live_sockets t"
  by (auto simp: ensure_winsock_initialised_def live_step_def split: option.split)

section \<open>Observations that an action leaves alone\<close>

definition keeps :: "(trace \<Rightarrow> 'c) \<Rightarrow> 'a io \<Rightarrow> bool" where
  "keeps f m \<longleftrightarrow> (\<forall>t. f (snd (run_state m t)) = f t)"

lemma keepsD: "keeps f m \<Longrightarrow> run_state m t = (x, t') \<Longrightarrow> f t' = f t"
  by (metis keeps_def snd_conv)

lemma keeps_return [simp, intro]: "keeps f (return x)"
  by (simp add: keeps_def)

lemma keeps_bind [intro]:
  "keeps f m \<Longrightarrow> (\<And>x. keeps f (k x)) \<Longrightarrow> keeps f (m \<bind> k)"
  by (simp add: keeps_def split_beta)

lemma keeps_get [simp, intro]: "keeps f State_Monad.get"
  by (simp add: keeps_def)

lemma keeps_syscall: "(\<And>t e. e \<in> range ev \<Longrightarrow> f (t @ [e]) = f t) \<Longrightarrow> keeps f (syscall answer ev)"
  by (simp add: keeps_def)

text \<open>The sockets that a handle variable owns.\<close>

definition owned :: "socket_t \<Rightarrow> socket_t multiset" where
  "owned h = (if h = kInvalidSocket then {#} else {#h#})"

definition socket_neutral :: "event \<Rightarrow> bool" where
  "socket_neutral e = (case e of Sock (Ev_socket k h) \<Rightarrow> False | Sock (Ev_closesocket h) \<Rightarrow> False | _ \<Rightarrow> True)"

lemma live_step_neutral: "socket_neutral e \<Longrightarrow> live_step M e = M"
  by (auto simp: socket_neutral_def live_step_def split: event.splits sock_event.splits)

lemma keeps_live_syscall:
  "(\<And>x. socket_neutral (ev x)) \<Longrightarrow> keeps live_sockets (syscall answer ev)"
  by (auto intro!: keeps_syscall simp: live_step_neutral)

lemma keeps_live_simps [simp]:
  "keeps live_sockets (ensure_winsock_initialised os)"
  "keeps live_sockets (last_socket_error os)"
  "keeps live_sockets (socket_error_text os e)"
  "keeps live_sockets (set_non_blocking os h)"
  "keeps live_sockets (wait_for_socket os h w ms)"
  "keeps live_sockets (is_process_elevated os)"
  by (auto simp: ensure_winsock_initialised_def last_socket_error_def socket_error_text_def
      set_non_blocking_def wait_for_socket_def is_process_elevated_def socket_neutral_def
      intro!: keeps_bind keeps_live_syscall split: option.split)

lemma live_close [simp]:
  "live_sockets (snd (run_state (close_socket h) t)) = live_sockets t - owned h"
  by (simp add: close_socket_def owned_def live_step_def)

lemma live_sockets_append [trace_simps]: "live_sockets (t @ es) = foldl live_step (live_sockets t) es"
  by (simp add: live_sockets_def)

section \<open>A sample environment\<close>

text \<open>
  An environment for concrete runs: every call succeeds, the peer sends one SSH identification
  line, and each system call takes one microsecond.
\<close>

definition sample_os :: os where
  "sample_os = \<lparr>
     os_inet = dotted_api,
     os_WSAStartup = \<lambda>_. True,
     os_socket = \<lambda>_ _. 7,
     os_FIONBIO = \<lambda>_ _ _. True,
     os_connect = \<lambda>_ _ _ _. 0,
     os_WSAGetLastError = \<lambda>_. 10035,
     os_WSAPoll = \<lambda>_ _ _ _. 1,
     os_SO_ERROR = \<lambda>_ _. (True, 0),
     os_recv = \<lambda>_ n _. Received (take n (''SSH-2.0-OpenSSH_9.6'' @ [carriage_return, newline])),
     os_bind = \<lambda>_ _ _. True,
     os_SIO_RCVALL = \<lambda>_ _. True,
     os_now = \<lambda>t. 1000 * int (length t),
     os_FormatMessage = \<lambda>_ _. None,
     os_OpenProcessToken = \<lambda>_. True,
     os_TokenElevation = \<lambda>_. Some True,
     os_getenv = \<lambda>_ _. None\<rparr>"

end
