(* ===== verification/Command_Line.thy ===== *)
theory Command_Line
  imports Config Formatter Platform
begin

text \<open>
  The options of \<open>src/src/main.cpp\<close>: \<open>Options\<close>, \<open>print_usage\<close>, \<open>parse_positive\<close> and
  \<open>parse_options\<close>. The arguments are those after the program name. A parse ends with the new
  options (\<open>Inr\<close>) or with what it wrote and the exit code (\<open>Inl\<close>).
\<close>

section \<open>Options\<close>

record Options =
  opt_threads :: u64
  opt_ssh_user :: string
  opt_password_env :: string
  opt_ssh_password :: string
  opt_password_from_cli :: bool
  opt_json :: bool
  opt_verbose :: bool
  opt_strict_host_key :: bool
  opt_connect_timeout :: milliseconds
  opt_banner_timeout :: milliseconds
  opt_auth_timeout :: milliseconds
  opt_command_timeout :: milliseconds
  opt_layer2_window :: milliseconds
  opt_interface_hint :: string
  opt_select_candidate :: string
  opt_mock_ifconfig_file :: string

definition default_options :: Options where
  "default_options = \<lparr>
     opt_threads = kThreadCount,
     opt_ssh_user = kSshUser,
     opt_password_env = kPasswordEnvVar,
     opt_ssh_password = [],
     opt_password_from_cli = False,
     opt_json = False,
     opt_verbose = False,
     opt_strict_host_key = False,
     opt_connect_timeout = kTcpConnectTimeout,
     opt_banner_timeout = kSshBannerTimeout,
     opt_auth_timeout = kSshAuthTimeout,
     opt_command_timeout = kSshCommandTimeout,
     opt_layer2_window = kLayer2ListenWindow,
     opt_interface_hint = [],
     opt_select_candidate = [],
     opt_mock_ifconfig_file = []\<rparr>"

definition usage_text :: string where
  "usage_text = concat (map put_line
    [''Usage: device-discovery [options]'',
     [],
     ''Discovers the Linux device directly connected to this PC, authenticates'',
     ''over SSH and reports the IPv4 addresses of its network interfaces.'',
     ''Neither a subnet nor a target IP has to be supplied.'',
     [],
     ''Options:'',
     ''  --threads N              Worker threads for probing (default 32)'',
     ''  --ssh-user USER          SSH username (default root)'',
     ''  --ssh-password PASS      SSH password (visible in the process list;'',
     ''                           prefer --ssh-password-env)'',
     ''  --ssh-password-env VAR   Environment variable holding the password'',
     ''                           (default DEVICE_SSH_PASSWORD, used when'',
     ''                           --ssh-password is not given)'',
     ''  --json                   Machine readable output'',
     ''  --verbose                Diagnostic output on stderr'',
     ''  --timeout MS             TCP connect timeout (default 750)'',
     ''  --banner-timeout MS      SSH banner read timeout (default 1000)'',
     ''  --auth-timeout MS        SSH authentication timeout (default 5000)'',
     ''  --command-timeout MS     Remote command timeout (default 5000)'',
     ''  --layer2-window MS       Layer-2 listening window (default 4000)'',
     ''  --interface NAME         Disambiguate between candidate adapters'',
     ''                           (Windows adapter name, e.g. '' @ [CHR 0x22] @ ''Ethernet 2'' @ [CHR 0x22] @ '')'',
     ''  --select IP              Pick a candidate when several SSH devices answer'',
     ''  --strict-host-key        Abort on unknown/mismatching SSH host keys'',
     ''  --mock-ifconfig FILE     Offline mode: parse FILE as ifconfig output'',
     ''  -h, --help               Show this help''])"

section \<open>Numbers\<close>

definition LLONG_MAX :: int where "LLONG_MAX = 2 ^ 63 - 1"
definition LLONG_MIN :: int where "LLONG_MIN = - (2 ^ 63)"

text \<open>
  \<open>std::strtoll(text, &end, 10)\<close>: leading white space, an optional sign, digits; the value is
  saturated. \<open>None\<close>: no conversion, \<open>end == text\<close>; otherwise the value and the text at
  \<open>end\<close>.
\<close>

definition strtoll :: "string \<Rightarrow> (int \<times> string) option" where
  "strtoll text =
     (let s = dropWhile isspace text;
          negative = (s \<noteq> [] \<and> hd s = CHR ''-'');
          digits = (if s \<noteq> [] \<and> (hd s = CHR ''-'' \<or> hd s = CHR ''+'') then tl s else s);
          number = takeWhile isdigit digits
      in if number = [] then None
         else Some (if negative then max LLONG_MIN (- int (dec_val number))
                    else min LLONG_MAX (int (dec_val number)),
                    dropWhile isdigit digits))"

definition parse_positive :: "string \<Rightarrow> int option" where
  "parse_positive text =
     (case strtoll text of
        None \<Rightarrow> None
      | Some (number, rest) \<Rightarrow> if rest \<noteq> [] \<or> number \<le> 0 then None else Some number)"

section \<open>Parsing\<close>

text \<open>
  One pass through the loop: go on with new options, having consumed some of the following
  arguments, or stop with the output written and the exit code.
\<close>

datatype parse_step = Next Options nat | Stop "proc_event list" ExitCode

definition usage_error :: "string \<Rightarrow> parse_step" where
  "usage_error message = Stop [Ev_stderr (put_line (''Error: '' @ message))] kUsageError"

definition next_value :: "string \<Rightarrow> string list \<Rightarrow> (string \<Rightarrow> Options) \<Rightarrow> parse_step" where
  "next_value arg rest target =
     (case rest of
        [] \<Rightarrow> usage_error (arg @ '' requires a value'')
      | text # _ \<Rightarrow> Next (target text) 1)"

definition next_ms :: "string \<Rightarrow> string list \<Rightarrow> (milliseconds \<Rightarrow> Options) \<Rightarrow> parse_step" where
  "next_ms arg rest target =
     (case (case rest of [] \<Rightarrow> None | text # _ \<Rightarrow> parse_positive text) of
        None \<Rightarrow> usage_error (arg @ '' requires a positive millisecond value'')
      | Some number \<Rightarrow> Next (target number) 1)"

definition next_threads :: "string list \<Rightarrow> (u64 \<Rightarrow> Options) \<Rightarrow> parse_step" where
  "next_threads rest target =
     (case (case rest of [] \<Rightarrow> None | text # _ \<Rightarrow> parse_positive text) of
        None \<Rightarrow> usage_error ''--threads requires a value between 1 and 1024''
      | Some number \<Rightarrow>
          if number > 1024 then usage_error ''--threads requires a value between 1 and 1024''
          else Next (target (word_of_int number)) 1)"

definition parse_argument :: "string \<Rightarrow> string list \<Rightarrow> Options \<Rightarrow> parse_step" where
  "parse_argument arg rest options =
     (if arg = ''-h'' \<or> arg = ''--help'' then Stop [Ev_stdout usage_text] kSuccess
      else if arg = ''--json'' then Next (options\<lparr>opt_json := True\<rparr>) 0
      else if arg = ''--verbose'' then Next (options\<lparr>opt_verbose := True\<rparr>) 0
      else if arg = ''--strict-host-key'' then Next (options\<lparr>opt_strict_host_key := True\<rparr>) 0
      else if arg = ''--threads'' then next_threads rest (\<lambda>n. options\<lparr>opt_threads := n\<rparr>)
      else if arg = ''--ssh-user'' then next_value arg rest (\<lambda>v. options\<lparr>opt_ssh_user := v\<rparr>)
      else if arg = ''--ssh-password''
      then next_value arg rest (\<lambda>v. options\<lparr>opt_ssh_password := v, opt_password_from_cli := True\<rparr>)
      else if arg = ''--ssh-password-env'' then next_value arg rest (\<lambda>v. options\<lparr>opt_password_env := v\<rparr>)
      else if arg = ''--interface'' then next_value arg rest (\<lambda>v. options\<lparr>opt_interface_hint := v\<rparr>)
      else if arg = ''--select'' then next_value arg rest (\<lambda>v. options\<lparr>opt_select_candidate := v\<rparr>)
      else if arg = ''--mock-ifconfig'' then next_value arg rest (\<lambda>v. options\<lparr>opt_mock_ifconfig_file := v\<rparr>)
      else if arg = ''--timeout'' then next_ms arg rest (\<lambda>n. options\<lparr>opt_connect_timeout := n\<rparr>)
      else if arg = ''--banner-timeout'' then next_ms arg rest (\<lambda>n. options\<lparr>opt_banner_timeout := n\<rparr>)
      else if arg = ''--auth-timeout'' then next_ms arg rest (\<lambda>n. options\<lparr>opt_auth_timeout := n\<rparr>)
      else if arg = ''--command-timeout'' then next_ms arg rest (\<lambda>n. options\<lparr>opt_command_timeout := n\<rparr>)
      else if arg = ''--layer2-window'' then next_ms arg rest (\<lambda>n. options\<lparr>opt_layer2_window := n\<rparr>)
      else Stop [Ev_stderr (put_line (''Error: unknown argument '' @ CHR 0x27 # arg @ [CHR 0x27])),
                 Ev_stdout usage_text] kUsageError)"

function parse_options :: "string list \<Rightarrow> Options \<Rightarrow> proc_event list \<times> ExitCode + Options" where
  "parse_options [] options = Inr options"
| "parse_options (arg # rest) options =
     (case parse_argument arg rest options of
        Stop output exit_code \<Rightarrow> Inl (output, exit_code)
      | Next options' consumed \<Rightarrow> parse_options (drop consumed rest) options')"
  by pat_completeness auto

termination
  by (relation "measure (\<lambda>(args, options). length args)") auto

section \<open>Lemmas\<close>

lemma strtoll_digits:
  assumes "list_all isspace ws" and "sign \<in> {[], ''+''}" and "list_all isdigit ds" "ds \<noteq> []"
  shows "strtoll (ws @ sign @ ds) = Some (min LLONG_MAX (int (dec_val ds)), [])"
proof -
  obtain d ds' where ds: "ds = d # ds'" using assms(4) by (cases ds) auto
  have d: "isdigit d" "\<not> isspace d" "d \<noteq> CHR ''-''" "d \<noteq> CHR ''+''"
    using assms(3) ds by (auto simp: isdigit_def isspace_def)
  obtain c r where c: "sign @ ds = c # r" "\<not> isspace c"
    using assms(2) d(2) ds by (auto simp: isspace_def)
  have drop: "dropWhile isspace (ws @ sign @ ds) = sign @ ds"
    unfolding c(1) by (rule dropWhile_append_stop) (use assms(1) c(2) in \<open>auto simp: list_all_iff\<close>)
  have take: "takeWhile isdigit ds = ds" "dropWhile isdigit ds = []"
    using assms(3) by (auto simp: list_all_iff takeWhile_all dropWhile_all)
  show ?thesis
    using assms(2) d ds take unfolding strtoll_def drop by (auto simp: Let_def takeWhile_all)
qed

lemma isdigit_sign: "isdigit c \<Longrightarrow> c \<noteq> CHR ''-'' \<and> c \<noteq> CHR ''+''"
  by (auto simp: isdigit_def)

text \<open>A number argument is accepted exactly when it is a positive decimal number, with optional leading
white space and plus sign and nothing after it; its value is saturated at the largest 64-bit value.\<close>

theorem parse_positive_exact:
  "parse_positive text = Some n \<longleftrightarrow>
     (\<exists>ws sign ds. text = ws @ sign @ ds \<and> list_all isspace ws \<and> sign \<in> {[], ''+''} \<and> list_all isdigit ds
        \<and> 0 < dec_val ds \<and> n = min LLONG_MAX (int (dec_val ds)))"
proof
  assume some: "parse_positive text = Some n"
  define s where "s = dropWhile isspace text"
  define negative where "negative = (s \<noteq> [] \<and> hd s = CHR ''-'')"
  define sign where "sign = (if s \<noteq> [] \<and> (hd s = CHR ''-'' \<or> hd s = CHR ''+'') then [hd s] else [])"
  define digits where "digits = (if s \<noteq> [] \<and> (hd s = CHR ''-'' \<or> hd s = CHR ''+'') then tl s else s)"
  have ne: "takeWhile isdigit digits \<noteq> []" and rest: "dropWhile isdigit digits = []"
    and n: "n = (if negative then max LLONG_MIN (- int (dec_val (takeWhile isdigit digits)))
                 else min LLONG_MAX (int (dec_val (takeWhile isdigit digits))))" and pos: "0 < n"
    using some unfolding parse_positive_def strtoll_def Let_def s_def [symmetric] negative_def [symmetric]
      digits_def [symmetric] by (auto split: if_splits)
  have ds: "list_all isdigit digits" "takeWhile isdigit digits = digits"
    using rest by (auto simp: dropWhile_eq_Nil_conv list_all_iff takeWhile_eq_all_conv)
  have "\<not> negative"
  proof
    assume negative
    with n pos show False by (simp add: LLONG_MIN_def max_def split: if_splits)
  qed
  then have "sign \<in> {[], ''+''}" by (auto simp: sign_def negative_def)
  moreover have "text = takeWhile isspace text @ sign @ digits"
  proof -
    have "s = sign @ digits" by (cases s) (auto simp: sign_def digits_def)
    then show ?thesis by (metis s_def takeWhile_dropWhile_id)
  qed
  moreover have "n = min LLONG_MAX (int (dec_val digits))" using n ds(2) \<open>\<not> negative\<close> by simp
  moreover have "list_all isspace (takeWhile isspace text)"
    by (auto simp: list_all_iff dest: set_takeWhileD)
  ultimately show "\<exists>ws sign ds. text = ws @ sign @ ds \<and> list_all isspace ws \<and> sign \<in> {[], ''+''} \<and> list_all isdigit ds
        \<and> 0 < dec_val ds \<and> n = min LLONG_MAX (int (dec_val ds))"
    using ds(1) pos by (intro exI [of _ "takeWhile isspace text"] exI [of _ sign] exI [of _ digits]) auto
next
  assume "\<exists>ws sign ds. text = ws @ sign @ ds \<and> list_all isspace ws \<and> sign \<in> {[], ''+''} \<and> list_all isdigit ds
        \<and> 0 < dec_val ds \<and> n = min LLONG_MAX (int (dec_val ds))"
  then obtain ws sign ds where parts: "text = ws @ sign @ ds" "list_all isspace ws" "sign \<in> {[], ''+''}"
    "list_all isdigit ds" "0 < dec_val ds" and n: "n = min LLONG_MAX (int (dec_val ds))" by blast
  have "ds \<noteq> []" using parts(5) by (auto simp: dec_val_def)
  from strtoll_digits [OF parts(2-4) this] parts(5) n show "parse_positive text = Some n"
    unfolding parts(1) parse_positive_def by (auto simp: LLONG_MAX_def)
qed

definition options_in_range :: "Options \<Rightarrow> bool" where
  "options_in_range options \<longleftrightarrow> 1 \<le> unat (opt_threads options) \<and> unat (opt_threads options) \<le> 1024
     \<and> list_all (\<lambda>ms. 0 < ms \<and> ms \<le> LLONG_MAX)
         [opt_connect_timeout options, opt_banner_timeout options, opt_auth_timeout options,
          opt_command_timeout options, opt_layer2_window options]
     \<and> (opt_password_from_cli options \<or> opt_ssh_password options = [])"

lemma parse_positive_range: "parse_positive text = Some n \<Longrightarrow> 0 < n \<and> n \<le> LLONG_MAX"
proof -
  assume some: "parse_positive text = Some n"
  then obtain number rest where st: "strtoll text = Some (number, rest)"
    by (cases "strtoll text") (auto simp: parse_positive_def)
  with some have "0 < number" "n = number" by (auto simp: parse_positive_def split: if_splits)
  moreover from st obtain d where
    "number = max LLONG_MIN (- int d) \<or> number = min LLONG_MAX (int d)"
    by (auto simp: strtoll_def Let_def split: if_splits)
  ultimately show ?thesis by (auto simp: LLONG_MIN_def)
qed

lemma threads_word: "0 < n \<Longrightarrow> n \<le> 1024 \<Longrightarrow> unat (word_of_int n :: u64) = nat n"
  by (simp add: unat_eq_nat_uint uint_word_of_int_eq take_bit_int_eq_self)

text \<open>What holds of the two outcomes of a pass.\<close>

definition step_all :: "(Options \<Rightarrow> bool) \<Rightarrow> (proc_event list \<times> ExitCode \<Rightarrow> bool) \<Rightarrow> parse_step \<Rightarrow> bool" where
  "step_all P R step = (case step of Next options consumed \<Rightarrow> P options | Stop out ec \<Rightarrow> R (out, ec))"

lemma step_all_if:
  "(b \<Longrightarrow> step_all P R x) \<Longrightarrow> (\<not> b \<Longrightarrow> step_all P R y) \<Longrightarrow> step_all P R (if b then x else y)"
  by simp

lemma step_all_Next: "P options \<Longrightarrow> step_all P R (Next options consumed)"
  by (simp add: step_all_def)

lemma step_all_Stop: "R (out, ec) \<Longrightarrow> step_all P R (Stop out ec)"
  by (simp add: step_all_def)

definition rejection :: "proc_event list \<times> ExitCode \<Rightarrow> bool" where
  "rejection r \<longleftrightarrow> (\<exists>message. fst r \<in> {[Ev_stderr message], [Ev_stderr message, Ev_stdout usage_text]})
     \<and> snd r = kUsageError"

definition stopped :: "string \<Rightarrow> proc_event list \<times> ExitCode \<Rightarrow> bool" where
  "stopped arg r \<longleftrightarrow> r = ([Ev_stdout usage_text], kSuccess) \<and> arg \<in> {''-h'', ''--help''} \<or> rejection r"

lemma stopped_error: "step_all P (stopped arg) (usage_error message)"
  by (simp add: step_all_def usage_error_def stopped_def rejection_def)

lemma step_all_value: "(\<And>v. P (target v)) \<Longrightarrow> step_all P (stopped arg) (next_value arg' rest target)"
  using stopped_error by (auto simp: next_value_def step_all_Next split: list.split)

lemma step_all_ms:
  "(\<And>n. 0 < n \<Longrightarrow> n \<le> LLONG_MAX \<Longrightarrow> P (target n)) \<Longrightarrow> step_all P (stopped arg) (next_ms arg' rest target)"
  using stopped_error
  by (auto simp: next_ms_def step_all_Next dest: parse_positive_range split: list.split option.split)

lemma step_all_threads:
  "(\<And>n. 1 \<le> unat n \<Longrightarrow> unat n \<le> 1024 \<Longrightarrow> P (target n)) \<Longrightarrow> step_all P (stopped arg) (next_threads rest target)"
  using stopped_error
  by (auto simp: next_threads_def step_all_Next threads_word dest!: parse_positive_range intro!: step_all_Next
      split: list.split option.split)

lemmas step_all_intros = step_all_if step_all_Next step_all_value step_all_ms step_all_threads

lemma parse_argument_all:
  "options_in_range options \<Longrightarrow> step_all options_in_range (stopped arg) (parse_argument arg rest options)"
  unfolding parse_argument_def
  by (intro step_all_intros step_all_Stop) (simp_all add: options_in_range_def stopped_def rejection_def)

lemma parse_argument_range:
  "parse_argument arg rest options = Next options' consumed \<Longrightarrow> options_in_range options \<Longrightarrow> options_in_range options'"
  using parse_argument_all [of options arg rest] by (simp add: step_all_def)

lemma parse_argument_stop:
  "parse_argument arg rest options = Stop out ec \<Longrightarrow> stopped arg (out, ec)"
proof -
  have "step_all (\<lambda>_. True) (stopped arg) (parse_argument arg rest options)"
    unfolding parse_argument_def
    by (intro step_all_intros step_all_Stop) (simp_all add: stopped_def rejection_def)
  then show "parse_argument arg rest options = Stop out ec \<Longrightarrow> stopped arg (out, ec)" by (simp add: step_all_def)
qed

lemma parse_options_range:
  "parse_options args options = Inr options' \<Longrightarrow> options_in_range options \<Longrightarrow> options_in_range options'"
  by (induction args options rule: parse_options.induct)
    (auto split: parse_step.splits dest: parse_argument_range)

lemma default_options_range: "options_in_range default_options"
  by (simp add: options_in_range_def default_options_def kThreadCount_def kTcpConnectTimeout_def
      kSshBannerTimeout_def kSshAuthTimeout_def kSshCommandTimeout_def kLayer2ListenWindow_def LLONG_MAX_def)

text \<open>C29: Options that come out of a command line have between 1 and 1024 threads and positive timeouts that
fit 64 bits, and a password only when it came from the command line.\<close>

theorem parsed_options_in_range:
  assumes "parse_options args default_options = Inr options"
  shows "options_in_range options"
  using parse_options_range [OF assms default_options_range] .

text \<open>A command line that does not yield options either asked for help, which prints the usage and exits
with 0, or is rejected with a message on the error stream and exit code 2.\<close>

theorem command_line_rejections:
  assumes "parse_options args options = Inl (out, ec)"
  shows "out = [Ev_stdout usage_text] \<and> ec = kSuccess \<and> (''-h'' \<in> set args \<or> ''--help'' \<in> set args)
    \<or> (\<exists>message. out \<in> {[Ev_stderr message], [Ev_stderr message, Ev_stdout usage_text]}) \<and> ec = kUsageError"
  using assms
proof (induction args options rule: parse_options.induct)
  case (2 arg rest options)
  show ?case
  proof (cases "parse_argument arg rest options")
    case (Next options' consumed)
    with "2.prems" have "parse_options (drop consumed rest) options' = Inl (out, ec)" by simp
    from "2.IH" [OF Next this] show ?thesis by (auto dest: in_set_dropD)
  next
    case (Stop out' ec')
    with "2.prems" parse_argument_stop [OF Stop] show ?thesis by (auto simp: stopped_def rejection_def)
  qed
qed simp

section \<open>Command lines for given options\<close>

definition switch :: "string \<Rightarrow> bool \<Rightarrow> string list" where
  "switch name on = (if on then [name] else [])"

definition arguments_of :: "Options \<Rightarrow> string list" where
  "arguments_of options =
     [''--threads'', dec_of_nat (unat (opt_threads options)), ''--ssh-user'', opt_ssh_user options,
      ''--ssh-password-env'', opt_password_env options]
     @ (if opt_password_from_cli options then [''--ssh-password'', opt_ssh_password options] else [])
     @ switch ''--json'' (opt_json options) @ switch ''--verbose'' (opt_verbose options)
     @ switch ''--strict-host-key'' (opt_strict_host_key options)
     @ [''--timeout'', dec_of_int (opt_connect_timeout options),
        ''--banner-timeout'', dec_of_int (opt_banner_timeout options),
        ''--auth-timeout'', dec_of_int (opt_auth_timeout options),
        ''--command-timeout'', dec_of_int (opt_command_timeout options),
        ''--layer2-window'', dec_of_int (opt_layer2_window options),
        ''--interface'', opt_interface_hint options, ''--select'', opt_select_candidate options,
        ''--mock-ifconfig'', opt_mock_ifconfig_file options]"

lemma parse_positive_dec:
  assumes "0 < n" "int n \<le> LLONG_MAX"
  shows "parse_positive (dec_of_nat n) = Some (int n)"
proof -
  have "list_all isdigit (dec_of_nat n)" by (simp add: list_all_iff dec_of_nat_digits)
  then have "strtoll ([] @ [] @ dec_of_nat n) = Some (min LLONG_MAX (int (dec_val (dec_of_nat n))), [])"
    by (intro strtoll_digits) simp_all
  then show ?thesis using assms by (simp add: parse_positive_def dec_val_dec_of_nat)
qed

lemma parse_positive_dec_int: "0 < n \<Longrightarrow> n \<le> LLONG_MAX \<Longrightarrow> parse_positive (dec_of_int n) = Some n"
  using parse_positive_dec [of "nat n"] by (simp add: dec_of_int_def)

lemma parse_threads:
  "1 \<le> unat n \<Longrightarrow> unat n \<le> 1024 \<Longrightarrow> parse_options (''--threads'' # dec_of_nat (unat n) # rest) options
     = parse_options rest (options\<lparr>opt_threads := n\<rparr>)"
proof -
  assume n: "1 \<le> unat n" "unat n \<le> 1024"
  have le: "int (unat n) \<le> 1024" using n(2) by linarith
  also have "(1024 :: int) \<le> LLONG_MAX" by (simp add: LLONG_MAX_def)
  finally have "parse_positive (dec_of_nat (unat n)) = Some (int (unat n))"
    using n(1) by (intro parse_positive_dec) linarith+
  with le show ?thesis by (simp add: parse_argument_def next_threads_def)
qed

lemma parse_switch:
  "parse_options (switch ''--json'' b @ rest) options = parse_options rest (if b then options\<lparr>opt_json := True\<rparr> else options)"
  "parse_options (switch ''--verbose'' b @ rest) options = parse_options rest (if b then options\<lparr>opt_verbose := True\<rparr> else options)"
  "parse_options (switch ''--strict-host-key'' b @ rest) options =
     parse_options rest (if b then options\<lparr>opt_strict_host_key := True\<rparr> else options)"
  by (simp_all add: switch_def parse_argument_def)

lemma parse_value:
  "parse_options (''--ssh-user'' # v # rest) options = parse_options rest (options\<lparr>opt_ssh_user := v\<rparr>)"
  "parse_options (''--ssh-password-env'' # v # rest) options = parse_options rest (options\<lparr>opt_password_env := v\<rparr>)"
  "parse_options (''--ssh-password'' # v # rest) options =
     parse_options rest (options\<lparr>opt_ssh_password := v, opt_password_from_cli := True\<rparr>)"
  "parse_options (''--interface'' # v # rest) options = parse_options rest (options\<lparr>opt_interface_hint := v\<rparr>)"
  "parse_options (''--select'' # v # rest) options = parse_options rest (options\<lparr>opt_select_candidate := v\<rparr>)"
  "parse_options (''--mock-ifconfig'' # v # rest) options = parse_options rest (options\<lparr>opt_mock_ifconfig_file := v\<rparr>)"
  by (simp_all add: parse_argument_def next_value_def)

lemma parse_ms:
  assumes "0 < n" "n \<le> LLONG_MAX"
  shows "parse_options (''--timeout'' # dec_of_int n # rest) options = parse_options rest (options\<lparr>opt_connect_timeout := n\<rparr>)"
    "parse_options (''--banner-timeout'' # dec_of_int n # rest) options = parse_options rest (options\<lparr>opt_banner_timeout := n\<rparr>)"
    "parse_options (''--auth-timeout'' # dec_of_int n # rest) options = parse_options rest (options\<lparr>opt_auth_timeout := n\<rparr>)"
    "parse_options (''--command-timeout'' # dec_of_int n # rest) options = parse_options rest (options\<lparr>opt_command_timeout := n\<rparr>)"
    "parse_options (''--layer2-window'' # dec_of_int n # rest) options = parse_options rest (options\<lparr>opt_layer2_window := n\<rparr>)"
  using assms by (simp_all add: parse_argument_def next_ms_def parse_positive_dec_int)

text \<open>C28: Every configuration in range can be asked for: the command line that names each option is parsed
back to exactly these options, whatever the texts of its values, option names included.\<close>

theorem command_line_roundtrip:
  assumes "options_in_range options"
  shows "parse_options (arguments_of options) default_options = Inr options"
proof -
  have r: "1 \<le> unat (opt_threads options)" "unat (opt_threads options) \<le> 1024"
    and ms: "0 < opt_connect_timeout options" "opt_connect_timeout options \<le> LLONG_MAX"
      "0 < opt_banner_timeout options" "opt_banner_timeout options \<le> LLONG_MAX"
      "0 < opt_auth_timeout options" "opt_auth_timeout options \<le> LLONG_MAX"
      "0 < opt_command_timeout options" "opt_command_timeout options \<le> LLONG_MAX"
      "0 < opt_layer2_window options" "opt_layer2_window options \<le> LLONG_MAX"
    and pw: "opt_password_from_cli options \<or> opt_ssh_password options = []"
    using assms by (simp_all add: options_in_range_def)
  have cli: "parse_options ((if opt_password_from_cli options then [''--ssh-password'', opt_ssh_password options] else []) @ rest) o'
    = parse_options rest (if opt_password_from_cli options
        then o'\<lparr>opt_ssh_password := opt_ssh_password options, opt_password_from_cli := True\<rparr> else o')" for rest o'
    by (simp add: parse_value del: parse_options.simps)
  show ?thesis
    unfolding arguments_of_def append_Cons append_Nil parse_threads [OF r] parse_value cli parse_switch
      parse_ms [OF ms(1,2)] parse_ms [OF ms(3,4)] parse_ms [OF ms(5,6)] parse_ms [OF ms(7,8)] parse_ms [OF ms(9,10)]
      parse_options.simps(1)
    using pw by (auto simp: default_options_def)
qed

section \<open>Witnesses\<close>

definition sample_arguments :: "string list" where
  "sample_arguments = [''--threads'', '' +8'', ''--json'', ''--timeout'', ''2147483648'']"

theorem parsed_options_in_range_witness:
  "\<exists>options. parse_options sample_arguments default_options = Inr options \<and> unat (opt_threads options) \<le> 1024
     \<and> opt_connect_timeout options = 2147483648"
proof -
  define options where "options = default_options\<lparr>opt_threads := 8, opt_json := True, opt_connect_timeout := 2147483648\<rparr>"
  have p: "parse_options sample_arguments default_options = Inr options" 
  proof -
    have "parse_positive '' +8'' = Some 8" "parse_positive ''2147483648'' = Some 2147483648"
      by (simp_all add: parse_positive_def strtoll_def dec_val_def isdigit_def isspace_def LLONG_MAX_def)
    then show ?thesis
      by (simp add: options_def sample_arguments_def parse_argument_def next_threads_def next_ms_def)
  qed
  from parsed_options_in_range [OF this] p show ?thesis
    by (auto simp: options_in_range_def options_def)
qed

theorem command_line_rejections_witness:
  "\<exists>out. parse_options [''--timeout'', ''0''] default_options = Inl (out, kUsageError) \<and> out \<noteq> []"
proof -
  obtain out ec where r: "parse_options [''--timeout'', ''0''] default_options = Inl (out, ec)" "ec = kUsageError"
  proof -
    have "parse_options [''--timeout'', ''0''] default_options
      = Inl ([Ev_stderr (put_line ''Error: --timeout requires a positive millisecond value'')], kUsageError)" by code_simp
    then show thesis by (rule that) simp
  qed
  from command_line_rejections [OF r(1)] r show ?thesis by auto
qed

theorem command_line_roundtrip_witness:
  "parse_options (arguments_of (default_options\<lparr>opt_verbose := True, opt_select_candidate := ''--help''\<rparr>)) default_options
     = Inr (default_options\<lparr>opt_verbose := True, opt_select_candidate := ''--help''\<rparr>)"
  by (rule command_line_roundtrip) (simp add: options_in_range_def default_options_def kThreadCount_def kTcpConnectTimeout_def
      kSshBannerTimeout_def kSshAuthTimeout_def kSshCommandTimeout_def kLayer2ListenWindow_def LLONG_MAX_def)

end
