(* ===== verification/Interface_Discovery.thy ===== *)
theory Interface_Discovery
  imports Platform
begin

text \<open>
  \<open>src/src/network/interface_discovery.cpp\<close> and its header: reading the adapters of the
  machine, the selection rules and the subnet arithmetic of an interface. Adapter lists,
  the wide-character conversion and address formatting come from the system and are
  parameters; adapter kinds and states are enumerations of the cases the code tells apart.
\<close>

section \<open>Data\<close>

record NetworkInterface =
  ni_name :: string
  ni_ipv4 :: string
  ni_netmask :: string
  ni_address :: u32
  ni_mask :: u32
  ni_is_loopback :: bool
  ni_is_up :: bool
  ni_is_running :: bool
  ni_is_point_to_point :: bool
  ni_if_index :: u32
  ni_mac :: string
  ni_description :: string

record InterfaceSnapshot =
  snap_name :: string
  snap_ipv4 :: string
  snap_netmask :: string
  snap_is_loopback :: bool
  snap_is_up :: bool
  snap_is_running :: bool
  snap_is_point_to_point :: bool
  snap_has_ipv4 :: bool
  snap_if_index :: u32
  snap_mac :: string
  snap_description :: string

section \<open>Subnet arithmetic\<close>

definition network :: "NetworkInterface \<Rightarrow> u32" where
  "network iface = ni_address iface AND ni_mask iface"

definition broadcast :: "NetworkInterface \<Rightarrow> u32" where
  "broadcast iface = network iface OR NOT (ni_mask iface)"

text \<open>The loop \<open>for (int i = 31; i >= 0; --i)\<close>; the argument is \<open>i + 1\<close>.\<close>

fun prefix_loop :: "u32 \<Rightarrow> nat \<Rightarrow> nat \<Rightarrow> nat" where
  "prefix_loop m 0 bits = bits"
| "prefix_loop m (Suc i) bits =
     (if drop_bit i m AND 1 \<noteq> 0 then prefix_loop m i (Suc bits) else bits)"

definition prefix_length :: "NetworkInterface \<Rightarrow> nat" where
  "prefix_length iface = prefix_loop (ni_mask iface) 32 0"

definition usable_host_count :: "NetworkInterface \<Rightarrow> u64" where
  "usable_host_count iface =
     (let prefix = prefix_length iface
      in if prefix \<ge> 31 then (if prefix = 32 then 1 else 2)
         else push_bit (32 - prefix) 1 - 2)"

section \<open>Virtual adapters\<close>

definition to_lower :: "string \<Rightarrow> string" where
  "to_lower value = map tolower value"

definition kVirtualMarkers :: "string list" where
  "kVirtualMarkers =
    [''vethernet'', ''hyper-v'', ''vmware'', ''vmnet'', ''virtualbox'', ''vbox'',
     ''loopback'', ''openvpn'', ''tap-windows'', ''wintun'', ''wireguard'', ''zerotier'',
     ''tailscale'', ''bluetooth'', ''wan miniport'', ''teredo'', ''isatap'', ''npcap'',
     ''pseudo-interface'', ''docker'', ''veth'', ''br-'', ''virbr'', ''tun'',
     ''tap'', ''vpn'', ''vswitch'', ''vlan'', ''tunnel'']"

definition is_virtual_interface_name :: "string \<Rightarrow> bool" where
  "is_virtual_interface_name name =
     (let lowered = to_lower name in list_ex (\<lambda>marker. contains marker lowered) kVirtualMarkers)"

section \<open>Text of addresses\<close>

text \<open>\<open>inet_ntop\<close> into a buffer; a failing call yields the empty string.\<close>

definition ntop_text :: "inet_api \<Rightarrow> u32 \<Rightarrow> string" where
  "ntop_text api s_addr = (case inet_ntop api s_addr of None \<Rightarrow> [] | Some s \<Rightarrow> s)"

definition netmask_from_prefix :: "inet_api \<Rightarrow> u8 \<Rightarrow> string" where
  "netmask_from_prefix api plen =
     (if plen > 32 then []
      else let m = (if plen = 0 then 0
                       else push_bit (32 - unat plen) 0xFFFFFFFF AND 0xFFFFFFFF)
           in ntop_text api (htonl api m))"

definition parse_ipv4 :: "inet_api \<Rightarrow> string \<Rightarrow> u32 option" where
  "parse_ipv4 api text =
     (if text = [] then None
      else case inet_pton api (c_str text) of
             None \<Rightarrow> None
           | Some s_addr \<Rightarrow> Some (ntohl api s_addr))"

fun format_mac_bytes :: "u8 list \<Rightarrow> string" where
  "format_mac_bytes [] = []"
| "format_mac_bytes [b] = hex2 b"
| "format_mac_bytes (b # bs) = hex2 b @ CHR '':'' # format_mac_bytes bs"

text \<open>\<open>None\<close> is a null address pointer.\<close>

definition format_mac :: "u8 list option \<Rightarrow> string" where
  "format_mac address = (case address of None \<Rightarrow> [] | Some bytes \<Rightarrow> format_mac_bytes bytes)"

section \<open>Enumeration\<close>

datatype if_type = IF_TYPE_SOFTWARE_LOOPBACK | IF_TYPE_PPP | IF_TYPE_TUNNEL | IF_TYPE_OTHER
datatype oper_status = IfOperStatusUp | IfOperStatusOther

text \<open>A socket address: its family is \<open>AF_INET\<close> (with the address) or another one.\<close>

datatype sockaddr = Sockaddr_in u32 | Sockaddr_other

record unicast_address =
  lpSockaddr :: "sockaddr option"
  OnLinkPrefixLength :: u8

record adapter =
  AdapterName :: "string option"
  FriendlyName :: "u16 list option"
  Description :: "u16 list option"
  IfIndex :: u32
  PhysicalAddress :: "u8 list option"
  IfType :: if_type
  OperStatus :: oper_status
  UnicastAddresses :: "unicast_address list"

text \<open>
  \<open>WideCharToMultiByte\<close>: the buffer size of the sizing call (with the terminating NUL) and
  the bytes the second call writes.
\<close>

type_synonym wide_conversion = "u16 list \<Rightarrow> int \<times> string"

definition wide_to_utf8 :: "wide_conversion \<Rightarrow> u16 list option \<Rightarrow> string" where
  "wide_to_utf8 conv text =
     (case text of
        None \<Rightarrow> []
      | Some wide \<Rightarrow>
          if wide = [] then []
          else case conv wide of (required, bytes) \<Rightarrow> if required \<le> 1 then [] else bytes)"

definition to_dotted_sockaddr :: "inet_api \<Rightarrow> sockaddr option \<Rightarrow> string" where
  "to_dotted_sockaddr api addr =
     (case addr of
        Some (Sockaddr_in s_addr) \<Rightarrow> ntop_text api s_addr
      | _ \<Rightarrow> [])"

text \<open>The inner loop: the first usable IPv4 unicast address fills the snapshot.\<close>

fun scan_unicast ::
  "inet_api \<Rightarrow> unicast_address list \<Rightarrow> InterfaceSnapshot \<Rightarrow> InterfaceSnapshot" where
  "scan_unicast api [] snapshot = snapshot"
| "scan_unicast api (unicast # rest) snapshot =
     (case lpSockaddr unicast of
        Some (Sockaddr_in s_addr) \<Rightarrow>
          (let ipv4 = to_dotted_sockaddr api (lpSockaddr unicast)
           in if ipv4 = [] \<or> ipv4 = ''0.0.0.0'' then scan_unicast api rest snapshot
              else let netmask = netmask_from_prefix api (OnLinkPrefixLength unicast)
                   in snapshot\<lparr>snap_ipv4 := ipv4, snap_netmask := netmask,
                        snap_has_ipv4 := netmask \<noteq> []\<rparr>)
      | _ \<Rightarrow> scan_unicast api rest snapshot)"

definition snapshot_of_adapter ::
  "inet_api \<Rightarrow> wide_conversion \<Rightarrow> adapter \<Rightarrow> InterfaceSnapshot" where
  "snapshot_of_adapter api conv ad =
     (let friendly = wide_to_utf8 conv (FriendlyName ad);
          name = (if friendly = []
                  then (case AdapterName ad of None \<Rightarrow> [] | Some n \<Rightarrow> n) else friendly);
          up = (OperStatus ad = IfOperStatusUp)
      in scan_unicast api (UnicastAddresses ad)
           \<lparr>snap_name = name, snap_ipv4 = [], snap_netmask = [],
            snap_is_loopback = (IfType ad = IF_TYPE_SOFTWARE_LOOPBACK),
            snap_is_up = up, snap_is_running = up,
            snap_is_point_to_point = (IfType ad = IF_TYPE_PPP \<or> IfType ad = IF_TYPE_TUNNEL),
            snap_has_ipv4 = False, snap_if_index = IfIndex ad,
            snap_mac = format_mac (PhysicalAddress ad),
            snap_description = wide_to_utf8 conv (Description ad)\<rparr>)"

text \<open>
  \<open>query_adapter_addresses\<close>: at most four calls of \<open>GetAdaptersAddresses\<close>, each with the
  size the previous one asked for. The system's answer to a call with a given buffer size is
  a parameter; the two \<open>throw\<close> statements are the \<open>Inl\<close> results.
\<close>

datatype adapters_answer =
    Adapters_success "adapter list"
  | Adapters_overflow u32
  | Adapters_failed int

datatype query_error = Query_failed int | Query_kept_overflowing

fun query_attempts ::
  "(nat \<Rightarrow> u32 \<Rightarrow> adapters_answer) \<Rightarrow> nat \<Rightarrow> nat \<Rightarrow> u32 \<Rightarrow> query_error + adapter list" where
  "query_attempts get attempt 0 bufsize = Inl Query_kept_overflowing"
| "query_attempts get attempt (Suc remaining) bufsize =
     (case get attempt bufsize of
        Adapters_success adapters \<Rightarrow> Inr adapters
      | Adapters_failed rc \<Rightarrow> Inl (Query_failed rc)
      | Adapters_overflow bufsize' \<Rightarrow> query_attempts get (Suc attempt) remaining bufsize')"

definition query_adapter_addresses ::
  "(nat \<Rightarrow> u32 \<Rightarrow> adapters_answer) \<Rightarrow> query_error + adapter list" where
  "query_adapter_addresses get = query_attempts get 0 4 (16 * 1024)"

definition enumerate_interfaces ::
  "inet_api \<Rightarrow> wide_conversion \<Rightarrow> (nat \<Rightarrow> u32 \<Rightarrow> adapters_answer)
     \<Rightarrow> query_error + InterfaceSnapshot list" where
  "enumerate_interfaces api conv get =
     (case query_adapter_addresses get of
        Inl e \<Rightarrow> Inl e
      | Inr adapters \<Rightarrow> Inr (map (snapshot_of_adapter api conv) adapters))"

section \<open>Selection\<close>

text \<open>The body of the selection loop: \<open>None\<close> where the code says \<open>continue\<close>.\<close>

definition candidate_of_snapshot :: "inet_api \<Rightarrow> InterfaceSnapshot \<Rightarrow> NetworkInterface option" where
  "candidate_of_snapshot api snapshot =
     (if snap_is_loopback snapshot \<or> \<not> snap_is_up snapshot \<or> \<not> snap_is_running snapshot
      then None
      else if \<not> snap_has_ipv4 snapshot then None
      else if is_virtual_interface_name (snap_name snapshot)
              \<or> is_virtual_interface_name (snap_description snapshot) then None
      else case parse_ipv4 api (snap_ipv4 snapshot) of
             None \<Rightarrow> None
           | Some address \<Rightarrow>
               (case parse_ipv4 api (snap_netmask snapshot) of
                  None \<Rightarrow> None
                | Some m \<Rightarrow>
                    Some \<lparr>ni_name = snap_name snapshot, ni_ipv4 = snap_ipv4 snapshot,
                          ni_netmask = snap_netmask snapshot,
                          ni_address = address, ni_mask = m,
                          ni_is_loopback = snap_is_loopback snapshot,
                          ni_is_up = snap_is_up snapshot,
                          ni_is_running = snap_is_running snapshot,
                          ni_is_point_to_point = snap_is_point_to_point snapshot,
                          ni_if_index = snap_if_index snapshot, ni_mac = snap_mac snapshot,
                          ni_description = snap_description snapshot\<rparr>))"

fun filter_candidate_interfaces ::
  "inet_api \<Rightarrow> InterfaceSnapshot list \<Rightarrow> NetworkInterface list" where
  "filter_candidate_interfaces api [] = []"
| "filter_candidate_interfaces api (snapshot # rest) =
     (case candidate_of_snapshot api snapshot of
        None \<Rightarrow> filter_candidate_interfaces api rest
      | Some iface \<Rightarrow> iface # filter_candidate_interfaces api rest)"

definition discover_candidate_interfaces ::
  "inet_api \<Rightarrow> wide_conversion \<Rightarrow> (nat \<Rightarrow> u32 \<Rightarrow> adapters_answer)
     \<Rightarrow> query_error + NetworkInterface list" where
  "discover_candidate_interfaces api conv get =
     (case enumerate_interfaces api conv get of
        Inl e \<Rightarrow> Inl e
      | Inr snapshots \<Rightarrow> Inr (filter_candidate_interfaces api snapshots))"

section \<open>Masks and subnets\<close>

text \<open>The netmask whose first \<open>p\<close> bits are set.\<close>

definition contiguous_mask :: "nat \<Rightarrow> u32" where
  "contiguous_mask p = push_bit (32 - p) (- 1)"

lemma bit_contiguous_mask: "bit (contiguous_mask p) i \<longleftrightarrow> i < 32 \<and> 32 - p \<le> i"
  by (auto simp: contiguous_mask_def bit_push_bit_iff bit_not_iff bit_mask_iff
      simp flip: push_bit_minus_one_eq_not_mask)

lemma and_one_iff_bit: "(drop_bit i m AND 1 \<noteq> (0 :: u32)) \<longleftrightarrow> bit m i"
  by (simp add: bit_iff_odd_drop_bit and_one_eq odd_iff_mod_2_eq_one)

lemma prefix_loop_spec:
  "\<exists>k \<le> i. prefix_loop m i b = b + k \<and> (\<forall>j. i - k \<le> j \<and> j < i \<longrightarrow> bit m j)
     \<and> (k < i \<longrightarrow> \<not> bit m (i - k - 1))"
proof (induction i arbitrary: b)
  case 0
  show ?case by simp
next
  case (Suc i)
  show ?case
  proof (cases "bit m i")
    case True
    from Suc.IH [of "Suc b"] obtain k where k: "k \<le> i" "prefix_loop m i (Suc b) = Suc b + k"
      "\<forall>j. i - k \<le> j \<and> j < i \<longrightarrow> bit m j" "k < i \<longrightarrow> \<not> bit m (i - k - 1)" by blast
    with True have "prefix_loop m (Suc i) b = b + Suc k"
      by (simp add: and_one_iff_bit)
    moreover have "\<forall>j. Suc i - Suc k \<le> j \<and> j < Suc i \<longrightarrow> bit m j"
      using k(3) True by (auto simp: less_Suc_eq)
    ultimately show ?thesis using k(1,4) by (intro exI [of _ "Suc k"]) auto
  next
    case False
    then show ?thesis by (intro exI [of _ 0]) (auto simp: and_one_iff_bit)
  qed
qed

lemma prefix_length_spec:
  shows "prefix_length iface \<le> 32"
    and "32 - prefix_length iface \<le> j \<Longrightarrow> j < 32 \<Longrightarrow> bit (ni_mask iface) j"
    and "prefix_length iface < 32 \<Longrightarrow> \<not> bit (ni_mask iface) (31 - prefix_length iface)"
  using prefix_loop_spec [of 32 "ni_mask iface" 0] by (auto simp: prefix_length_def)

lemma prefix_length_contiguous:
  assumes "ni_mask iface = contiguous_mask p" and "p \<le> 32"
  shows "prefix_length iface = p"
proof (rule ccontr)
  assume "prefix_length iface \<noteq> p"
  then consider "prefix_length iface < p" | "p < prefix_length iface" by linarith
  then show False
  proof cases
    case 1
    with assms(2) prefix_length_spec(3) [of iface] show False
      by (auto simp: assms(1) bit_contiguous_mask)
  next
    case 2
    with prefix_length_spec(1) [of iface] have "bit (ni_mask iface) (31 - p)"
      by (intro prefix_length_spec(2)) auto
    with 2 assms prefix_length_spec(1) [of iface] show False
      by (auto simp: bit_contiguous_mask)
  qed
qed

lemma unat_or_disjoint:
  fixes a b :: u32
  assumes "\<And>i. \<not> bit a i \<or> \<not> bit b i"
  shows "unat (a OR b) = unat a + unat b"
  by (metis (no_types, lifting) assms bit_unsigned_iff disjunctive_add unsigned_or_eq)

lemma unat_broadcast:
  "unat (broadcast iface) = unat (network iface) + unat (NOT (ni_mask iface))"
  unfolding broadcast_def network_def
  by (intro unat_or_disjoint) (auto simp: bit_and_iff bit_not_iff)

lemma unat_less_two_power:
  fixes w :: u32
  assumes "\<And>i. k \<le> i \<Longrightarrow> i < 32 \<Longrightarrow> \<not> bit w i"
  shows "unat w < 2 ^ k"
proof -
  have "take_bit k w = w"
    using assms by (intro bit_eqI) (simp add: bit_take_bit_iff, meson not_le)
  then have "unat w = take_bit k (unat w)" by (metis unsigned_take_bit_eq)
  then show ?thesis by (metis take_bit_nat_less_exp)
qed

lemma unat_not_mask: "unat (NOT (ni_mask iface)) < 2 ^ (32 - prefix_length iface)"
  by (rule unat_less_two_power) (auto simp: bit_not_iff prefix_length_spec(2))

lemma unat_and_contiguous:
  assumes "p \<le> 32"
  shows "unat (w AND contiguous_mask p) = unat w div 2 ^ (32 - p) * 2 ^ (32 - p)"
proof -
  have "w AND contiguous_mask p = push_bit (32 - p) (drop_bit (32 - p) w)"
    by (rule bit_eqI)
      (auto simp: bit_and_iff bit_contiguous_mask bit_push_bit_iff bit_drop_bit_eq)
  moreover have "unat (push_bit (32 - p) (drop_bit (32 - p) w))
      = push_bit (32 - p) (drop_bit (32 - p) (unat w))"
    by (rule bit_eqI)
      (auto simp: bit_unsigned_iff bit_push_bit_iff bit_drop_bit_eq dest: bit_imp_le_length)
  ultimately show ?thesis
    by (simp add: push_bit_eq_mult drop_bit_eq_div)
qed

lemma unat_not_contiguous: 
  assumes "p \<le> 32" shows "unat (NOT (contiguous_mask p)) = 2 ^ (32 - p) - 1"
proof -
  have "NOT (contiguous_mask p) = (mask (32 - p) :: u32)"
    by (rule bit_eqI) (auto simp: bit_not_iff bit_contiguous_mask bit_mask_iff)
  moreover have "unat (mask (32 - p) :: u32) = mask (32 - p)"
    by (rule bit_eqI) (auto simp: bit_unsigned_iff bit_mask_iff)
  ultimately show ?thesis by (simp add: mask_eq_exp_minus_1)
qed

text \<open>The addresses of a subnet are an interval.\<close>

lemma in_subnet_iff:
  assumes "ni_mask iface = contiguous_mask p" and "p \<le> 32"
  shows "w AND ni_mask iface = network iface \<longleftrightarrow> network iface \<le> w \<and> w \<le> broadcast iface"
proof -
  let ?k = "2 ^ (32 - p) :: nat"
  let ?q = "unat (ni_address iface) div ?k"
  have net: "unat (network iface) = ?q * ?k"
    using assms by (simp add: network_def unat_and_contiguous)
  have bc: "unat (broadcast iface) = ?q * ?k + (?k - 1)"
    using assms net by (simp add: unat_broadcast unat_not_contiguous)
  have "w AND ni_mask iface = network iface \<longleftrightarrow> unat w div ?k * ?k = ?q * ?k"
    unfolding network_def assms(1) word_unat_eq_iff using assms(2)
    by (simp add: unat_and_contiguous)
  also have "\<dots> \<longleftrightarrow> unat w div ?k = ?q" by simp
  also have "\<dots> \<longleftrightarrow> ?q * ?k \<le> unat w \<and> unat w < Suc ?q * ?k"
    using less_eq_div_iff_mult_less_eq [of ?k ?q "unat w"]
      div_less_iff_less_mult [of ?k "unat w" "Suc ?q"] by auto
  also have "\<dots> \<longleftrightarrow> ?q * ?k \<le> unat w \<and> unat w \<le> ?q * ?k + (?k - 1)"
  proof -
    have "n < Suc q * k \<longleftrightarrow> n \<le> q * k + (k - 1)" if "0 < k" for n q k :: nat
      using that by (cases k) auto
    then show ?thesis by simp
  qed
  finally show ?thesis by (simp add: word_le_nat_alt net bc)
qed

section \<open>Netmasks as text\<close>

lemma u8_le_32_unat: "\<not> 32 < (p :: u8) \<Longrightarrow> unat p \<le> 32"
  by (simp add: word_le_nat_alt not_less)

lemma netmask_word:
  fixes p :: u8
  assumes "\<not> 32 < p"
  shows "(if p = 0 then 0 else push_bit (32 - unat p) 0xFFFFFFFF AND 0xFFFFFFFF)
           = contiguous_mask (unat p)"
proof (cases "p = 0")
  case True
  have "contiguous_mask 0 = 0"
    by (rule bit_eqI) (simp add: bit_contiguous_mask)
  with True show ?thesis by simp
next
  case False
  have "(0xFFFFFFFF :: u32) = - 1" by simp
  with False show ?thesis
    by (simp only: if_False and.right_neutral contiguous_mask_def)
qed

context inet_text
begin

lemma ntop_text_parses: "inet_pton api (c_str (ntop_text api w)) = Some w" "ntop_text api w \<noteq> []"
  using ntop_total [of w] ntop_chars [of w] pton_c_str_ntop [of w]
  by (auto simp: ntop_text_def)

lemma ntop_text_inj: "ntop_text api v = ntop_text api w \<longleftrightarrow> v = w"
  by (metis ntop_text_parses(1) option.inject)

lemma parse_ntop_text: "parse_ipv4 api (ntop_text api (htonl api w)) = Some w"
  by (simp add: parse_ipv4_def ntop_text_parses)

lemma parse_ntop_text_net: "parse_ipv4 api (ntop_text api w) = Some (ntohl api w)"
  by (simp add: parse_ipv4_def ntop_text_parses)

lemma netmask_text:
  "\<not> 32 < p \<Longrightarrow> netmask_from_prefix api p = ntop_text api (htonl api (contiguous_mask (unat p)))"
  by (simp add: netmask_from_prefix_def Let_def netmask_word)

lemma netmask_roundtrip:
  "\<not> 32 < p \<Longrightarrow> parse_ipv4 api (netmask_from_prefix api p) = Some (contiguous_mask (unat p))"
  by (simp add: netmask_text parse_ntop_text)

lemma netmask_nonempty: "netmask_from_prefix api p \<noteq> [] \<longleftrightarrow> \<not> 32 < p"
  by (cases "32 < p") (simp_all add: netmask_text ntop_text_parses, simp add: netmask_from_prefix_def)

end

text \<open>C32: the netmask text derived from an on-link prefix length parses back to a mask
  whose \<open>prefix_length()\<close> is that prefix length, for every prefix length up to 32.\<close>

theorem netmask_prefix_roundtrip:
  assumes "inet_text api" and "p \<le> (32 :: u8)"
  shows "\<exists>m. parse_ipv4 api (netmask_from_prefix api p) = Some m
           \<and> (\<forall>iface. ni_mask iface = m \<longrightarrow> prefix_length iface = unat p)"
  using inet_text.netmask_roundtrip [OF assms(1), of p] assms(2) u8_le_32_unat [of p]
  by (auto simp: prefix_length_contiguous not_less)

theorem netmask_prefix_roundtrip_witness:
  "\<exists>m. parse_ipv4 dotted_api (netmask_from_prefix dotted_api 22) = Some m
     \<and> (\<forall>iface. ni_mask iface = m \<longrightarrow> prefix_length iface = unat (22 :: u8))"
  by (rule netmask_prefix_roundtrip [OF dotted.inet_text_axioms]) simp

section \<open>Enumerated adapters\<close>

lemma scan_unicast_keeps:
  "snap_name (scan_unicast api us s) = snap_name s"
  "snap_description (scan_unicast api us s) = snap_description s"
  "snap_is_loopback (scan_unicast api us s) = snap_is_loopback s"
  "snap_is_up (scan_unicast api us s) = snap_is_up s"
  "snap_is_running (scan_unicast api us s) = snap_is_running s"
  by (induction api us s rule: scan_unicast.induct) (auto simp: Let_def split: option.split sockaddr.split)

lemma scan_unicast_has_ipv4:
  "snap_has_ipv4 (scan_unicast api us s) \<Longrightarrow> \<not> snap_has_ipv4 s \<Longrightarrow>
     \<exists>u \<in> set us. \<exists>a. lpSockaddr u = Some (Sockaddr_in a)
       \<and> snap_ipv4 (scan_unicast api us s) = ntop_text api a
       \<and> snap_netmask (scan_unicast api us s) = netmask_from_prefix api (OnLinkPrefixLength u)
       \<and> snap_netmask (scan_unicast api us s) \<noteq> []"
proof (induction us)
  case Nil
  then show ?case by simp
next
  case (Cons u us)
  then show ?case
    by (auto simp: Let_def to_dotted_sockaddr_def split: option.splits sockaddr.splits if_splits)
qed

lemma snapshot_has_ipv4:
  assumes "s = snapshot_of_adapter api conv ad" and "snap_has_ipv4 s"
  shows "\<exists>u \<in> set (UnicastAddresses ad). \<exists>a. lpSockaddr u = Some (Sockaddr_in a)
       \<and> snap_ipv4 s = ntop_text api a
       \<and> snap_netmask s = netmask_from_prefix api (OnLinkPrefixLength u) \<and> snap_netmask s \<noteq> []"
proof -
  obtain s0 :: InterfaceSnapshot
    where s0: "s = scan_unicast api (UnicastAddresses ad) s0" "\<not> snap_has_ipv4 s0"
    unfolding assms(1) snapshot_of_adapter_def Let_def by (metis InterfaceSnapshot.select_convs(8))
  with assms(2) show ?thesis using scan_unicast_has_ipv4 [of api "UnicastAddresses ad" s0] by simp
qed

lemma candidate_of_snapshot_Some:
  "candidate_of_snapshot api s = Some i \<longleftrightarrow>
     \<not> snap_is_loopback s \<and> snap_is_up s \<and> snap_is_running s \<and> snap_has_ipv4 s
     \<and> \<not> is_virtual_interface_name (snap_name s)
     \<and> \<not> is_virtual_interface_name (snap_description s)
     \<and> parse_ipv4 api (snap_ipv4 s) = Some (ni_address i)
     \<and> parse_ipv4 api (snap_netmask s) = Some (ni_mask i)
     \<and> i = \<lparr>ni_name = snap_name s, ni_ipv4 = snap_ipv4 s, ni_netmask = snap_netmask s,
            ni_address = ni_address i, ni_mask = ni_mask i, ni_is_loopback = False,
            ni_is_up = True, ni_is_running = True,
            ni_is_point_to_point = snap_is_point_to_point s, ni_if_index = snap_if_index s,
            ni_mac = snap_mac s, ni_description = snap_description s\<rparr>"
  by (auto simp: candidate_of_snapshot_def split: option.split)

lemma filter_candidates_eq:
  "filter_candidate_interfaces api ss = List.map_filter (candidate_of_snapshot api) ss"
  by (induction ss) (auto simp: List.map_filter_simps split: option.split)

lemma set_filter_candidates:
  "i \<in> set (filter_candidate_interfaces api ss) \<longleftrightarrow>
     (\<exists>s \<in> set ss. candidate_of_snapshot api s = Some i)"
  by (induction ss) (auto split: option.split)

text \<open>C31: the selection keeps exactly the snapshots that are not loopback, up, running,
  carry a parsable IPv4 address and netmask and look virtual neither by name nor by
  description; it keeps their order and copies their fields.\<close>

theorem filter_candidates_exact:
  "map (\<lambda>i. (ni_name i, ni_description i, ni_ipv4 i, ni_netmask i, ni_if_index i, ni_mac i,
             Some (ni_address i), Some (ni_mask i))) (filter_candidate_interfaces api ss) =
     map (\<lambda>s. (snap_name s, snap_description s, snap_ipv4 s, snap_netmask s, snap_if_index s,
             snap_mac s, parse_ipv4 api (snap_ipv4 s), parse_ipv4 api (snap_netmask s)))
       (filter (\<lambda>s. \<not> snap_is_loopback s \<and> snap_is_up s \<and> snap_is_running s
        \<and> snap_has_ipv4 s
        \<and> \<not> is_virtual_interface_name (snap_name s)
        \<and> \<not> is_virtual_interface_name (snap_description s)
        \<and> parse_ipv4 api (snap_ipv4 s) \<noteq> None \<and> parse_ipv4 api (snap_netmask s) \<noteq> None) ss)"
  by (induction ss) (auto simp: candidate_of_snapshot_def split: option.split)

context inet_text
begin

lemma discovered_masks:
  assumes "discover_candidate_interfaces api conv get = Inr ifaces" and "iface \<in> set ifaces"
  obtains a p where "\<not> 32 < (p :: u8)" "ni_mask iface = contiguous_mask (unat p)"
    "prefix_length iface = unat p" "ni_ipv4 iface = ntop_text api a"
    "ni_address iface = ntohl api a" "parse_ipv4 api (ni_netmask iface) = Some (ni_mask iface)"
proof -
  from assms obtain ad where "candidate_of_snapshot api (snapshot_of_adapter api conv ad) = Some iface"
    by (auto simp: discover_candidate_interfaces_def enumerate_interfaces_def
        set_filter_candidates split: sum.splits)
  then obtain s where s: "s = snapshot_of_adapter api conv ad"
    and c: "candidate_of_snapshot api s = Some iface" by blast
  from c have "snap_has_ipv4 s" by (simp add: candidate_of_snapshot_Some)
  from snapshot_has_ipv4 [OF s this] obtain u :: unicast_address and a where u: "snap_ipv4 s = ntop_text api a"
    "snap_netmask s = netmask_from_prefix api (OnLinkPrefixLength u)" "snap_netmask s \<noteq> []"
    by blast
  then have le: "\<not> 32 < OnLinkPrefixLength u" by (simp add: netmask_nonempty)
  from c u have "ni_mask iface = contiguous_mask (unat (OnLinkPrefixLength u))"
    by (simp add: candidate_of_snapshot_Some netmask_roundtrip [OF le])
  moreover from this have "prefix_length iface = unat (OnLinkPrefixLength u)"
    by (rule prefix_length_contiguous) (rule u8_le_32_unat [OF le])
  moreover from c u have "ni_ipv4 iface = ntop_text api a" "ni_address iface = ntohl api a"
    "parse_ipv4 api (ni_netmask iface) = Some (ni_mask iface)"
    using candidate_of_snapshot_Some [of api s iface]
    by (auto simp: parse_ntop_text_net) (metis NetworkInterface.select_convs(2,3))+
  ultimately show thesis using le that by blast
qed

end

text \<open>C33: every candidate that enumeration and selection produce has a contiguous netmask,
  its \<open>prefix_length()\<close> is the length of that mask, and its stored address and mask are
  the values of its address texts.\<close>

theorem discovered_interface_masks:
  assumes "inet_text api" and "discover_candidate_interfaces api conv get = Inr ifaces"
    and "iface \<in> set ifaces"
  shows "\<exists>p \<le> 32. ni_mask iface = contiguous_mask p \<and> prefix_length iface = p
           \<and> parse_ipv4 api (ni_ipv4 iface) = Some (ni_address iface)
           \<and> parse_ipv4 api (ni_netmask iface) = Some (ni_mask iface)"
  using inet_text.discovered_masks [OF assms] inet_text.parse_ntop_text_net [OF assms(1)]
  by (metis u8_le_32_unat)

text \<open>An adapter for the witness: an IPv6 address first, then 192.168.10.20/24.\<close>

definition sample_adapter :: adapter where
  "sample_adapter =
     \<lparr>AdapterName = None, FriendlyName = Some [69], Description = None, IfIndex = 11,
      PhysicalAddress = Some [0, 12, 41, 74, 27, 44], IfType = IF_TYPE_OTHER,
      OperStatus = IfOperStatusUp,
      UnicastAddresses = [\<lparr>lpSockaddr = Some Sockaddr_other, OnLinkPrefixLength = 64\<rparr>,
        \<lparr>lpSockaddr = Some (Sockaddr_in (le_word 192 168 10 20)), OnLinkPrefixLength = 24\<rparr>]\<rparr>"

theorem discovered_interface_masks_witness:
  "\<exists>ifaces iface. discover_candidate_interfaces dotted_api (\<lambda>w. (4, ''Eth''))
       (\<lambda>attempt sz. if attempt = 0 then Adapters_overflow 20000 else Adapters_success [sample_adapter])
     = Inr ifaces \<and> iface \<in> set ifaces \<and> ni_ipv4 iface = ''192.168.10.20''
     \<and> (\<exists>p \<le> 32. ni_mask iface = contiguous_mask p \<and> prefix_length iface = p)"
proof -
  let ?get = "\<lambda>attempt sz. if attempt = (0::nat) then Adapters_overflow 20000 else Adapters_success [sample_adapter]"
  let ?i = "\<lparr>ni_name = ''Eth'', ni_ipv4 = ''192.168.10.20'', ni_netmask = ''255.255.255.0'',
      ni_address = 3232238100, ni_mask = 4294967040, ni_is_loopback = False, ni_is_up = True,
      ni_is_running = True, ni_is_point_to_point = False, ni_if_index = 11,
      ni_mac = ''00:0c:29:4a:1b:2c'', ni_description = []\<rparr>"
  have "discover_candidate_interfaces dotted_api (\<lambda>w. (4, ''Eth'')) ?get = Inr [?i]"
    by code_simp
  with discovered_interface_masks [OF dotted.inet_text_axioms this, of ?i] show ?thesis by auto
qed

section \<open>Names\<close>

lemma is_virtual_to_lower: "is_virtual_interface_name (map tolower s) = is_virtual_interface_name s"
  by (simp add: is_virtual_interface_name_def to_lower_def comp_def)

lemma is_virtual_iff:
  "is_virtual_interface_name s \<longleftrightarrow> (\<exists>m \<in> set kVirtualMarkers. contains m (to_lower s))"
  by (simp add: is_virtual_interface_name_def list_ex_iff)

text \<open>an adapter name that contains a marker, in any mix of upper and lower case and at any
  position, is recognised as virtual.\<close>

theorem virtual_name_substring_case_insensitive:
  assumes "m \<in> set kVirtualMarkers" and "map tolower s = m"
  shows "is_virtual_interface_name (a @ s @ b)"
  using assms by (auto simp: is_virtual_iff to_lower_def contains_iff)

theorem virtual_name_substring_case_insensitive_witness:
  "is_virtual_interface_name (''My '' @ ''VMware'' @ '' Adapter'')"
  by (rule virtual_name_substring_case_insensitive [of "''vmware''"]) code_simp+

end
