(* ===== verification/Subnet_Hosts.thy ===== *)
theory Subnet_Hosts
  imports Interface_Discovery Config
begin

text \<open>
  \<open>enumerate_subnet_hosts\<close> of \<open>src/src/scanner/subnet_sweep.cpp\<close>: the addresses stage A
  probes. The 32-bit loop counter is kept at its width; the loop is shown to enumerate the
  interval between the network and the broadcast address.
\<close>

section \<open>Enumeration\<close>

text \<open>\<open>to_dotted\<close> of a host-order address.\<close>

definition to_dotted :: "inet_api \<Rightarrow> u32 \<Rightarrow> string" where
  "to_dotted api host_order = ntop_text api (htonl api host_order)"

lemma unat_Suc_less: "(a :: u32) < b \<Longrightarrow> unat (a + 1) = Suc (unat a)"
proof -
  assume "a < b"
  then have "unat a < unat b" by (simp add: word_less_nat_alt)
  with unat_u32_less [of b] have "unat a + 1 < 4294967296" by linarith
  then show ?thesis by (simp add: unat_word_ariths)
qed

text \<open>The loop \<open>for (address = network + 1; address < broadcast; ++address)\<close>.\<close>

function host_loop :: "inet_api \<Rightarrow> u32 \<Rightarrow> u32 \<Rightarrow> u32 \<Rightarrow> string list" where
  "host_loop api own bcast address =
     (if address < bcast
      then (if address = own then host_loop api own bcast (address + 1)
            else to_dotted api address # host_loop api own bcast (address + 1))
      else [])"
  by pat_completeness auto

termination
  by (relation "measure (\<lambda>(api, own, bcast, address). unat bcast - unat address)")
    (auto simp: unat_Suc_less word_less_nat_alt intro!: diff_less_mono2)

declare host_loop.simps [simp del]

text \<open>The loop over the one or two addresses of a /32 or /31 link.\<close>

fun peer_loop :: "inet_api \<Rightarrow> u32 \<Rightarrow> u32 \<Rightarrow> nat \<Rightarrow> nat \<Rightarrow> string list" where
  "peer_loop api own net i 0 = []"
| "peer_loop api own net i (Suc n) =
     (let address = net + of_nat i
      in if address \<noteq> own then to_dotted api address # peer_loop api own net (Suc i) n
         else peer_loop api own net (Suc i) n)"

definition enumerate_subnet_hosts :: "inet_api \<Rightarrow> NetworkInterface \<Rightarrow> int \<Rightarrow> string list" where
  "enumerate_subnet_hosts api iface min_prefix =
     (let prefix = prefix_length iface
      in if int prefix < min_prefix \<or> ni_mask iface = 0 then []
         else if prefix \<ge> 31
         then peer_loop api (ni_address iface) (network iface) 0 (if prefix = 32 then 1 else 2)
         else host_loop api (ni_address iface) (broadcast iface) (network iface + 1))"

section \<open>The loops as intervals\<close>

definition addresses_between :: "u32 \<Rightarrow> u32 \<Rightarrow> u32 list" where
  "addresses_between lo hi = map of_nat [unat lo..<unat hi]"

lemma addresses_between_unfold:
  "addresses_between a b = (if a < b then a # addresses_between (a + 1) b else [])"
  by (simp add: addresses_between_def word_less_nat_alt upt_conv_Cons unat_Suc_less)

lemma host_loop_eq:
  "host_loop api own bcast a =
     map (to_dotted api) (filter (\<lambda>w. w \<noteq> own) (addresses_between a bcast))"
proof (induction api own bcast a rule: host_loop.induct)
  case (1 api own bcast a)
  then show ?case
    by (subst host_loop.simps, subst addresses_between_unfold) auto
qed

lemma set_addresses_between: "set (addresses_between a b) = {w. a \<le> w \<and> w < b}"
proof -
  have "\<exists>n \<in> {unat a..<unat b}. w = of_nat n" if "a \<le> w" "w < b" for w
    using that by (intro bexI [of _ "unat w"]) (auto simp: word_le_nat_alt word_less_nat_alt)
  moreover have "a \<le> of_nat n \<and> of_nat n < b" if "unat a \<le> n" "n < unat b" for n
  proof -
    have "unat (of_nat n :: u32) = n"
      using that unat_u32_less [of b] by (simp add: unat_of_nat)
    with that show ?thesis by (simp add: word_le_nat_alt word_less_nat_alt)
  qed
  ultimately show ?thesis by (auto simp: addresses_between_def)
qed

lemma sorted_addresses_between: "sorted_wrt (<) (addresses_between a b)"
proof -
  have "unat (of_nat n :: u32) = n" if "n < unat b" for n
    using that unat_u32_less [of b] by (simp add: unat_of_nat)
  then have "sorted_wrt (\<lambda>m n. (of_nat m :: u32) < of_nat n) [unat a..<unat b]"
    by (intro sorted_wrt_mono_rel [OF _ sorted_wrt_upt]) (simp add: word_less_nat_alt)
  then show ?thesis by (simp add: addresses_between_def sorted_wrt_map)
qed

lemma length_addresses_between: "length (addresses_between a b) = unat b - unat a"
  by (simp add: addresses_between_def)

section \<open>What stage A enumerates\<close>

text \<open>An interface for the witnesses.\<close>

definition sample_link :: "u32 \<Rightarrow> nat \<Rightarrow> NetworkInterface" where
  "sample_link address p =
     \<lparr>ni_name = ''Ethernet 2'', ni_ipv4 = to_dotted dotted_api address,
      ni_netmask = to_dotted dotted_api (contiguous_mask p), ni_address = address,
      ni_mask = contiguous_mask p, ni_is_loopback = False, ni_is_up = True,
      ni_is_running = True, ni_is_point_to_point = False, ni_if_index = 11, ni_mac = [],
      ni_description = []\<rparr>"

lemma network_le_broadcast: "network iface \<le> broadcast iface"
  by (simp add: word_le_nat_alt unat_broadcast)

lemma unat_network_Suc:
  "network iface < broadcast iface \<Longrightarrow> unat (network iface + 1) = Suc (unat (network iface))"
  by (rule unat_Suc_less)

lemma network_less_broadcast:
  assumes "prefix_length iface < 32"
  shows "network iface < broadcast iface"
proof -
  have "bit (NOT (ni_mask iface)) (31 - prefix_length iface)"
    using assms prefix_length_spec(3) [of iface] by (simp add: bit_not_iff)
  then have "NOT (ni_mask iface) \<noteq> 0" by auto
  then have "0 < unat (NOT (ni_mask iface))"
    by (metis neq0_conv unsigned_eq_0_iff)
  then show ?thesis by (simp add: word_less_nat_alt unat_broadcast)
qed

lemma contiguous_mask_0: "contiguous_mask p = 0 \<longleftrightarrow> p = 0"
proof
  assume "contiguous_mask p = 0"
  then have "\<not> bit (contiguous_mask p) 31" by simp
  then show "p = 0" by (simp add: bit_contiguous_mask)
next
  show "p = 0 \<Longrightarrow> contiguous_mask p = 0"
    by (rule bit_eqI) (simp add: bit_contiguous_mask)
qed

lemma between_iff:
  assumes "network iface < broadcast iface"
  shows "network iface + 1 \<le> w \<longleftrightarrow> network iface < w"
  using unat_network_Suc [OF assms] by (simp add: word_le_nat_alt word_less_nat_alt Suc_le_eq)

lemma enumerate_subnet_hosts_eq:
  assumes "prefix_length iface < 31" and "min_prefix \<le> int (prefix_length iface)" and "ni_mask iface \<noteq> 0"
  shows "enumerate_subnet_hosts api iface min_prefix =
    map (to_dotted api) (filter (\<lambda>w. w \<noteq> ni_address iface)
      (addresses_between (network iface + 1) (broadcast iface)))"
  using assms by (simp add: enumerate_subnet_hosts_def host_loop_eq)

lemma hosts_of_subnet:
  assumes "ni_mask iface = contiguous_mask p" and "0 < p" "p < 31" and "min_prefix \<le> int p"
  shows "\<exists>addrs. enumerate_subnet_hosts api iface min_prefix = map (to_dotted api) addrs
     \<and> sorted_wrt (<) addrs
     \<and> set addrs = {w. w AND ni_mask iface = network iface \<and> w \<noteq> network iface
                        \<and> w \<noteq> broadcast iface \<and> w \<noteq> ni_address iface}"
proof -
  let ?addrs = "filter (\<lambda>w. w \<noteq> ni_address iface)
    (addresses_between (network iface + 1) (broadcast iface))"
  have len: "prefix_length iface = p"
    using assms by (intro prefix_length_contiguous) auto
  have lt: "network iface < broadcast iface"
    using assms len by (intro network_less_broadcast) auto
  have "enumerate_subnet_hosts api iface min_prefix = map (to_dotted api) ?addrs"
    using assms len by (intro enumerate_subnet_hosts_eq) (simp_all add: contiguous_mask_0)
  moreover have "sorted_wrt (<) ?addrs"
    by (intro sorted_wrt_filter sorted_addresses_between)
  moreover have "set ?addrs = {w. w AND ni_mask iface = network iface \<and> w \<noteq> network iface
                        \<and> w \<noteq> broadcast iface \<and> w \<noteq> ni_address iface}"
  proof -
    have "w AND ni_mask iface = network iface \<and> w \<noteq> network iface \<and> w \<noteq> broadcast iface
        \<longleftrightarrow> network iface < w \<and> w < broadcast iface" for w
      using assms in_subnet_iff [of iface p w] by auto
    then show ?thesis by (auto simp: set_addresses_between between_iff [OF lt])
  qed
  ultimately show ?thesis by blast
qed

text \<open>C30: for a contiguous mask of 1 to 30 bits the enumeration lists, in increasing order and
  without repetition, exactly the addresses of the subnet other than the network address, the
  broadcast address and the own address.\<close>

theorem subnet_hosts_exact:
  assumes "ni_mask iface = contiguous_mask p" and "0 < p" "p < 31" and "min_prefix \<le> int p"
  shows "\<exists>addrs. enumerate_subnet_hosts api iface min_prefix = map (to_dotted api) addrs
     \<and> sorted_wrt (<) addrs
     \<and> set addrs = {w. w AND ni_mask iface = network iface \<and> w \<noteq> network iface
                        \<and> w \<noteq> broadcast iface \<and> w \<noteq> ni_address iface}"
  by (rule hosts_of_subnet [OF assms])

text \<open>on a /31 or /32 link the enumeration lists exactly the addresses of the link other
  than the own address, in increasing order.\<close>

theorem peer_hosts_exact:
  assumes "ni_mask iface = contiguous_mask p" and "31 \<le> p" "p \<le> 32" and "min_prefix \<le> int p"
  shows "\<exists>addrs. enumerate_subnet_hosts api iface min_prefix = map (to_dotted api) addrs
     \<and> sorted_wrt (<) addrs
     \<and> set addrs = {w. w AND ni_mask iface = network iface \<and> w \<noteq> ni_address iface}"
proof -
  let ?bc = "broadcast iface"
  have len: "prefix_length iface = p"
    using assms by (intro prefix_length_contiguous) auto
  have bc: "unat ?bc = unat (network iface) + (2 ^ (32 - p) - 1)"
    using assms by (simp add: unat_broadcast unat_not_contiguous)
  consider "p = 31" | "p = 32" using assms by linarith
  then show ?thesis
  proof cases
    case 1
    have lt: "network iface < ?bc" using len 1 by (intro network_less_broadcast) auto
    have "unat (network iface + 1) = unat ?bc" using 1 bc unat_network_Suc [OF lt] by simp
    then have eq: "network iface + 1 = ?bc" by (rule unsigned_word_eqI)
    have "enumerate_subnet_hosts api iface min_prefix =
        map (to_dotted api) (filter (\<lambda>w. w \<noteq> ni_address iface) [network iface, ?bc])"
      using assms len 1 by (simp add: enumerate_subnet_hosts_def contiguous_mask_0 numeral_2_eq_2
          Let_def flip: eq)
    moreover have "w AND ni_mask iface = network iface \<longleftrightarrow> w = network iface \<or> w = ?bc" for w
      using in_subnet_iff [of iface p w] assms bc 1
      by (auto simp: word_le_nat_alt simp flip: word_unat_eq_iff) (metis le_SucE le_antisym unsigned_word_eqI)
    ultimately show ?thesis using lt
      by (intro exI [of _ "filter (\<lambda>w. w \<noteq> ni_address iface) [network iface, ?bc]"]) auto
  next
    case 2
    have eq: "?bc = network iface" using bc 2 by (intro unsigned_word_eqI) simp
    have "enumerate_subnet_hosts api iface min_prefix =
        map (to_dotted api) (filter (\<lambda>w. w \<noteq> ni_address iface) [network iface])"
      using assms len 2 by (simp add: enumerate_subnet_hosts_def contiguous_mask_0 Let_def)
    moreover have "w AND ni_mask iface = network iface \<longleftrightarrow> w = network iface" for w
      using in_subnet_iff [of iface p w] assms eq by auto
    ultimately show ?thesis
      by (intro exI [of _ "filter (\<lambda>w. w \<noteq> ni_address iface) [network iface]"]) auto
  qed
qed

lemma length_peer_loop: "length (peer_loop api own net i n) \<le> n"
  by (induction api own net i n rule: peer_loop.induct) (auto simp: Let_def)

text \<open>with the configured minimum prefix, stage A never lists more than 1022 addresses,
  whatever the mask of the interface (contiguous or not).\<close>

theorem subnet_hosts_bounded: "length (enumerate_subnet_hosts api iface kMinimumScanPrefix) \<le> 1022"
proof -
  consider "int (prefix_length iface) < kMinimumScanPrefix \<or> ni_mask iface = 0"
    | "31 \<le> prefix_length iface" | "22 \<le> prefix_length iface" "prefix_length iface < 31" "ni_mask iface \<noteq> 0"
    unfolding kMinimumScanPrefix_def by linarith
  then show ?thesis
  proof cases
    case 1
    then show ?thesis by (auto simp: enumerate_subnet_hosts_def)
  next
    case 2
    then show ?thesis
      using length_peer_loop [of api "ni_address iface" "network iface" 0 1]
        length_peer_loop [of api "ni_address iface" "network iface" 0 2]
      by (auto simp: enumerate_subnet_hosts_def Let_def)
  next
    case 3
    have "(2::nat) ^ (32 - prefix_length iface) \<le> 2 ^ 10"
      using 3 by (intro power_increasing) auto
    then have lt: "unat (broadcast iface) \<le> unat (network iface) + 1023"
      using unat_not_mask [of iface] by (simp add: unat_broadcast)
    have "length (addresses_between (network iface + 1) (broadcast iface)) \<le> 1022"
    proof -
      have "network iface < broadcast iface" using 3 by (intro network_less_broadcast) auto
      with lt show ?thesis by (simp add: length_addresses_between unat_network_Suc)
    qed
    then show ?thesis
      using 3 le_trans [OF length_filter_le] by (simp add: enumerate_subnet_hosts_eq kMinimumScanPrefix_def)
  qed
qed

lemma to_dotted_parses: 
  assumes "inet_text api" shows "parse_ipv4 api (to_dotted api w) = Some w"
  using inet_text.parse_ntop_text [OF assms] by (simp add: to_dotted_def)

text \<open>the host texts are distinct, and each is the text of an address on the directly
  connected subnet that is not the own address.\<close>

theorem swept_hosts_on_link:
  assumes "inet_text api" and "ni_mask iface = contiguous_mask p" and "p \<le> 32"
  shows "distinct (enumerate_subnet_hosts api iface min_prefix)
    \<and> (\<forall>h \<in> set (enumerate_subnet_hosts api iface min_prefix).
         \<exists>w. parse_ipv4 api h = Some w \<and> w AND ni_mask iface = network iface \<and> w \<noteq> ni_address iface)"
proof (cases "p = 0 \<or> int p < min_prefix")
  case True
  with assms prefix_length_contiguous [of iface p] show ?thesis
    by (auto simp: enumerate_subnet_hosts_def contiguous_mask_0)
next
  case False
  then obtain addrs where a: "enumerate_subnet_hosts api iface min_prefix = map (to_dotted api) addrs"
    "sorted_wrt (<) addrs"
    "\<forall>w \<in> set addrs. w AND ni_mask iface = network iface \<and> w \<noteq> ni_address iface"
    using hosts_of_subnet [OF assms(2), of min_prefix api] peer_hosts_exact [OF assms(2), of min_prefix api] assms(3)
    by (cases "p < 31") auto
  have "inj (to_dotted api)"
    by (rule inj_on_inverseI [where g = "\<lambda>s. the (parse_ipv4 api s)"]) (simp add: to_dotted_parses [OF assms(1)])
  then have "inj_on (to_dotted api) (set addrs)" by (rule inj_on_subset) simp
  moreover have "distinct addrs" using a(2) by (simp add: strict_sorted_iff)
  ultimately show ?thesis
    using a by (auto simp: distinct_map to_dotted_parses [OF assms(1)])
qed

theorem subnet_hosts_exact_witness:
  "enumerate_subnet_hosts dotted_api (sample_link 0x0A000001 30) 22 = [''10.0.0.2'']
   \<and> (\<exists>addrs. enumerate_subnet_hosts dotted_api (sample_link 0x0A000001 30) 22
          = map (to_dotted dotted_api) addrs \<and> sorted_wrt (<) addrs)"
proof -
  have "enumerate_subnet_hosts dotted_api (sample_link 0x0A000001 30) 22 = [''10.0.0.2'']"
    by code_simp
  moreover have "\<exists>addrs. enumerate_subnet_hosts dotted_api (sample_link 0x0A000001 30) 22
          = map (to_dotted dotted_api) addrs \<and> sorted_wrt (<) addrs"
    using subnet_hosts_exact [of "sample_link 0x0A000001 30" 30 22 dotted_api]
    by (auto simp: sample_link_def)
  ultimately show ?thesis by blast
qed

theorem peer_hosts_exact_witness:
  "enumerate_subnet_hosts dotted_api (sample_link 0x0A000000 31) 22 = [''10.0.0.1'']
   \<and> (\<exists>addrs. enumerate_subnet_hosts dotted_api (sample_link 0x0A000000 31) 22
          = map (to_dotted dotted_api) addrs \<and> sorted_wrt (<) addrs)"
proof -
  have "enumerate_subnet_hosts dotted_api (sample_link 0x0A000000 31) 22 = [''10.0.0.1'']"
    by code_simp
  moreover have "\<exists>addrs. enumerate_subnet_hosts dotted_api (sample_link 0x0A000000 31) 22
          = map (to_dotted dotted_api) addrs \<and> sorted_wrt (<) addrs"
    using peer_hosts_exact [of "sample_link 0x0A000000 31" 31 22 dotted_api]
    by (auto simp: sample_link_def)
  ultimately show ?thesis by blast
qed

theorem swept_hosts_on_link_witness:
  "distinct (enumerate_subnet_hosts dotted_api (sample_link 0xC0A80A14 24) 22)
   \<and> list_all (\<lambda>h. \<exists>w. parse_ipv4 dotted_api h = Some w \<and> w AND contiguous_mask 24 = 0xC0A80A00)
         (enumerate_subnet_hosts dotted_api (sample_link 0xC0A80A14 24) 22)"
proof -
  have "network (sample_link 0xC0A80A14 24) = 0xC0A80A00" "ni_mask (sample_link 0xC0A80A14 24) = contiguous_mask 24"
    by (simp_all add: sample_link_def network_def contiguous_mask_def push_bit_eq_mult)
  then show ?thesis
    using swept_hosts_on_link [OF dotted.inet_text_axioms, of "sample_link 0xC0A80A14 24" 24 22]
    by (auto simp: list_all_iff)
qed

end
