(* ===== verification/Ifconfig_Formats.thy ===== *)
theory Ifconfig_Formats
  imports Ifconfig_Parser
begin

text \<open>
  The parsers of \<open>src/src/parser/ifconfig_parser.cpp\<close> against the formats they are written for:
  printers of the net-tools, busybox and iproute2 layouts for arbitrary interfaces, and the round
  trips through the parsers.
\<close>

section \<open>Texts of lines, plain names and addresses\<close>

definition text_of_lines :: "string list \<Rightarrow> string" where
  "text_of_lines ls = concat (map (\<lambda>l. l @ [newline]) ls)"

lemma getlines_text_of_lines:
  "(\<And>l. l \<in> set ls \<Longrightarrow> newline \<notin> set l) \<Longrightarrow> getlines (text_of_lines ls) = ls"
  by (induction ls) (simp_all add: text_of_lines_def cxx_simps)

definition plain_name :: "string \<Rightarrow> bool" where
  "plain_name n \<longleftrightarrow> n \<noteq> [] \<and> last n \<noteq> CHR '':'' \<and> n \<noteq> ''inet'' \<and> \<not> starts_with ''addr'' n
     \<and> list_all (\<lambda>c. \<not> isspace c \<and> c \<noteq> CHR ''@'') n"

definition plain_address :: "inet_api \<Rightarrow> string \<Rightarrow> bool" where
  "plain_address api a \<longleftrightarrow> a \<noteq> [] \<and> list_all dotted_char a \<and> is_valid_ipv4 api a"

definition plain_interface :: "inet_api \<Rightarrow> RemoteInterface \<Rightarrow> bool" where
  "plain_interface api r \<longleftrightarrow> plain_name (ri_name r) \<and> plain_address api (ri_ipv4 r)"

lemma dotted_char_facts: "dotted_char c \<Longrightarrow> \<not> isspace c \<and> c \<noteq> CHR ''/'' \<and> c \<noteq> CHR ''a'' \<and> c \<noteq> newline"
  by (auto simp: dotted_char_def isdigit_def isspace_def)

lemma not_space_not_newline: "\<not> isspace c \<Longrightarrow> c \<noteq> newline"
  by (auto simp: isspace_def)

lemma tokens_spaces: "(\<And>c. c \<in> set b \<Longrightarrow> isspace c) \<Longrightarrow> tokens (b @ s) = tokens s"
  by (induction b) auto

lemma check_candidate_plain:
  assumes "plain_address api a" and "pre = [] \<or> pre = ''addr:''" and "suf = [] \<or> hd suf = CHR ''/''"
  shows "check_candidate api (pre @ a @ suf) = a"
proof -
  have a: "a \<noteq> []" "\<forall>c \<in> set a. dotted_char c" "is_valid_ipv4 api a"
    using assms(1) by (auto simp: plain_address_def list_all_iff)
  have "\<not> starts_with ''addr:'' (a @ suf)"
    using a(1,2) dotted_char_facts by (cases a) auto
  then have strip: "(if starts_with ''addr:'' (pre @ a @ suf) then substr_from (pre @ a @ suf) 5 else pre @ a @ suf)
      = a @ suf"
    using assms(2) by (auto simp: substr_from_def)
  have noslash: "\<And>c. c \<in> set a \<Longrightarrow> c \<noteq> CHR ''/''" using a(2) dotted_char_facts by blast
  have "takeWhile (\<lambda>c. c \<noteq> CHR ''/'') (a @ suf) = a"
  proof (cases suf)
    case Nil
    with noslash show ?thesis using takeWhile_all [of a "\<lambda>c. c \<noteq> CHR ''/''"] by simp
  next
    case (Cons x xs)
    with noslash assms(3) show ?thesis by (simp add: takeWhile_append_stop)
  qed
  then show ?thesis using a(3)
    unfolding check_candidate_def Let_def strip find_char_cut by simp
qed

lemma extract_inet_line:
  assumes "plain_address api a" and "\<And>c. c \<in> set b \<Longrightarrow> isspace c"
    and "pre = [] \<or> pre = ''addr:''" and "suf = [] \<or> hd suf = CHR ''/''"
    and "\<And>c. c \<in> set suf \<Longrightarrow> \<not> isspace c" and "rest = [] \<or> isspace (hd rest)"
  shows "extract_inet_address api (b @ ''inet '' @ pre @ a @ suf @ rest) = a"
proof -
  have word: "pre @ a @ suf \<noteq> []" "\<And>c. c \<in> set (pre @ a @ suf) \<Longrightarrow> \<not> isspace c"
    using assms(1,3,5) dotted_char_facts
    by (auto simp: plain_address_def list_all_iff isspace_def)
  have "tokens (b @ ''inet '' @ pre @ a @ suf @ rest) = tokens (''inet'' @ CHR '' '' # (pre @ a @ suf) @ rest)"
    using assms(2) by (simp add: tokens_spaces)
  also have "\<dots> = ''inet'' # tokens (CHR '' '' # (pre @ a @ suf) @ rest)"
    by (rule tokens_append_word) (auto simp: isspace_def)
  also have "tokens (CHR '' '' # (pre @ a @ suf) @ rest) = tokens ((pre @ a @ suf) @ rest)"
    by (rule tokens_blank) (simp add: isspace_def)
  also have "\<dots> = (pre @ a @ suf) # tokens rest"
    using word assms(6) by (rule tokens_append_word)
  finally show ?thesis
    using check_candidate_plain [OF assms(1,3,4)] by (simp add: extract_inet_address_tokens)
qed

lemma plain_name_facts:
  assumes "plain_name n"
  shows "n \<noteq> []" "last n \<noteq> CHR '':''" "n \<noteq> ''inet''" "\<not> starts_with ''addr'' n"
    "\<And>c. c \<in> set n \<Longrightarrow> \<not> isspace c \<and> c \<noteq> CHR ''@''"
  using assms by (auto simp: plain_name_def list_all_iff)

lemma normalize_plain: "plain_name n \<Longrightarrow> normalize_name n = n"
  using plain_name_facts [of n] by (auto simp: normalize_name_def find_char_None split: option.split)
    (metis find_char_None option.distinct(1))

lemma normalize_colon: "plain_name n \<Longrightarrow> normalize_name (n @ '':'') = n"
  using plain_name_facts [of n] by (auto simp: normalize_name_def find_char_None split: option.split)
    (metis find_char_None option.distinct(1))

lemma first_token_word:
  assumes "w \<noteq> []" and "\<And>c. c \<in> set w \<Longrightarrow> \<not> isspace c" and "s = [] \<or> isspace (hd s)"
  shows "first_token (w @ s) = w"
  using read_token_append_word [OF assms] by (simp add: first_token_def)

lemma starts_with_addr_colon:
  assumes "plain_name n"
  shows "\<not> starts_with ''addr:'' n" "\<not> starts_with ''addr:'' (n @ '':'')"
proof -
  note n = plain_name_facts(4) [OF assms]
  show "\<not> starts_with ''addr:'' n"
  proof
    assume "starts_with ''addr:'' n"
    then obtain t where "n = ''addr'' @ CHR '':'' # t" by (auto simp: starts_with_append)
    with n show False by (metis starts_with_self)
  qed
  show "\<not> starts_with ''addr:'' (n @ '':'')"
  proof
    assume "starts_with ''addr:'' (n @ '':'')"
    then obtain t where "n @ '':'' = ''addr'' @ CHR '':'' # t" by (auto simp: starts_with_append)
    then have "n = ''addr'' @ butlast (CHR '':'' # t)"
      by (metis butlast_append butlast_snoc list.distinct(1))
    with n show False by (metis starts_with_self)
  qed
qed

lemma quiet_header:
  assumes "plain_name n" and "suf = [] \<or> suf = '':''" and "rest = [] \<or> isspace (hd rest)"
    and "extract_tokens api (tokens rest) = []"
  shows "extract_inet_address api (n @ suf @ rest) = []" "first_token (n @ suf @ rest) = n @ suf"
    "normalize_name (n @ suf) = n" "n @ suf @ rest \<noteq> []" "\<not> isspace (hd (n @ suf @ rest))"
proof -
  note n = plain_name_facts [OF assms(1)]
  have word: "n @ suf \<noteq> []" "\<And>c. c \<in> set (n @ suf) \<Longrightarrow> \<not> isspace c"
    using n assms(2) by (auto simp: isspace_def)
  have "tokens ((n @ suf) @ rest) = (n @ suf) # tokens rest"
    using word assms(3) by (rule tokens_append_word)
  moreover have "n @ suf \<noteq> ''inet''"
    using n(3) assms(2) arg_cong [of "n @ suf" "''inet''" last] by auto
  moreover have "\<not> starts_with ''addr:'' (n @ suf)"
    using assms(2) starts_with_addr_colon [OF assms(1)] by auto
  ultimately show "extract_inet_address api (n @ suf @ rest) = []"
    using assms(4) by (simp add: extract_inet_address_tokens)
  show "first_token (n @ suf @ rest) = n @ suf"
    using first_token_word [OF word assms(3)] by simp
  show "normalize_name (n @ suf) = n"
    using assms(1,2) normalize_plain normalize_colon by auto
  show "n @ suf @ rest \<noteq> []" using n(1) by simp
  show "\<not> isspace (hd (n @ suf @ rest))" using n(1,5) by (cases n) auto
qed

section \<open>The three formats\<close>

text \<open>The layouts that the sources' comments and the embedded sample of
\<open>run_mock_mode\<close> show: net-tools, busybox and iproute2, for one interface.\<close>

definition net_tools_lines :: "RemoteInterface \<Rightarrow> string list" where
  "net_tools_lines r =
     [ri_name r @ '':'' @ '' flags=4163<UP,BROADCAST,RUNNING,MULTICAST>  mtu 1500'',
      ''        '' @ ''inet '' @ [] @ ri_ipv4 r @ [] @ ''  netmask 255.255.255.0  broadcast 192.168.10.255'',
      ''        inet6 fe80::1  prefixlen 64  scopeid 0x20<link>'',
      ''        ether 00:0c:29:4a:1b:2c  txqueuelen 1000  (Ethernet)'',
      []]"

definition busybox_lines :: "RemoteInterface \<Rightarrow> string list" where
  "busybox_lines r =
     [ri_name r @ [] @ ''     Link encap:Ethernet  HWaddr 00:0C:29:4A:1B:2C'',
      ''          '' @ ''inet '' @ ''addr:'' @ ri_ipv4 r @ [] @ ''  Bcast:192.168.10.255  Mask:255.255.255.0'',
      ''          inet6 addr: fe80::20c:29ff:fe4a:1b2c/64 Scope:Link'',
      ''          UP BROADCAST RUNNING MULTICAST  MTU:1500  Metric:1'',
      []]"

definition ip_addr_lines :: "nat \<Rightarrow> RemoteInterface \<Rightarrow> string list" where
  "ip_addr_lines i r =
     [dec_of_nat i @ '':'' @ CHR '' '' # ri_name r @ '':'' @ '' <BROADCAST,MULTICAST,UP,LOWER_UP> mtu 1500 qdisc fq_codel state UP group default qlen 1000'',
      ''    '' @ ''inet '' @ [] @ ri_ipv4 r @ ''/24'' @ '' brd 192.168.10.255 scope global'',
      ''       valid_lft forever preferred_lft forever'']"

lemma literal_tokens:
  "extract_tokens api (tokens '' flags=4163<UP,BROADCAST,RUNNING,MULTICAST>  mtu 1500'') = []"
  "extract_tokens api (tokens ''     Link encap:Ethernet  HWaddr 00:0C:29:4A:1B:2C'') = []"
  "extract_inet_address api ''        inet6 fe80::1  prefixlen 64  scopeid 0x20<link>'' = []"
  "extract_inet_address api ''        ether 00:0c:29:4a:1b:2c  txqueuelen 1000  (Ethernet)'' = []"
  "extract_inet_address api ''          UP BROADCAST RUNNING MULTICAST  MTU:1500  Metric:1'' = []"
  "extract_inet_address api ''       valid_lft forever preferred_lft forever'' = []"
proof -
  have t: "tokens '' flags=4163<UP,BROADCAST,RUNNING,MULTICAST>  mtu 1500''
      = [''flags=4163<UP,BROADCAST,RUNNING,MULTICAST>'', ''mtu'', ''1500'']"
    "tokens ''     Link encap:Ethernet  HWaddr 00:0C:29:4A:1B:2C''
      = [''Link'', ''encap:Ethernet'', ''HWaddr'', ''00:0C:29:4A:1B:2C'']"
    "tokens ''        inet6 fe80::1  prefixlen 64  scopeid 0x20<link>''
      = [''inet6'', ''fe80::1'', ''prefixlen'', ''64'', ''scopeid'', ''0x20<link>'']"
    "tokens ''        ether 00:0c:29:4a:1b:2c  txqueuelen 1000  (Ethernet)''
      = [''ether'', ''00:0c:29:4a:1b:2c'', ''txqueuelen'', ''1000'', ''(Ethernet)'']"
    "tokens ''          UP BROADCAST RUNNING MULTICAST  MTU:1500  Metric:1''
      = [''UP'', ''BROADCAST'', ''RUNNING'', ''MULTICAST'', ''MTU:1500'', ''Metric:1'']"
    "tokens ''       valid_lft forever preferred_lft forever''
      = [''valid_lft'', ''forever'', ''preferred_lft'', ''forever'']"
    by code_simp+
  show "extract_tokens api (tokens '' flags=4163<UP,BROADCAST,RUNNING,MULTICAST>  mtu 1500'') = []"
    "extract_tokens api (tokens ''     Link encap:Ethernet  HWaddr 00:0C:29:4A:1B:2C'') = []"
    "extract_inet_address api ''        inet6 fe80::1  prefixlen 64  scopeid 0x20<link>'' = []"
    "extract_inet_address api ''        ether 00:0c:29:4a:1b:2c  txqueuelen 1000  (Ethernet)'' = []"
    "extract_inet_address api ''          UP BROADCAST RUNNING MULTICAST  MTU:1500  Metric:1'' = []"
    "extract_inet_address api ''       valid_lft forever preferred_lft forever'' = []"
    unfolding extract_inet_address_tokens t by simp_all
qed

lemma net_tools_items:
  assumes "plain_interface api r"
  shows "ifconfig_items api cur (net_tools_lines r @ ls) = r # ifconfig_items api (ri_name r) ls"
proof -
  have n: "plain_name (ri_name r)" and a: "plain_address api (ri_ipv4 r)"
    using assms by (simp_all add: plain_interface_def)
  let ?rest = "'' flags=4163<UP,BROADCAST,RUNNING,MULTICAST>  mtu 1500''"
  have "?rest = [] \<or> isspace (hd ?rest)" by (simp add: isspace_def)
  note h = quiet_header [OF n, of "'':''" ?rest api, OF _ this literal_tokens(1), simplified]
  let ?after = "''  netmask 255.255.255.0  broadcast 192.168.10.255''"
  have i: "extract_inet_address api (''        '' @ ''inet '' @ [] @ ri_ipv4 r @ [] @ ?after) = ri_ipv4 r"
    by (rule extract_inet_line [OF a]) (auto simp: isspace_def)
  show ?thesis
    using h i n a literal_tokens(3,4) [of api]
    by (simp add: net_tools_lines_def isspace_def Let_def plain_name_def plain_address_def)
qed

lemma busybox_items:
  assumes "plain_interface api r" and "inet_pton api [] = None"
  shows "ifconfig_items api cur (busybox_lines r @ ls) = r # ifconfig_items api (ri_name r) ls"
proof -
  have n: "plain_name (ri_name r)" and a: "plain_address api (ri_ipv4 r)"
    using assms by (simp_all add: plain_interface_def)
  let ?rest = "''     Link encap:Ethernet  HWaddr 00:0C:29:4A:1B:2C''"
  have "?rest = [] \<or> isspace (hd ?rest)" by (simp add: isspace_def)
  note h = quiet_header [OF n, of "[]" ?rest api, OF _ this literal_tokens(2), simplified]
  let ?after = "''  Bcast:192.168.10.255  Mask:255.255.255.0''"
  have i: "extract_inet_address api (''          '' @ ''inet '' @ ''addr:'' @ ri_ipv4 r @ [] @ ?after) = ri_ipv4 r"
    by (rule extract_inet_line [OF a]) (auto simp: isspace_def)
  have "tokens ''          inet6 addr: fe80::20c:29ff:fe4a:1b2c/64 Scope:Link''
      = [''inet6'', ''addr:'', ''fe80::20c:29ff:fe4a:1b2c/64'', ''Scope:Link'']"
    by code_simp
  then have i6: "extract_inet_address api ''          inet6 addr: fe80::20c:29ff:fe4a:1b2c/64 Scope:Link'' = []"
    using assms(2) by (simp add: extract_inet_address_tokens check_candidate_def substr_from_def
        is_valid_ipv4_def c_str_def)
  show ?thesis
    using h i n a i6 literal_tokens(5) [of api]
    by (simp add: busybox_lines_def isspace_def Let_def plain_name_def plain_address_def)
qed

lemma trim_between:
  assumes "\<And>c. c \<in> set b \<Longrightarrow> c \<in> set blanks" and "s \<noteq> []"
    and "hd s \<notin> set blanks" and "last s \<notin> set blanks"
  shows "trim (b @ s) = s"
proof -
  have "hd (rev (b @ s)) \<notin> set blanks" "rev (b @ s) \<noteq> []"
    using assms(2,4) by (auto simp: hd_rev)
  then have "dropWhile (\<lambda>c. c \<in> set blanks) (rev (b @ s)) = rev (b @ s)"
    by (cases "rev (b @ s)") auto
  moreover have "dropWhile (\<lambda>c. c \<in> set blanks) (b @ s) = s"
    using assms(1-3) by (cases s) (simp_all add: dropWhile_append_stop)
  ultimately show ?thesis by (simp add: trim_eq)
qed

lemma second_token_two:
  assumes "v \<noteq> []" "\<And>c. c \<in> set v \<Longrightarrow> \<not> isspace c" and "w \<noteq> []" "\<And>c. c \<in> set w \<Longrightarrow> \<not> isspace c"
    and "s = [] \<or> isspace (hd s)"
  shows "second_token (v @ CHR '' '' # w @ s) = w"
  using read_token_append_word [OF assms(1,2), of "CHR '' '' # w @ s"] first_token_word [OF assms(3-5)]
  by (simp add: second_token_def first_token_def isspace_def)

lemma plain_name_dec: "plain_name (dec_of_nat i)"
proof -
  have d: "c \<in> set (dec_of_nat i) \<Longrightarrow> isdigit c" for c by (rule dec_of_nat_digits)
  have "last (dec_of_nat i) \<noteq> CHR '':''"
    using d [of "last (dec_of_nat i)"] by (auto simp: isdigit_def)
  moreover have "dec_of_nat i \<noteq> ''inet''" using d [of "CHR ''i''"] by (auto simp: isdigit_def)
  moreover have "\<not> starts_with ''addr'' (dec_of_nat i)"
    using d [of "CHR ''a''"] by (auto simp: isdigit_def starts_with_append)
  ultimately show ?thesis
    using d by (auto simp: plain_name_def list_all_iff isdigit_not_space) (auto simp: isdigit_def dest: d)
qed

lemma ip_addr_header:
  assumes "plain_name n" and "rest = [] \<or> isspace (hd rest)"
    and "l = dec_of_nat i @ '':'' @ CHR '' '' # n @ '':'' @ rest" and "last l \<notin> set blanks"
  shows "trim l = l" "isdigit (hd l)" "CHR '':'' \<in> set l" "normalize_name (second_token l) = n" "l \<noteq> []"
    "normalize_name (first_token l) = dec_of_nat i" "\<not> isspace (hd l)"
    "tokens l = (dec_of_nat i @ '':'') # (n @ '':'') # tokens rest"
proof -
  have d: "\<And>c. c \<in> set (dec_of_nat i @ '':'') \<Longrightarrow> \<not> isspace c" "dec_of_nat i @ '':'' \<noteq> []"
    using dec_of_nat_digits isdigit_not_space by (auto simp: isspace_def)
  have w: "\<And>c. c \<in> set (n @ '':'') \<Longrightarrow> \<not> isspace c" "n @ '':'' \<noteq> []"
    using plain_name_facts(5) [OF assms(1)] by (auto simp: isspace_def)
  show dig: "isdigit (hd l)" and ne: "l \<noteq> []"
    using assms(3) dec_of_nat_digits [of "hd (dec_of_nat i)" i] by simp_all
  then show "\<not> isspace (hd l)" by (simp add: isdigit_not_space)
  then have "hd l \<notin> set blanks" using blanks_space by blast
  with ne assms(4) show "trim l = l" using trim_between [of "[]" l] by simp
  show "CHR '':'' \<in> set l" using assms(3) by simp
  have "second_token ((dec_of_nat i @ '':'') @ CHR '' '' # (n @ '':'') @ rest) = n @ '':''"
    using d w assms(2) by (intro second_token_two) auto
  then show "normalize_name (second_token l) = n"
    using normalize_colon [OF assms(1)] assms(3) by simp
  have "first_token ((dec_of_nat i @ '':'') @ CHR '' '' # n @ '':'' @ rest) = dec_of_nat i @ '':''"
    using d by (intro first_token_word) (auto simp: isspace_def)
  moreover have "plain_name (dec_of_nat i)" by (rule plain_name_dec)
  ultimately show "normalize_name (first_token l) = dec_of_nat i"
    using normalize_colon assms(3) by simp
  have "tokens ((dec_of_nat i @ '':'') @ CHR '' '' # (n @ '':'') @ rest)
      = (dec_of_nat i @ '':'') # tokens (CHR '' '' # (n @ '':'') @ rest)"
    using d by (intro tokens_append_word) (auto simp: isspace_def)
  also have "tokens (CHR '' '' # (n @ '':'') @ rest) = tokens ((n @ '':'') @ rest)"
    by (rule tokens_blank) (simp add: isspace_def)
  also have "\<dots> = (n @ '':'') # tokens rest"
    using w(2,1) assms(2) by (rule tokens_append_word)
  finally show "tokens l = (dec_of_nat i @ '':'') # (n @ '':'') # tokens rest" using assms(3) by simp
qed

lemma ip_addr_block:
  assumes "plain_interface api r"
  shows "ip_addr_items api cur (ip_addr_lines i r @ ls) = r # ip_addr_items api (ri_name r) ls"
    and "ifconfig_items api cur (ip_addr_lines i r @ ls) =
       \<lparr>ri_name = dec_of_nat i, ri_ipv4 = ri_ipv4 r\<rparr> # ifconfig_items api (dec_of_nat i) ls"
proof -
  have n: "plain_name (ri_name r)" and a: "plain_address api (ri_ipv4 r)"
    using assms by (simp_all add: plain_interface_def)
  let ?rest = "'' <BROADCAST,MULTICAST,UP,LOWER_UP> mtu 1500 qdisc fq_codel state UP group default qlen 1000''"
  let ?h = "dec_of_nat i @ '':'' @ CHR '' '' # ri_name r @ '':'' @ ?rest"
  let ?after = "'' brd 192.168.10.255 scope global''"
  let ?inet = "''inet '' @ [] @ ri_ipv4 r @ ''/24'' @ ?after"
  let ?valid = "''valid_lft forever preferred_lft forever''"
  have "?rest = [] \<or> isspace (hd ?rest)" "last ?h \<notin> set blanks"
    by (simp_all add: isspace_def blanks_def)
  note h = ip_addr_header [OF n this(1) refl this(2)]
  have "tokens ?rest = [''<BROADCAST,MULTICAST,UP,LOWER_UP>'', ''mtu'', ''1500'', ''qdisc'',
      ''fq_codel'', ''state'', ''UP'', ''group'', ''default'', ''qlen'', ''1000'']"
    by code_simp
  moreover have "dec_of_nat i @ '':'' \<noteq> ''inet''" "ri_name r @ '':'' \<noteq> ''inet''"
    using arg_cong [of "dec_of_nat i @ '':''" "''inet''" last]
      arg_cong [of "ri_name r @ '':''" "''inet''" last] by auto
  moreover have "\<not> starts_with ''addr:'' (dec_of_nat i @ '':'')"
    "\<not> starts_with ''addr:'' (ri_name r @ '':'')"
    using quiet_header(1) starts_with_addr_colon [OF n] starts_with_addr_colon [OF plain_name_dec] by auto
  ultimately have quiet: "extract_inet_address api ?h = []"
    unfolding extract_inet_address_tokens h(8) by simp
  have inet: "extract_inet_address api (''    '' @ ?inet) = ri_ipv4 r"
    by (rule extract_inet_line [OF a]) (auto simp: isspace_def)
  have ti: "trim (''    '' @ ?inet) = ?inet"
    by (rule trim_between) (auto simp: blanks_def)
  have tv: "trim (''       '' @ ?valid) = ?valid"
    by (rule trim_between) (auto simp: blanks_def)
  show "ip_addr_items api cur (ip_addr_lines i r @ ls) = r # ip_addr_items api (ri_name r) ls"
    using h inet ti tv n a literal_tokens(6) [of api]
    by (simp add: ip_addr_lines_def Let_def plain_name_def plain_address_def isdigit_def)
  show "ifconfig_items api cur (ip_addr_lines i r @ ls) =
       \<lparr>ri_name = dec_of_nat i, ri_ipv4 = ri_ipv4 r\<rparr> # ifconfig_items api (dec_of_nat i) ls"
    using h quiet inet a literal_tokens(6) [of api]
    by (simp add: ip_addr_lines_def Let_def plain_address_def isspace_def)
qed

definition net_tools_text :: "RemoteInterface list \<Rightarrow> string" where
  "net_tools_text rs = text_of_lines (concat (map net_tools_lines rs))"

definition busybox_text :: "RemoteInterface list \<Rightarrow> string" where
  "busybox_text rs = text_of_lines (concat (map busybox_lines rs))"

definition ip_addr_text :: "RemoteInterface list \<Rightarrow> string" where
  "ip_addr_text rs = text_of_lines (concat (map (\<lambda>(i, r). ip_addr_lines i r) (List.enumerate 1 rs)))"

lemma plain_no_newline:
  assumes "plain_interface api r"
  shows "newline \<notin> set (ri_name r)" "newline \<notin> set (ri_ipv4 r)"
  using assms dotted_char_facts not_space_not_newline
  by (auto simp: plain_interface_def plain_name_def plain_address_def list_all_iff)

lemma dec_no_newline: "newline \<notin> set (dec_of_nat i)"
  using dec_of_nat_digits [of newline i] by (auto simp: isdigit_def)

lemma block_lines_no_newline:
  assumes "plain_interface api r"
  shows "l \<in> set (net_tools_lines r) \<Longrightarrow> newline \<notin> set l"
    "l \<in> set (busybox_lines r) \<Longrightarrow> newline \<notin> set l"
    "l \<in> set (ip_addr_lines i r) \<Longrightarrow> newline \<notin> set l"
  using plain_no_newline [OF assms] dec_no_newline [of i]
  by (auto simp: net_tools_lines_def busybox_lines_def ip_addr_lines_def)

lemma plain_reportable:
  assumes "plain_interface api r"
  shows "reportable (iface_key r) \<longleftrightarrow> \<not> is_loopback_interface_name (ri_name r)"
    and "reportable (dec_of_nat i, ri_ipv4 r)"
proof -
  show "reportable (iface_key r) \<longleftrightarrow> \<not> is_loopback_interface_name (ri_name r)"
    using assms by (auto simp: plain_interface_def plain_name_def plain_address_def reportable_def iface_key_def)
  have "dec_of_nat i \<noteq> ''lo''" "dec_of_nat i \<noteq> ''lo0''"
    using dec_of_nat_digits [of "CHR ''l''" i] by (auto simp: isdigit_def)
  then show "reportable (dec_of_nat i, ri_ipv4 r)"
    using assms by (auto simp: plain_interface_def plain_address_def reportable_def is_loopback_interface_name_def)
qed

lemma filter_plain_reportable:
  "\<forall>r \<in> set rs. plain_interface api r \<Longrightarrow>
     filter (\<lambda>r. reportable (iface_key r)) rs = filter (\<lambda>r. \<not> is_loopback_interface_name (ri_name r)) rs"
  by (intro filter_cong refl) (auto dest: plain_reportable)

lemma net_tools_parse:
  assumes "\<forall>r \<in> set rs. plain_interface api r"
  shows "parse_ifconfig_output api (net_tools_text rs) =
    firsts (filter (\<lambda>r. \<not> is_loopback_interface_name (ri_name r)) rs)"
proof -
  have "getlines (net_tools_text rs) = concat (map net_tools_lines rs)"
    unfolding net_tools_text_def using assms
    by (intro getlines_text_of_lines) (auto dest: block_lines_no_newline(1))
  moreover have "ifconfig_items api cur (concat (map net_tools_lines rs)) = rs" for cur
    using assms by (induction rs arbitrary: cur) (simp_all add: net_tools_items)
  ultimately show ?thesis
    using assms by (simp add: parse_ifconfig_items filter_plain_reportable)
qed

text \<open>C16: Printing any plain interfaces in the net-tools layout and parsing the text with
\<open>parse_ifconfig_output\<close> gives back exactly those interfaces, in order, without loopback and
duplicates.\<close>

theorem net_tools_roundtrip:
  assumes "\<forall>r \<in> set rs. plain_interface api r"
  shows "parse_ifconfig_output api (net_tools_text rs) =
    firsts (filter (\<lambda>r. \<not> is_loopback_interface_name (ri_name r)) rs)"
  by (rule net_tools_parse [OF assms])

lemma busybox_parse:
  assumes "\<forall>r \<in> set rs. plain_interface api r" and "inet_text api"
  shows "parse_ifconfig_output api (busybox_text rs) =
    firsts (filter (\<lambda>r. \<not> is_loopback_interface_name (ri_name r)) rs)"
proof -
  have "getlines (busybox_text rs) = concat (map busybox_lines rs)"
    unfolding busybox_text_def using assms(1)
    by (intro getlines_text_of_lines) (auto dest: block_lines_no_newline(2))
  moreover have "ifconfig_items api cur (concat (map busybox_lines rs)) = rs" for cur
    using assms(1) by (induction rs arbitrary: cur)
      (simp_all add: busybox_items inet_text.pton_empty [OF assms(2)])
  ultimately show ?thesis
    using assms(1) by (simp add: parse_ifconfig_items filter_plain_reportable)
qed

text \<open>The same holds for the busybox layout with its \<open>inet addr:\<close> prefix and its
\<open>inet6 addr:\<close> line, when \<open>inet_pton\<close> refuses the empty string.\<close>

theorem busybox_roundtrip:
  assumes "\<forall>r \<in> set rs. plain_interface api r" and "inet_text api"
  shows "parse_ifconfig_output api (busybox_text rs) =
    firsts (filter (\<lambda>r. \<not> is_loopback_interface_name (ri_name r)) rs)"
  by (rule busybox_parse [OF assms])

lemma in_enumerateD: "(i, r) \<in> set (List.enumerate n rs) \<Longrightarrow> r \<in> set rs"
  by (metis enumerate_eq_zip set_zip_rightD)

lemma ip_addr_getlines:
  assumes "\<forall>r \<in> set rs. plain_interface api r"
  shows "getlines (ip_addr_text rs) = concat (map (\<lambda>(i, r). ip_addr_lines i r) (List.enumerate 1 rs))"
  unfolding ip_addr_text_def using assms
  by (intro getlines_text_of_lines)
    (auto dest!: in_enumerateD dest: block_lines_no_newline(3))

lemma ip_addr_parse:
  assumes "\<forall>r \<in> set rs. plain_interface api r"
  shows "parse_ip_addr_output api (ip_addr_text rs) =
    firsts (filter (\<lambda>r. \<not> is_loopback_interface_name (ri_name r)) rs)"
proof -
  have "ip_addr_items api cur (concat (map (\<lambda>(i, r). ip_addr_lines i r) (List.enumerate k rs))) = rs" for cur k
    using assms by (induction rs arbitrary: cur k) (simp_all add: ip_addr_block(1))
  then show ?thesis
    using assms by (simp add: parse_ip_addr_items filter_plain_reportable ip_addr_getlines)
qed

text \<open>C17: \<open>parse_ip_addr_output\<close> gives back the interfaces printed in the layout of
\<open>ip -4 addr\<close>, its index and the prefix length stripped.\<close>

theorem ip_addr_roundtrip:
  assumes "\<forall>r \<in> set rs. plain_interface api r"
  shows "parse_ip_addr_output api (ip_addr_text rs) =
    firsts (filter (\<lambda>r. \<not> is_loopback_interface_name (ri_name r)) rs)"
  by (rule ip_addr_parse [OF assms])

text \<open>The texts survive a file in text mode.\<close>

definition file_interface :: "inet_api \<Rightarrow> RemoteInterface \<Rightarrow> bool" where
  "file_interface api r \<longleftrightarrow> plain_interface api r \<and> ctrl_z \<notin> set (ri_name r)"

definition untouched :: "char \<Rightarrow> bool" where
  "untouched c \<longleftrightarrow> c \<noteq> carriage_return \<and> c \<noteq> ctrl_z"

lemma clean_text_untouched: "clean_text s \<longleftrightarrow> list_all untouched s"
  by (auto simp: clean_text_def untouched_def list_all_iff)

lemma clean_text_of_lines: "list_all (list_all untouched) ls \<Longrightarrow> clean_text (text_of_lines ls)"
  by (induction ls) (auto simp: clean_text_untouched text_of_lines_def untouched_def)

lemma dotted_char_untouched: "dotted_char c \<Longrightarrow> untouched c"
  by (auto simp: dotted_char_def isdigit_def untouched_def)

lemma file_interface_untouched:
  assumes "file_interface api r"
  shows "list_all untouched (ri_name r)" and "list_all untouched (ri_ipv4 r)"
proof -
  have "isspace carriage_return" by (simp add: isspace_def)
  with assms show "list_all untouched (ri_name r)"
    by (auto simp: file_interface_def plain_interface_def plain_name_def list_all_iff untouched_def)
  show "list_all untouched (ri_ipv4 r)"
    using assms dotted_char_untouched
    by (auto simp: file_interface_def plain_interface_def plain_address_def list_all_iff)
qed

lemma dec_untouched: "list_all untouched (dec_of_nat i)"
  using dec_of_nat_digits [of _ i] dotted_char_untouched by (auto simp: list_all_iff dotted_char_def)

lemma file_lines_untouched:
  assumes "file_interface api r"
  shows "list_all (list_all untouched) (net_tools_lines r)" and "list_all (list_all untouched) (ip_addr_lines i r)"
  using file_interface_untouched [OF assms] dec_untouched [of i]
  by (simp_all add: net_tools_lines_def ip_addr_lines_def) (simp_all add: untouched_def)

lemma file_texts_clean:
  assumes "list_all (file_interface api) rs"
  shows "clean_text (net_tools_text rs)" and "clean_text (ip_addr_text rs)"
proof -
  show "clean_text (net_tools_text rs)" unfolding net_tools_text_def
    using assms file_lines_untouched(1) by (intro clean_text_of_lines) (auto simp: list_all_iff)
  show "clean_text (ip_addr_text rs)" unfolding ip_addr_text_def
    using assms file_lines_untouched(2) by (intro clean_text_of_lines) (fastforce simp: list_all_iff dest: in_enumerateD)
qed

text \<open>On the output of \<open>ip -4 addr\<close>, \<open>parse_ifconfig_output\<close> does not return an empty list
but every address, that of the loopback included, under the index of its line as its name. So
\<open>run_mock_mode\<close>, which falls back to \<open>parse_ip_addr_output\<close> only on an empty list, never
reaches the right parser for such a text.\<close>

lemma ifconfig_parser_misreads_ip_addr:
  assumes "\<forall>r \<in> set rs. plain_interface api r"
  shows "parse_ifconfig_output api (ip_addr_text rs) =
    map (\<lambda>(i, r). \<lparr>ri_name = dec_of_nat i, ri_ipv4 = ri_ipv4 r\<rparr>) (List.enumerate 1 rs)"
proof -
  let ?f = "\<lambda>(i, r). \<lparr>ri_name = dec_of_nat i, ri_ipv4 = ri_ipv4 r\<rparr>"
  have items: "ifconfig_items api cur (concat (map (\<lambda>(i, r). ip_addr_lines i r) (List.enumerate k rs)))
      = map ?f (List.enumerate k rs)" for cur k
    using assms by (induction rs arbitrary: cur k) (simp_all add: ip_addr_block(2))
  have all: "filter (\<lambda>r. reportable (iface_key r)) (map ?f (List.enumerate 1 rs)) = map ?f (List.enumerate 1 rs)"
    using assms plain_reportable(2)
    by (intro filter_True) (auto simp: iface_key_def dest!: in_enumerateD)
  have "distinct (map ?f (List.enumerate 1 rs))"
  proof (rule distinct_map [THEN iffD2], intro conjI)
    show "distinct (List.enumerate 1 rs)" by (rule distinct_enumerate)
    show "inj_on ?f (set (List.enumerate 1 rs))"
      by (auto simp: inj_on_def in_set_enumerate_eq dest!: arg_cong [where f = dec_val] simp: dec_val_dec_of_nat)
  qed
  then have "firsts (map ?f (List.enumerate 1 rs)) = map ?f (List.enumerate 1 rs)"
    by (rule firsts_distinct)
  then show ?thesis
    unfolding parse_ifconfig_items ip_addr_getlines [OF assms] items all .
qed

definition sample_interfaces :: "RemoteInterface list" where
  "sample_interfaces =
     [\<lparr>ri_name = ''lo'', ri_ipv4 = ''127.0.0.1''\<rparr>,
      \<lparr>ri_name = ''eth0'', ri_ipv4 = ''192.168.10.50''\<rparr>,
      \<lparr>ri_name = ''eth1'', ri_ipv4 = ''10.20.30.1''\<rparr>]"

lemma sample_interfaces_plain: "\<forall>r \<in> set sample_interfaces. plain_interface dotted_api r"
  by code_simp

lemma sample_interfaces_file: "list_all (file_interface dotted_api) sample_interfaces"
  by code_simp

theorem net_tools_roundtrip_witness:
  "parse_ifconfig_output dotted_api (net_tools_text sample_interfaces) = tl sample_interfaces"
  using net_tools_roundtrip [OF sample_interfaces_plain]
  by (simp add: sample_interfaces_def is_loopback_interface_name_def)

theorem busybox_roundtrip_witness:
  "parse_ifconfig_output dotted_api (busybox_text sample_interfaces) = tl sample_interfaces"
  using busybox_roundtrip [OF sample_interfaces_plain dotted.inet_text_axioms]
  by (simp add: sample_interfaces_def is_loopback_interface_name_def)

theorem ip_addr_roundtrip_witness:
  "parse_ip_addr_output dotted_api (ip_addr_text sample_interfaces) = tl sample_interfaces"
  using ip_addr_roundtrip [OF sample_interfaces_plain]
  by (simp add: sample_interfaces_def is_loopback_interface_name_def)

lemma small_decimals:
  "dec_of_nat (Suc 0) = ''1''" "dec_of_nat (Suc (Suc 0)) = ''2''"
  "dec_of_nat (Suc (Suc (Suc 0))) = ''3''"
  by code_simp+

lemma sample_misread:
  "map ri_name (parse_ifconfig_output dotted_api (ip_addr_text sample_interfaces)) = [''1'', ''2'', ''3'']"
  using ifconfig_parser_misreads_ip_addr [OF sample_interfaces_plain]
  by (simp add: sample_interfaces_def small_decimals)

end
