(* ===== verification/Report_Json.thy ===== *)
theory Report_Json
  imports Formatter
begin

text \<open>
  A reader of the JSON texts that reports consist of (objects, arrays and strings, with white
  space anywhere the grammar allows it), and the proof that \<open>format_json\<close> of any report is read
  back as the report's data.
\<close>

section \<open>A reader of JSON\<close>

datatype json = JString string | JArray "json list" | JObject "(string \<times> json) list"

definition json_space :: "char \<Rightarrow> bool" where
  "json_space c \<longleftrightarrow> c = CHR '' '' \<or> c = tab \<or> c = newline \<or> c = carriage_return"

fun skip_blanks :: "string \<Rightarrow> string" where
  "skip_blanks [] = []"
| "skip_blanks (c # s) = (if json_space c then skip_blanks s else c # s)"

definition hex_val :: "char \<Rightarrow> nat option" where
  "hex_val c =
     (if 48 \<le> code c \<and> code c \<le> 57 then Some (code c - 48)
      else if 97 \<le> code c \<and> code c \<le> 102 then Some (code c - 87)
      else if 65 \<le> code c \<and> code c \<le> 70 then Some (code c - 55)
      else None)"

text \<open>One escape sequence after the backslash; code points above 255 are refused.\<close>

fun json_unescape :: "string \<Rightarrow> (char \<times> string) option" where
  "json_unescape [] = None"
| "json_unescape (c # s) =
     (if c = CHR 0x22 \<or> c = CHR 0x5C \<or> c = CHR ''/'' then Some (c, s)
      else if c = CHR ''n'' then Some (newline, s)
      else if c = CHR ''r'' then Some (carriage_return, s)
      else if c = CHR ''t'' then Some (tab, s)
      else if c = CHR ''b'' then Some (CHR 0x08, s)
      else if c = CHR ''f'' then Some (CHR 0x0C, s)
      else if c = CHR ''u'' then
        (case s of h3 # h2 # h1 # h0 # r \<Rightarrow>
           (case (hex_val h3, hex_val h2, hex_val h1, hex_val h0) of
              (Some d3, Some d2, Some d1, Some d0) \<Rightarrow>
                if d3 = 0 \<and> d2 = 0 then Some (char_of (16 * d1 + d0), r) else None
            | _ \<Rightarrow> None)
         | _ \<Rightarrow> None)
      else None)"

lemma json_unescape_shorter: "json_unescape s = Some (c, r) \<Longrightarrow> length r < length s"
  by (cases s) (auto split: if_splits list.splits option.splits)

text \<open>The rest of a string literal after its opening quote.\<close>

function json_chars :: "string \<Rightarrow> (string \<times> string) option" where
  "json_chars s = (case s of
       [] \<Rightarrow> None
     | c # r \<Rightarrow>
         if c = CHR 0x22 then Some ([], r)
         else if c = CHR 0x5C then
           (case json_unescape r of None \<Rightarrow> None
            | Some (x, r') \<Rightarrow> map_option (apfst ((#) x)) (json_chars r'))
         else if code c < 0x20 then None
         else map_option (apfst ((#) c)) (json_chars r))"
  by pat_completeness auto
termination
  by (relation "measure length") (auto dest: json_unescape_shorter)

declare json_chars.simps [simp del]

text \<open>
  Values, the elements of an array and the members of an object after the opening bracket; the
  first argument bounds the number of nested calls.
\<close>

fun json_value :: "nat \<Rightarrow> string \<Rightarrow> (json \<times> string) option"
and json_items :: "nat \<Rightarrow> string \<Rightarrow> (json list \<times> string) option"
and json_members :: "nat \<Rightarrow> string \<Rightarrow> ((string \<times> json) list \<times> string) option" where
  "json_value 0 s = None"
| "json_value (Suc n) s = (case skip_blanks s of
       [] \<Rightarrow> None
     | c # r \<Rightarrow>
         if c = CHR 0x22 then map_option (apfst JString) (json_chars r)
         else if c = CHR ''['' then
           (if starts_with '']'' (skip_blanks r) then Some (JArray [], tl (skip_blanks r))
            else map_option (apfst JArray) (json_items n r))
         else if c = CHR ''{'' then
           (if starts_with ''}'' (skip_blanks r) then Some (JObject [], tl (skip_blanks r))
            else map_option (apfst JObject) (json_members n r))
         else None)"
| "json_items 0 s = None"
| "json_items (Suc n) s = (case json_value n s of
       None \<Rightarrow> None
     | Some (v, r) \<Rightarrow>
         if starts_with '','' (skip_blanks r) then map_option (apfst ((#) v)) (json_items n (tl (skip_blanks r)))
         else if starts_with '']'' (skip_blanks r) then Some ([v], tl (skip_blanks r))
         else None)"
| "json_members 0 s = None"
| "json_members (Suc n) s = (case skip_blanks s of
       [] \<Rightarrow> None
     | c # r \<Rightarrow>
         if c \<noteq> CHR 0x22 then None
         else (case json_chars r of
             None \<Rightarrow> None
           | Some (k, r1) \<Rightarrow>
               if \<not> starts_with '':'' (skip_blanks r1) then None
               else (case json_value n (tl (skip_blanks r1)) of
                   None \<Rightarrow> None
                 | Some (v, r2) \<Rightarrow>
                     if starts_with '','' (skip_blanks r2)
                     then map_option (apfst ((#) (k, v))) (json_members n (tl (skip_blanks r2)))
                     else if starts_with ''}'' (skip_blanks r2) then Some ([(k, v)], tl (skip_blanks r2))
                     else None)))"

text \<open>A text is a JSON text when one value and white space make up all of it.\<close>

definition json_parse :: "string \<Rightarrow> json option" where
  "json_parse s = (case json_value (length s) s of
       Some (v, r) \<Rightarrow> if skip_blanks r = [] then Some v else None
     | None \<Rightarrow> None)"

definition json_of_interface :: "RemoteInterface \<Rightarrow> json" where
  "json_of_interface r = JObject [(''name'', JString (ri_name r)), (''ipv4'', JString (ri_ipv4 r))]"

definition json_of_report :: "DiscoveryReport \<Rightarrow> json" where
  "json_of_report report = JObject
     [(''ssh_ip'', JString (rep_ssh_ip report)),
      (''ssh_banner'', JString (rep_ssh_banner report)),
      (''local_interface'', JString (rep_interface_name report)),
      (''discovery_stage'', JString (rep_discovery_stage report)),
      (''host_key_status'', JString (rep_host_key_status report)),
      (''interfaces'', JArray (map json_of_interface (rep_interfaces report))),
      (''warnings'', JArray (map JString (rep_warnings report)))]"

section \<open>Escaping\<close>

lemma hex_val_digit: "d < 16 \<Longrightarrow> hex_val (digit_char d) = Some d"
  by (auto simp: hex_val_def digit_char_def)

lemma json_chars_char:
  "json_chars (json_char c @ s) = map_option (apfst ((#) c)) (json_chars s)"
proof -
  consider "c = CHR 0x22" | "c = CHR 0x5C" | "c = newline" | "c = carriage_return" | "c = tab"
    | (control) "c \<notin> {CHR 0x22, CHR 0x5C, newline, carriage_return, tab}" "code c < 0x20"
    | (plain) "c \<notin> {CHR 0x22, CHR 0x5C, newline, carriage_return, tab}" "\<not> code c < 0x20"
    by blast
  then show ?thesis
  proof cases
    case control
    have u: "unat (of_char c :: u8) = code c"
      by (simp add: unat_of_nat of_char_def)
    have zero: "hex_val CHR ''0'' = Some 0" by (simp add: hex_val_def)
    have "json_unescape (CHR ''u'' # ''00'' @ hex2 (of_char c) @ s) = Some (c, s)"
      using control(2) zero by (simp add: hex2_def u hex_val_digit)
    with control show ?thesis
      by (subst json_chars.simps) (simp add: json_char_def)
  next
    case plain
    then show ?thesis by (subst json_chars.simps) (simp add: json_char_def)
  qed (subst json_chars.simps, simp add: json_char_def)+
qed

lemma json_chars_escape: "json_chars (json_escape v @ CHR 0x22 # s) = Some (v, s)"
proof (induction v)
  case Nil
  show ?case by (subst json_chars.simps) (simp add: json_escape_def)
next
  case (Cons c v)
  then show ?case by (simp add: json_escape_def json_chars_char)
qed


section \<open>Reading a report back\<close>

lemma json_space_literals [simp]:
  "json_space CHR '' ''" "json_space newline" "\<not> json_space CHR 0x22" "\<not> json_space CHR '',''"
  "\<not> json_space CHR ''[''" "\<not> json_space CHR '']''" "\<not> json_space CHR ''{''"
  "\<not> json_space CHR ''}''" "\<not> json_space CHR '':''"
  by (simp_all add: json_space_def)

lemma json_chars_literal:
  "json_chars (k @ CHR 0x22 # s) = Some (k, s)" if "\<forall>c \<in> set k. json_char c = [c]"
proof -
  have "json_escape k = k" using that by (induction k) (simp_all add: json_escape_def)
  then show ?thesis using json_chars_escape [of k s] by simp
qed

declare json_value.simps [simp del] json_items.simps [simp del] json_members.simps [simp del]

lemma json_fuel_mono:
  "json_value n s = Some x \<Longrightarrow> json_value (Suc n) s = Some x"
  "json_items n s = Some y \<Longrightarrow> json_items (Suc n) s = Some y"
  "json_members n s = Some z \<Longrightarrow> json_members (Suc n) s = Some z"
proof (induction n s and n s and n s arbitrary: x and y and z
    rule: json_value_json_items_json_members.induct)
  case (2 n s)
  then show ?case
    by (auto simp: json_value.simps(2) [of n s] json_value.simps(2) [of "Suc n" s]
        split: list.splits if_splits)
next
  case (4 n s)
  then show ?case
    by (auto simp: json_items.simps(2) [of n s] json_items.simps(2) [of "Suc n" s]
        split: option.splits if_splits prod.splits)
next
  case (6 n s)
  then show ?case
    by (auto simp: json_members.simps(2) [of n s] json_members.simps(2) [of "Suc n" s]
        split: option.splits if_splits prod.splits list.splits)
qed (simp_all add: json_value.simps json_items.simps json_members.simps)

definition reads :: "nat \<Rightarrow> string \<Rightarrow> json \<Rightarrow> bool" where
  "reads n text v \<longleftrightarrow> (\<forall>s. json_value n (text @ s) = Some (v, s))"

lemma json_value_mono: "json_value n s = Some x \<Longrightarrow> n \<le> m \<Longrightarrow> json_value m s = Some x"
  by (induction m) (auto simp: le_Suc_eq intro: json_fuel_mono(1))

lemma reads_mono: "reads n text v \<Longrightarrow> n \<le> m \<Longrightarrow> reads m text v"
  unfolding reads_def using json_value_mono by blast

lemma reads_space: "json_space c \<Longrightarrow> reads n text v \<Longrightarrow> reads n (c # text) v"
  by (cases n) (simp_all add: reads_def json_value.simps)

lemma reads_string: "0 < n \<Longrightarrow> reads n (quoted (json_escape v)) (JString v)"
  by (cases n) (simp_all add: reads_def quoted_def json_chars_escape json_value.simps)

lemma value_reads: "0 < n \<Longrightarrow> reads n (CHR '' '' # quoted (json_escape v)) (JString v)"
  by (intro reads_space reads_string) simp_all

definition json_field :: "string \<Rightarrow> string \<Rightarrow> string \<Rightarrow> string" where
  "json_field key vt rest = CHR 0x22 # key @ CHR 0x22 # CHR '':'' # vt @ rest"

lemma members_cons:
  assumes "\<forall>c \<in> set k. json_char c = [c]" "reads n vt v" "json_members n t = Some (kvs, s)"
  shows "json_members (Suc n) (CHR 0x22 # k @ CHR 0x22 # CHR '':'' # vt @ CHR '','' # t) = Some ((k, v) # kvs, s)"
  using assms by (simp add: json_chars_literal reads_def json_members.simps)

lemma members_last:
  assumes "\<forall>c \<in> set k. json_char c = [c]" "reads n vt v" "skip_blanks t = CHR ''}'' # s"
  shows "json_members (Suc n) (CHR 0x22 # k @ CHR 0x22 # CHR '':'' # vt @ t) = Some ([(k, v)], s)"
  using assms by (simp add: json_chars_literal reads_def json_members.simps)

lemma members_space: "json_space c \<Longrightarrow> json_members n (c # t) = json_members n t"
  by (cases n) (simp_all add: json_members.simps)

lemma items_cons:
  assumes "reads n vt v" "json_items n t = Some (vs, s)"
  shows "json_items (Suc n) (vt @ CHR '','' # t) = Some (v # vs, s)"
  using assms by (simp add: reads_def json_items.simps)

lemma items_last:
  assumes "reads n vt v" "skip_blanks t = CHR '']'' # s"
  shows "json_items (Suc n) (vt @ t) = Some ([v], s)"
  using assms by (simp add: reads_def json_items.simps)


lemma json_interface_reads: "4 \<le> n \<Longrightarrow> reads n (json_interface r) (json_of_interface r)"
proof (rule reads_mono)
  show "reads 4 (json_interface r) (json_of_interface r)"
    unfolding reads_def
  proof
    fix s
    let ?t2 = "CHR 0x22 # ''ipv4'' @ CHR 0x22 # CHR '':'' # (CHR '' '' # quoted (json_escape (ri_ipv4 r)))
       @ newline # ''    }'' @ s"
    let ?t1 = "CHR 0x22 # ''name'' @ CHR 0x22 # CHR '':'' # (CHR '' '' # quoted (json_escape (ri_name r)))
       @ CHR '','' # newline # ''      '' @ ?t2"
    have "json_members 2 ?t2 = Some ([(''ipv4'', JString (ri_ipv4 r))], s)"
      using members_last [OF _ value_reads [of 1 "ri_ipv4 r"], of "''ipv4''"]
      by (simp add: json_char_def numeral_2_eq_2)
    then have "json_members 3 ?t1
        = Some ([(''name'', JString (ri_name r)), (''ipv4'', JString (ri_ipv4 r))], s)"
      using members_cons [OF _ value_reads [of 2 "ri_name r"], of "''name''"]
      by (simp add: json_char_def numeral_3_eq_3 numeral_2_eq_2 members_space)
    then show "json_value 4 (json_interface r @ s) = Some (json_of_interface r, s)"
      by (simp add: json_value.simps numeral_nat json_interface_def put_line_def json_member_def
          quoted_def json_of_interface_def members_space)
  qed
qed

lemma json_elements_read:
  assumes "list_all2 (reads n) es vs" and "es \<noteq> []" and "skip_blanks t = CHR '']'' # s"
  shows "json_items (length es + n) (json_elements True es @ t) = Some (vs, s)"
  using assms(1,2)
proof (induction rule: list_all2_induct)
  case Nil
  then show ?case by simp
next
  case (Cons e es v vs)
  note e = reads_space [OF json_space_literals(2) Cons.hyps(1)]
  show ?case
  proof (cases es)
    case Nil
    with Cons.hyps(2) show ?thesis
      using items_last [OF e assms(3)] by simp
  next
    case (Cons e' es')
    then have "json_elements True (e # es) = (newline # e) @ CHR '','' # json_elements True es"
      by simp
    moreover have "reads (length es + n) (newline # e) v" using e by (rule reads_mono) simp
    ultimately show ?thesis
      using items_cons Cons.IH Cons by (metis add_Suc append.assoc append_Cons length_Cons list.distinct(1))
  qed
qed

lemma json_value_bracket: "starts_with '']'' (skip_blanks u) \<Longrightarrow> json_value m u = None"
  by (cases m) (auto simp: json_value.simps starts_with_append)

lemma json_array_reads:
  assumes "list_all2 (reads n) es vs" and "0 < n"
  shows "reads (Suc (length es + n)) (CHR '' '' # json_array es) (JArray vs)"
proof (rule reads_space)
  show "reads (Suc (length es + n)) (json_array es) (JArray vs)"
    unfolding reads_def
  proof
    fix s
    show "json_value (Suc (length es + n)) (json_array es @ s) = Some (JArray vs, s)"
    proof (cases es)
      case Nil
      with assms(1) show ?thesis by (simp add: json_array_def json_value.simps)
    next
      case (Cons e es')
      have *: "json_items (length es + n) (json_elements True es @ newline # ''  ]'' @ s) = Some (vs, s)"
        using assms(1) Cons by (intro json_elements_read) auto
      have "\<not> starts_with '']'' (skip_blanks (json_elements True es @ newline # ''  ]'' @ s))"
      proof
        assume b: "starts_with '']'' (skip_blanks (json_elements True es @ newline # ''  ]'' @ s))"
        obtain m where m: "length es + n = Suc m" using assms(2) by (cases "length es + n") auto
        from json_value_bracket [OF b]
        have "json_items (length es + n) (json_elements True es @ newline # ''  ]'' @ s) = None"
          unfolding m json_items.simps by simp
        with * show False by simp
      qed
      with * Cons show ?thesis by (simp add: json_array_def json_value.simps)
    qed
  qed
qed simp

lemma json_array_reads':
  assumes "\<And>x. x \<in> set xs \<Longrightarrow> reads m (f x) (g x)" and "0 < m" and "Suc (length xs + m) \<le> n"
  shows "reads n (CHR '' '' # json_array (map f xs)) (JArray (map g xs))"
proof -
  have "list_all2 (reads m) (map f xs) (map g xs)"
    using assms(1) by (simp add: list_all2_conv_all_nth)
  from json_array_reads [OF this assms(2)] show ?thesis
    by (rule reads_mono) (simp add: assms(3))
qed

definition json_comma :: "string \<Rightarrow> string" where
  "json_comma t = CHR '','' # newline # ''  '' @ t"

lemma format_json_members:
  "format_json report = CHR ''{'' # newline # ''  '' @
     json_field ''ssh_ip'' (CHR '' '' # quoted (json_escape (rep_ssh_ip report))) (json_comma (
     json_field ''ssh_banner'' (CHR '' '' # quoted (json_escape (rep_ssh_banner report))) (json_comma (
     json_field ''local_interface'' (CHR '' '' # quoted (json_escape (rep_interface_name report))) (json_comma (
     json_field ''discovery_stage'' (CHR '' '' # quoted (json_escape (rep_discovery_stage report))) (json_comma (
     json_field ''host_key_status'' (CHR '' '' # quoted (json_escape (rep_host_key_status report))) (json_comma (
     json_field ''interfaces'' (CHR '' '' # json_array (map json_interface (rep_interfaces report))) (json_comma (
     json_field ''warnings'' (CHR '' '' # json_array (map (\<lambda>w. ''    '' @ quoted (json_escape w)) (rep_warnings report)))
       (newline # CHR ''}'' # [newline])))))))))))))"
  by (simp add: format_json_def put_line_def json_member_def quoted_def json_field_def json_comma_def)

lemma field_cons:
  assumes "reads n vt v" "json_members n t = Some (kvs, s)" "\<forall>c \<in> set k. json_char c = [c]"
  shows "json_members (Suc n) (json_field k vt (json_comma t)) = Some ((k, v) # kvs, s)"
  using members_cons [OF assms(3,1), of "newline # ''  '' @ t"] assms(2)
  by (simp add: json_field_def json_comma_def members_space)

lemma field_last:
  assumes "reads n vt v" "skip_blanks t = CHR ''}'' # s" "\<forall>c \<in> set k. json_char c = [c]"
  shows "json_members (Suc n) (json_field k vt t) = Some ([(k, v)], s)"
  using members_last [OF assms(3,1,2)] by (simp add: json_field_def)

lemma length_json_elements: "length es \<le> length (json_elements b es)"
  by (induction es arbitrary: b) (auto intro: le_SucI trans_le_add2)

lemma length_json_array: "length es \<le> length (json_array es)"
  using length_json_elements [of es True] by (simp add: json_array_def)

text \<open>C18: The machine readable report is a JSON text whatever strings the report holds: a JSON
reader accepts it and reads back exactly the report's fields, in order, with all their characters,
so no banner, name or warning can break out of its string.\<close>

theorem format_json_roundtrip: "json_parse (format_json report) = Some (json_of_report report)"
proof -
  let ?l = "length (rep_interfaces report) + length (rep_warnings report)"
  have w: "reads (Suc (?l + 4)) (CHR '' '' # json_array (map (\<lambda>w. ''    '' @ quoted (json_escape w)) (rep_warnings report)))
      (JArray (map JString (rep_warnings report)))"
    by (rule json_array_reads' [of _ 1]) (auto intro!: reads_space reads_string)
  have i: "reads (Suc (Suc (?l + 4))) (CHR '' '' # json_array (map json_interface (rep_interfaces report)))
      (JArray (map json_of_interface (rep_interfaces report)))"
    by (rule json_array_reads' [of _ 4]) (auto intro!: json_interface_reads)
  have "json_members (Suc (Suc (Suc (Suc (Suc (Suc (Suc (Suc (?l + 4)))))))))
      (json_field ''ssh_ip'' (CHR '' '' # quoted (json_escape (rep_ssh_ip report))) (json_comma (
     json_field ''ssh_banner'' (CHR '' '' # quoted (json_escape (rep_ssh_banner report))) (json_comma (
     json_field ''local_interface'' (CHR '' '' # quoted (json_escape (rep_interface_name report))) (json_comma (
     json_field ''discovery_stage'' (CHR '' '' # quoted (json_escape (rep_discovery_stage report))) (json_comma (
     json_field ''host_key_status'' (CHR '' '' # quoted (json_escape (rep_host_key_status report))) (json_comma (
     json_field ''interfaces'' (CHR '' '' # json_array (map json_interface (rep_interfaces report))) (json_comma (
     json_field ''warnings'' (CHR '' '' # json_array (map (\<lambda>w. ''    '' @ quoted (json_escape w)) (rep_warnings report)))
       (newline # CHR ''}'' # [newline])))))))))))))) = Some (case json_of_report report of JObject kvs \<Rightarrow> kvs, [newline])"
    unfolding json_of_report_def json.case
    by (rule field_cons field_last value_reads w i zero_less_Suc | simp add: json_char_def)+
  then have members: "json_members (?l + 12) (tl (format_json report))
      = Some (case json_of_report report of JObject kvs \<Rightarrow> kvs, [newline])"
    unfolding format_json_members by (simp add: members_space numeral_nat)
  have "\<not> starts_with ''}'' (skip_blanks (tl (format_json report)))"
    by (simp add: format_json_members json_field_def)
  moreover have "hd (format_json report) = CHR ''{''" "format_json report \<noteq> []"
    by (simp_all add: format_json_members)
  ultimately have "json_value (?l + 13) (format_json report) = Some (json_of_report report, [newline])"
    using members by (cases "format_json report") (simp_all add: json_value.simps json_of_report_def numeral_nat)
  moreover have "?l + 13 \<le> length (format_json report)"
    using length_json_array [of "map json_interface (rep_interfaces report)"]
      length_json_array [of "map (\<lambda>w. ''    '' @ quoted (json_escape w)) (rep_warnings report)"]
    by (simp add: format_json_members json_field_def json_comma_def)
  ultimately have "json_value (length (format_json report)) (format_json report) = Some (json_of_report report, [newline])"
    by (rule json_value_mono)
  then show ?thesis by (simp add: json_parse_def)
qed

end
