(* ===== verification/Port_Scanner.thy ===== *)
theory Port_Scanner
  imports Platform
begin

text \<open>
  \<open>src/src/scanner/port_scanner.cpp\<close>: one TCP connection attempt with a bounded wait. The output
  parameter \<open>out_socket\<close> is the second component of the result. The contract that the callers
  rely on, which socket is open afterwards, is the locale \<open>tcp_connector\<close>.
\<close>

section \<open>Data\<close>

datatype ConnectResult = Connected | Refused | TimedOut | Unreachable | Error

definition WSAECONNREFUSED :: int where "WSAECONNREFUSED = 10061"
definition WSAETIMEDOUT :: int where "WSAETIMEDOUT = 10060"
definition WSAEHOSTUNREACH :: int where "WSAEHOSTUNREACH = 10065"
definition WSAENETUNREACH :: int where "WSAENETUNREACH = 10051"
definition WSAEHOSTDOWN :: int where "WSAEHOSTDOWN = 10064"
definition WSAENETDOWN :: int where "WSAENETDOWN = 10050"
definition WSAEWOULDBLOCK :: int where "WSAEWOULDBLOCK = 10035"
definition WSAEINPROGRESS :: int where "WSAEINPROGRESS = 10036"

definition classify :: "int \<Rightarrow> ConnectResult" where
  "classify error_code =
     (if error_code = 0 then Connected
      else if error_code = WSAECONNREFUSED then Refused
      else if error_code = WSAETIMEDOUT then TimedOut
      else if error_code \<in> {WSAEHOSTUNREACH, WSAENETUNREACH, WSAEHOSTDOWN, WSAENETDOWN}
      then Unreachable
      else Error)"

fun connect_result_text :: "ConnectResult \<Rightarrow> string" where
  "connect_result_text Connected = ''connected''"
| "connect_result_text Refused = ''connection refused''"
| "connect_result_text TimedOut = ''timed out''"
| "connect_result_text Unreachable = ''unreachable''"
| "connect_result_text Error = ''error''"

definition await_connection ::
  "os \<Rightarrow> socket_t \<Rightarrow> milliseconds \<Rightarrow> (ConnectResult \<times> socket_t) io" where
  "await_connection os handle timeout = do {
     poll_rc \<leftarrow> wait_for_socket os handle True timeout;
     if poll_rc = 0 then do { _ \<leftarrow> close_socket handle; return (TimedOut, kInvalidSocket) }
     else if poll_rc < 0 then do { _ \<leftarrow> close_socket handle; return (Error, kInvalidSocket) }
     else do {
       (ok, so_error) \<leftarrow> syscall (os_SO_ERROR os handle) (\<lambda>(ok, e). Sock (Ev_SO_ERROR handle ok e));
       if \<not> ok then do { _ \<leftarrow> close_socket handle; return (Error, kInvalidSocket) }
       else if so_error \<noteq> 0 then do { _ \<leftarrow> close_socket handle; return (classify so_error, kInvalidSocket) }
       else return (Connected, handle)
     }
   }"

definition tcp_connect ::
  "os \<Rightarrow> string \<Rightarrow> u16 \<Rightarrow> milliseconds \<Rightarrow> (ConnectResult \<times> socket_t) io" where
  "tcp_connect os ip port timeout = do {
     initialised \<leftarrow> ensure_winsock_initialised os;
     if \<not> initialised then return (Error, kInvalidSocket)
     else case inet_pton (os_inet os) (c_str ip) of
       None \<Rightarrow> return (Error, kInvalidSocket)
     | Some address \<Rightarrow> do {
         handle \<leftarrow> syscall (os_socket os Sock_stream) (Sock \<circ> Ev_socket Sock_stream);
         if handle = kInvalidSocket then return (Error, kInvalidSocket)
         else do {
           non_blocking \<leftarrow> set_non_blocking os handle;
           if \<not> non_blocking then do { _ \<leftarrow> close_socket handle; return (Error, kInvalidSocket) }
           else do {
             rc \<leftarrow> syscall (os_connect os handle address port) (Sock \<circ> Ev_connect handle address port);
             if rc = 0 then return (Connected, handle)
             else do {
               connect_error \<leftarrow> last_socket_error os;
               if connect_error \<noteq> WSAEWOULDBLOCK \<and> connect_error \<noteq> WSAEINPROGRESS
               then do { _ \<leftarrow> close_socket handle; return (classify connect_error, kInvalidSocket) }
               else await_connection os handle timeout
             }
           }
         }
       }
   }"

definition tcp_probe :: "os \<Rightarrow> string \<Rightarrow> u16 \<Rightarrow> milliseconds \<Rightarrow> ConnectResult io" where
  "tcp_probe os ip port timeout = do {
     (result, handle) \<leftarrow> tcp_connect os ip port timeout;
     _ \<leftarrow> close_socket handle;
     return result
   }"

definition connection_evidence :: "socket_t \<Rightarrow> event \<Rightarrow> bool" where
  "connection_evidence h e \<longleftrightarrow>
     (\<exists>a p. e = Sock (Ev_connect h a p 0)) \<or> e = Sock (Ev_SO_ERROR h True 0)"

text \<open>Documented behaviour of Winsock: a failed \<open>connect\<close> leaves a non-zero last error.\<close>

definition reports_errors :: "os \<Rightarrow> bool" where
  "reports_errors os \<longleftrightarrow> (\<forall>t h a p rc. rc \<noteq> 0 \<longrightarrow>
     os_WSAGetLastError os (t @ [Sock (Ev_connect h a p rc)]) \<noteq> 0)"

lemma classify_Connected: "classify e = Connected \<longleftrightarrow> e = 0"
  by (auto simp: classify_def)

lemma await_connection_cases:
  assumes "run_state (await_connection os h timeout) t = ((r, h'), t')" "h \<noteq> kInvalidSocket"
  shows "h' = h \<and> r = Connected \<and> live_sockets t' = live_sockets t \<and> connection_evidence h (last t')
       \<or> h' = kInvalidSocket \<and> r \<noteq> Connected \<and> live_sockets t' = live_sockets t - {#h#}"
  using assms
  by (auto simp: await_connection_def wait_for_socket_def close_socket_def live_step_def split_beta
      connection_evidence_def classify_Connected live_sockets_append prod_eq_iff split: if_splits)

lemma tcp_connect_cases:
  assumes "run_state (tcp_connect os ip port timeout) t = ((r, h), t')"
  shows "h \<noteq> kInvalidSocket \<and> r = Connected \<and> live_sockets t' = live_sockets t + {#h#}
           \<and> connection_evidence h (last t')
       \<or> h = kInvalidSocket \<and> live_sockets t' = live_sockets t \<and> (reports_errors os \<longrightarrow> r \<noteq> Connected)"
proof -
  obtain ok t0 where init: "run_state (ensure_winsock_initialised os) t = (ok, t0)" by force
  have t0: "live_sockets t0 = live_sockets t"
    using live_ensure [of os t] init by simp
  define h0 where "h0 = os_socket os Sock_stream t0"
  define t1 where "t1 = t0 @ [Sock (Ev_socket Sock_stream h0)]"
  have t1: "live_sockets t1 = live_sockets t + owned h0"
    using t0 by (simp add: t1_def live_step_def owned_def)
  show ?thesis
  proof (cases "\<not> ok \<or> inet_pton (os_inet os) (c_str ip) = None \<or> h0 = kInvalidSocket")
    case True
    with assms init t0 t1 show ?thesis
      by (auto simp: tcp_connect_def h0_def t1_def owned_def live_step_def split: option.splits if_splits)
  next
    case False
    then obtain address where a: "inet_pton (os_inet os) (c_str ip) = Some address" by auto
    obtain nb t2 where nb: "run_state (set_non_blocking os h0) t1 = (nb, t2)" by force
    then have t2: "live_sockets t2 = live_sockets t1"
      by (intro keepsD [of live_sockets]) simp_all
    define rc where "rc = os_connect os h0 address port t2"
    define t3 where "t3 = t2 @ [Sock (Ev_connect h0 address port rc)]"
    have t3: "live_sockets t3 = live_sockets t + {#h0#}"
      using t1 t2 False by (simp add: t3_def live_step_def owned_def)
    obtain e t4 where e: "run_state (last_socket_error os) t3 = (e, t4)" by force
    then have t4: "live_sockets t4 = live_sockets t3"
      by (intro keepsD [of live_sockets]) simp_all
    have run: "run_state (tcp_connect os ip port timeout) t =
      (if \<not> nb then ((Error, kInvalidSocket), snd (run_state (close_socket h0) t2))
       else if rc = 0 then ((Connected, h0), t3)
       else if e \<noteq> WSAEWOULDBLOCK \<and> e \<noteq> WSAEINPROGRESS
       then ((classify e, kInvalidSocket), snd (run_state (close_socket h0) t4))
       else run_state (await_connection os h0 timeout) t4)"
      using False init a nb e
      by (simp add: tcp_connect_def split_beta h0_def [symmetric] t1_def [symmetric]
          rc_def [symmetric] t3_def [symmetric])
    have "reports_errors os \<Longrightarrow> rc \<noteq> 0 \<Longrightarrow> e \<noteq> 0"
      using e by (auto simp: reports_errors_def last_socket_error_def t3_def)
    then show ?thesis
      using assms False t1 t2 t3 t4 await_connection_cases [of os h0 timeout t4 r h t']
      unfolding run by (auto simp: owned_def connection_evidence_def t3_def classify_Connected split: if_splits)
  qed
qed

lemma tcp_connect_events:
  assumes "run_state (tcp_connect os ip port timeout) t = ((r, h), t')" and "h \<noteq> kInvalidSocket"
  shows "\<exists>es a rc. t' = t @ es \<and> inet_pton (os_inet os) (c_str ip) = Some a
    \<and> Sock (Ev_connect h a port rc) \<in> set es \<and> connection_evidence h (last es)"
proof -
  have "\<exists>es. t' = t @ es \<and> (\<exists>a rc. inet_pton (os_inet os) (c_str ip) = Some a
    \<and> Sock (Ev_connect h a port rc) \<in> set es) \<and> es \<noteq> []"
    using assms
    by (auto simp: tcp_connect_def ensure_winsock_initialised_def set_non_blocking_def last_socket_error_def
        await_connection_def wait_for_socket_def close_socket_def split_beta
        split: if_splits option.splits)
  moreover have "connection_evidence h (last t')" using tcp_connect_cases [OF assms(1)] assms(2) by blast
  ultimately show ?thesis by auto
qed

text \<open>A connection of socket \<open>h\<close> to the address that a host name denotes was asked for.\<close>

definition connected_to :: "os \<Rightarrow> string \<Rightarrow> u16 \<Rightarrow> socket_t \<Rightarrow> event list \<Rightarrow> bool" where
  "connected_to os host port h es \<longleftrightarrow>
     (\<exists>address rc. inet_pton (os_inet os) (c_str host) = Some address \<and> Sock (Ev_connect h address port rc) \<in> set es)"

lemma connected_to_append:
  "connected_to os host port h es \<Longrightarrow> connected_to os host port h (xs @ es @ ys)"
  by (auto simp: connected_to_def)

section \<open>The interface of a connection attempt\<close>

locale tcp_connector =
  fixes attempt :: "(ConnectResult \<times> socket_t) io"
  assumes attempt_owned: "run_state attempt t = ((r, h), t') \<Longrightarrow> live_sockets t' = live_sockets t + owned h"
    and attempt_handle: "run_state attempt t = ((r, h), t') \<Longrightarrow> h \<noteq> kInvalidSocket \<Longrightarrow> r = Connected"
begin

lemma attempt_then_close:
  assumes "\<And>r h. keeps live_sockets (body r h)"
  shows "keeps live_sockets
    (do { (r, h) \<leftarrow> attempt; x \<leftarrow> body r h; _ \<leftarrow> close_socket h; return x })"
  unfolding keeps_def
proof
  fix t
  obtain r h t1 where a: "run_state attempt t = ((r, h), t1)" by (metis surj_pair)
  obtain x t2 where b: "run_state (body r h) t1 = (x, t2)" by force
  show "live_sockets (snd (run_state
      (do { (r, h) \<leftarrow> attempt; x \<leftarrow> body r h; _ \<leftarrow> close_socket h; return x }) t)) = live_sockets t"
    using attempt_owned [OF a] keepsD [OF assms b] a b by (simp add: split_beta)
qed

lemma attempt_if_connected:
  assumes "\<And>h. keeps live_sockets (body h)" and "\<And>r. keeps live_sockets (other r)"
  shows "keeps live_sockets (do { (r, h) \<leftarrow> attempt;
     if r = Connected then do { x \<leftarrow> body h; _ \<leftarrow> close_socket h; return x } else other r })"
  unfolding keeps_def
proof
  fix t
  let ?m = "do { (r, h) \<leftarrow> attempt;
     if r = Connected then do { x \<leftarrow> body h; _ \<leftarrow> close_socket h; return x } else other r }"
  obtain r h t1 where a: "run_state attempt t = ((r, h), t1)" by (metis surj_pair)
  obtain x t2 where b: "run_state (body h) t1 = (x, t2)" by force
  show "live_sockets (snd (run_state ?m t)) = live_sockets t"
  proof (cases "r = Connected")
    case True
    then show ?thesis using attempt_owned [OF a] keepsD [OF assms(1) b] a b by (simp add: split_beta)
  next
    case False
    then have "h = kInvalidSocket" using attempt_handle [OF a] by blast
    then show ?thesis
      using False attempt_owned [OF a] a assms(2) [of r] by (simp add: owned_def keeps_def split_beta)
  qed
qed

end

interpretation tcp: tcp_connector "tcp_connect os ip port timeout" for os ip port timeout
  by unfold_locales (auto simp: owned_def dest: tcp_connect_cases)

lemma tcp_probe_keeps [simp]: "keeps live_sockets (tcp_probe os ip port timeout)"
  unfolding tcp_probe_def
  using tcp.attempt_then_close [of "\<lambda>r h. return r" os ip port timeout] by simp

section \<open>Properties\<close>

text \<open>For every environment, a connection attempt hands over exactly the socket it leaves open: the
open sockets after the call are those before it and the returned handle, and a returned handle comes
with \<open>Connected\<close> and with evidence as the last system call, a \<open>connect\<close> that succeeded at once
or \<open>SO_ERROR\<close> read as 0. If Winsock reports failures with a non-zero error, \<open>Connected\<close> always
comes with a handle.\<close>

theorem tcp_connect_ownership:
  assumes "run_state (tcp_connect os ip port timeout) t = ((result, handle), t')"
  shows "(live_sockets t' = live_sockets t + owned handle)
    \<and> (handle \<noteq> kInvalidSocket \<longrightarrow> result = Connected \<and> connection_evidence handle (last t'))
    \<and> (reports_errors os \<longrightarrow> result = Connected \<longrightarrow> handle \<noteq> kInvalidSocket)"
  using tcp_connect_cases [OF assms] by (auto simp: owned_def)

theorem tcp_connect_ownership_witness:
  "live_sockets (snd (run_state (tcp_connect sample_os ''10.0.0.7'' 22 750) [])) = {#7#}"
proof -
  obtain r h t' where run: "run_state (tcp_connect sample_os ''10.0.0.7'' 22 750) [] = ((r, h), t')"
    by (metis surj_pair)
  have "snd (fst (run_state (tcp_connect sample_os ''10.0.0.7'' 22 750) [])) = 7" by code_simp
  with run tcp_connect_ownership [OF run] show ?thesis by (simp add: owned_def kInvalidSocket_def)
qed

definition is_poll :: "event \<Rightarrow> bool" where
  "is_poll e = (case e of Sock (Ev_WSAPoll h w ms rc) \<Rightarrow> True | _ \<Rightarrow> False)"

definition polls_within :: "event list set \<Rightarrow> 'a io \<Rightarrow> bool" where
  "polls_within S m \<longleftrightarrow> (\<forall>t. \<exists>es. snd (run_state m t) = t @ es \<and> filter is_poll es \<in> S)"

lemma polls_within_return [simp]: "[] \<in> S \<Longrightarrow> polls_within S (return x)"
  by (simp add: polls_within_def)

lemma polls_within_syscall [simp]:
  "(\<And>x. \<not> is_poll (ev x)) \<Longrightarrow> [] \<in> S \<Longrightarrow> polls_within S (syscall answer ev)"
  by (simp add: polls_within_def)

lemma polls_within_bind:
  assumes "polls_within S m" and "\<And>x. polls_within T (k x)"
    and "\<And>xs ys. xs \<in> S \<Longrightarrow> ys \<in> T \<Longrightarrow> xs @ ys \<in> U"
  shows "polls_within U (m \<bind> k)"
  unfolding polls_within_def
proof
  fix t
  obtain es where es: "snd (run_state m t) = t @ es" "filter is_poll es \<in> S"
    using assms(1) by (auto simp: polls_within_def)
  obtain es' where "snd (run_state (k (fst (run_state m t))) (t @ es)) = (t @ es) @ es'"
    "filter is_poll es' \<in> T"
    using assms(2) [of "fst (run_state m t)"] unfolding polls_within_def by blast
  with es show "\<exists>es. snd (run_state (m \<bind> k) t) = t @ es \<and> filter is_poll es \<in> U"
    using assms(3) by (intro exI [of _ "es @ es'"]) (simp add: split_beta)
qed

lemma polls_within_quiet:
  "polls_within {[]} m \<Longrightarrow> (\<And>x. polls_within S (k x)) \<Longrightarrow> polls_within S (m \<bind> k)"
  by (rule polls_within_bind) auto

lemma polls_within_helpers [simp]:
  assumes "[] \<in> S"
  shows "polls_within S (close_socket h)" "polls_within S (last_socket_error os)"
    "polls_within S (set_non_blocking os h)" "polls_within S (ensure_winsock_initialised os)"
  using assms
  by (simp_all add: polls_within_def close_socket_def last_socket_error_def set_non_blocking_def
      ensure_winsock_initialised_def is_poll_def split: option.split)

lemma await_connection_polls:
  "polls_within (range (\<lambda>rc. [Sock (Ev_WSAPoll h True (poll_timeout timeout) rc)]))
     (await_connection os h timeout)"
  unfolding await_connection_def
proof (rule polls_within_bind [where T = "{[]}"])
  show "polls_within (range (\<lambda>rc. [Sock (Ev_WSAPoll h True (poll_timeout timeout) rc)]))
      (wait_for_socket os h True timeout)"
    by (simp add: polls_within_def wait_for_socket_def is_poll_def)
qed (auto intro!: polls_within_quiet simp: is_poll_def split: prod.split)

lemma tcp_connect_polls:
  "polls_within (insert [] {es. \<exists>h rc. es = [Sock (Ev_WSAPoll h True (poll_timeout timeout) rc)]})
     (tcp_connect os ip port timeout)"
proof -
  let ?S = "insert [] {es. \<exists>h rc. es = [Sock (Ev_WSAPoll h True (poll_timeout timeout) rc)]}"
  have await: "polls_within ?S (await_connection os h timeout)" for h
    using await_connection_polls [of h timeout os] unfolding polls_within_def by fast
  show ?thesis
    unfolding tcp_connect_def
    by (auto intro!: polls_within_quiet await simp: is_poll_def split: option.split)
qed

text \<open>A connection attempt waits at most once, for the handle it created to become writable,
with the caller's timeout converted to the 32-bit argument of \<open>WSAPoll\<close>; for timeouts below
2^31 milliseconds that is the timeout itself, so the attempt does not block longer.\<close>

theorem tcp_connect_waits_once:
  assumes "0 \<le> timeout" and "timeout < 2 ^ 31"
  shows "\<exists>es. snd (run_state (tcp_connect os ip port timeout) t) = t @ es \<and>
    (filter is_poll es = [] \<or> (\<exists>h rc. filter is_poll es = [Sock (Ev_WSAPoll h True timeout rc)]))"
  using tcp_connect_polls [of timeout os ip port] poll_timeout_small [OF assms]
  unfolding polls_within_def by auto

theorem tcp_connect_waits_once_witness:
  "\<exists>es. snd (run_state (tcp_connect sample_os ''10.0.0.7'' 22 750) []) = es \<and>
    (filter is_poll es = [] \<or> (\<exists>h rc. filter is_poll es = [Sock (Ev_WSAPoll h True 750 rc)]))"
  using tcp_connect_waits_once [of 750 sample_os "''10.0.0.7''" 22 "[]"] by simp

lemma poll_timeout_wraps:
  "poll_timeout (2 ^ 31) = - (2 ^ 31)" "poll_timeout (2 ^ 32) = 0" "poll_timeout 0 = 0"
  by code_simp+

text \<open>The conversion keeps only the low 32 bits: a timeout of 2^31 milliseconds becomes negative,
which \<open>WSAPoll\<close> takes as an unlimited wait, and one of 2^32 becomes a wait of zero.\<close>

theorem wait_for_socket_timeout_truncated:
  "(run_state (wait_for_socket os handle for_write (2 ^ 31)) t
     = run_state (syscall (os_WSAPoll os handle for_write (- (2 ^ 31))) (Sock \<circ> Ev_WSAPoll handle for_write (- (2 ^ 31)))) t)
    \<and> (run_state (wait_for_socket os handle for_write (2 ^ 32)) t
     = run_state (wait_for_socket os handle for_write 0) t)"
  using poll_timeout_wraps by (simp_all add: wait_for_socket_def)

end
