(* ===== verification/Ssh_Detector.thy ===== *)
theory Ssh_Detector
  imports Port_Scanner Config
begin

text \<open>
  \<open>src/src/scanner/ssh_detector.cpp\<close>: the identification of an SSH server. The loop of
  \<open>read_ssh_banner\<close> is a recursive function on the trace; it ends because every round that
  goes on adds a byte to a buffer of fewer than \<open>kMaxBannerBytes\<close> bytes.
\<close>

section \<open>Data\<close>

datatype SshProbeStatus = SshDetected | NotSsh | NoBanner | PortClosed | Timeout
  | HostUnreachable | ProbeError

record SshProbeResult =
  pr_ip :: string
  pr_status :: SshProbeStatus
  pr_banner :: string

definition is_ssh :: "SshProbeResult \<Rightarrow> bool" where
  "is_ssh r \<longleftrightarrow> pr_status r = SshDetected"

text \<open>A default-constructed result.\<close>

definition fresh_result :: "string \<Rightarrow> SshProbeResult" where
  "fresh_result ip = \<lparr>pr_ip = ip, pr_status = ProbeError, pr_banner = []\<rparr>"

fun probe_status_text :: "SshProbeStatus \<Rightarrow> string" where
  "probe_status_text SshDetected = ''ssh detected''"
| "probe_status_text NotSsh = ''port 22 is open but does not identify as SSH''"
| "probe_status_text NoBanner = ''port 22 is open but no SSH banner was received''"
| "probe_status_text PortClosed = ''port 22 is closed''"
| "probe_status_text Timeout = ''connection timed out''"
| "probe_status_text HostUnreachable = ''host unreachable''"
| "probe_status_text ProbeError = ''probe error''"

section \<open>The banner\<close>

definition kMaxBannerBytes :: nat where "kMaxBannerBytes = 512"

definition is_ssh_identification :: "string \<Rightarrow> bool" where
  "is_ssh_identification text = starts_with ''SSH-'' text"

fun sanitize_loop :: "string \<Rightarrow> string \<Rightarrow> string" where
  "sanitize_loop result [] = result"
| "sanitize_loop result (c # raw) =
     (if c = carriage_return \<or> c = newline then result
      else if 0x20 \<le> code c \<and> code c < 0x7f then sanitize_loop (result @ [c]) raw
      else sanitize_loop (result @ ''?'') raw)"

definition sanitize_banner :: "string \<Rightarrow> string" where
  "sanitize_banner raw = rev (dropWhile (\<lambda>c. c = CHR '' '') (rev (sanitize_loop [] raw)))"

section \<open>Reading the banner\<close>

text \<open>\<open>steady_clock\<close> counts nanoseconds.\<close>

definition kNanosPerMilli :: int where "kNanosPerMilli = 1000000"

function banner_loop :: "os \<Rightarrow> socket_t \<Rightarrow> int \<Rightarrow> string \<Rightarrow> trace \<Rightarrow> string \<times> trace" where
  "banner_loop os handle deadline buffer t =
     (let (now, t1) = run_state (syscall (os_now os) (Proc \<circ> Ev_now)) t
      in if deadline \<le> now then (buffer, t1)
         else
           let remaining = (deadline - now) div kNanosPerMilli;
               (poll_rc, t2) = run_state (wait_for_socket os handle False remaining) t1
           in if poll_rc \<le> 0 then (buffer, t2)
              else
                let (received, t3) =
                      run_state (syscall (os_recv os handle 128) (Sock \<circ> Ev_recv handle 128)) t2
                in case received of
                     Recv_error \<Rightarrow> (buffer, t3)
                   | Received bytes \<Rightarrow>
                       if bytes = [] then (buffer, t3)
                       else if newline \<in> set (buffer @ bytes) \<or> kMaxBannerBytes \<le> length (buffer @ bytes)
                       then (buffer @ bytes, t3)
                       else banner_loop os handle deadline (buffer @ bytes) t3)"
  by pat_completeness auto
termination
  by (relation "measure (\<lambda>(os, handle, deadline, buffer, t). kMaxBannerBytes - length buffer)")
    (auto simp: kMaxBannerBytes_def intro!: diff_less_mono2)

declare banner_loop.simps [simp del]

definition read_ssh_banner :: "os \<Rightarrow> socket_t \<Rightarrow> string \<Rightarrow> milliseconds \<Rightarrow> SshProbeResult io" where
  "read_ssh_banner os handle ip timeout = do {
     start \<leftarrow> syscall (os_now os) (Proc \<circ> Ev_now);
     let deadline = start + timeout * kNanosPerMilli;
     buffer \<leftarrow> State (banner_loop os handle deadline []);
     if buffer = [] then return ((fresh_result ip)\<lparr>pr_status := NoBanner\<rparr>)
     else do {
       let banner = sanitize_banner buffer;
       return ((fresh_result ip)
         \<lparr>pr_banner := banner,
          pr_status := (if is_ssh_identification banner then SshDetected else NotSsh)\<rparr>)
     }
   }"

fun failed_status :: "ConnectResult \<Rightarrow> SshProbeStatus" where
  "failed_status Connected = ProbeError"
| "failed_status Refused = PortClosed"
| "failed_status TimedOut = Timeout"
| "failed_status Unreachable = HostUnreachable"
| "failed_status Error = ProbeError"

definition probe_ssh ::
  "os \<Rightarrow> string \<Rightarrow> u16 \<Rightarrow> milliseconds \<Rightarrow> milliseconds \<Rightarrow> SshProbeResult io" where
  "probe_ssh os ip port connect_timeout banner_timeout = do {
     (connect_result, handle) \<leftarrow> tcp_connect os ip port connect_timeout;
     if connect_result = Connected then do {
       result \<leftarrow> read_ssh_banner os handle ip banner_timeout;
       _ \<leftarrow> close_socket handle;
       return result
     }
     else return ((fresh_result ip)\<lparr>pr_status := failed_status connect_result\<rparr>)
   }"

section \<open>Sanitising\<close>

definition printable :: "char \<Rightarrow> bool" where
  "printable c \<longleftrightarrow> 0x20 \<le> code c \<and> code c < 0x7f"

definition mask_char :: "char \<Rightarrow> char" where
  "mask_char c = (if printable c then c else CHR ''?'')"

lemma mask_char_plain: "mask_char c = x \<Longrightarrow> x \<noteq> CHR ''?'' \<Longrightarrow> c = x"
  by (auto simp: mask_char_def split: if_splits)

definition first_line :: "string \<Rightarrow> string" where
  "first_line s = takeWhile (\<lambda>c. c \<noteq> carriage_return \<and> c \<noteq> newline) s"

lemma sanitize_loop_eq: "sanitize_loop r s = r @ map mask_char (first_line s)"
  by (induction r s rule: sanitize_loop.induct)
    (auto simp: first_line_def mask_char_def printable_def)

lemma printable_mask [simp]: "printable (mask_char c)"
  by (simp add: mask_char_def printable_def)

lemma sanitize_banner_eq:
  "sanitize_banner s = rev (dropWhile (\<lambda>c. c = CHR '' '') (rev (map mask_char (first_line s))))"
  by (simp add: sanitize_banner_def sanitize_loop_eq)

lemma in_set_dropWhileD: "x \<in> set (dropWhile P xs) \<Longrightarrow> x \<in> set xs"
  by (metis dropWhile_eq_drop in_set_dropD)

lemma sanitize_printable: "c \<in> set (sanitize_banner s) \<Longrightarrow> printable c"
proof -
  assume "c \<in> set (sanitize_banner s)"
  then have "c \<in> set (dropWhile (\<lambda>c. c = CHR '' '') (rev (map mask_char (first_line s))))"
    unfolding sanitize_banner_eq set_rev .
  then have "c \<in> set (rev (map mask_char (first_line s)))" by (rule in_set_dropWhileD)
  then show ?thesis by auto
qed

lemma sanitize_no_trailing_space: "sanitize_banner s \<noteq> [] \<Longrightarrow> last (sanitize_banner s) \<noteq> CHR '' ''"
proof -
  let ?m = "rev (map mask_char (first_line s))" and ?P = "\<lambda>c. c = CHR '' ''"
  assume "sanitize_banner s \<noteq> []"
  then have "dropWhile ?P ?m \<noteq> []" unfolding sanitize_banner_eq rev_is_Nil_conv .
  then have "hd (dropWhile ?P ?m) \<noteq> CHR '' ''" by (rule hd_dropWhile)
  then show ?thesis unfolding sanitize_banner_eq last_rev .
qed

lemma sanitize_clean:
  assumes "\<forall>c \<in> set s. printable c" and "s = [] \<or> last s \<noteq> CHR '' ''"
  shows "sanitize_banner s = s"
proof -
  have "first_line s = s" unfolding first_line_def
    using assms(1) by (intro takeWhile_all) (auto simp: printable_def)
  moreover have "map mask_char s = s" using assms(1) by (intro map_idI) (simp add: mask_char_def)
  moreover have "dropWhile (\<lambda>c. c = CHR '' '') (rev s) = rev s"
    using assms(2) by (cases s rule: rev_cases) auto
  ultimately show ?thesis by (simp add: sanitize_banner_eq)
qed

lemma sanitize_idem: "sanitize_banner (sanitize_banner s) = sanitize_banner s"
  using sanitize_printable sanitize_no_trailing_space by (intro sanitize_clean) auto

lemma sanitize_complete_line:
  assumes "x \<in> {carriage_return, newline}"
  shows "sanitize_banner (l @ x # rest) = sanitize_banner (l @ [x])"
proof -
  have "first_line (l @ x # rest) = first_line (l @ [x])"
    using assms by (induction l) (auto simp: first_line_def)
  then show ?thesis by (simp add: sanitize_banner_eq)
qed

lemma sanitize_ssh:
  "is_ssh_identification (sanitize_banner s) \<longleftrightarrow> is_ssh_identification s"
proof -
  have m: "map mask_char (first_line s) = CHR ''S'' # CHR ''S'' # CHR ''H'' # CHR ''-'' # map mask_char (first_line r)"
    if "s = ''SSH-'' @ r" for r
    using that by (simp add: first_line_def mask_char_def printable_def)
  show ?thesis
  proof
    assume "is_ssh_identification s"
    then obtain r where r: "s = ''SSH-'' @ r" by (auto simp: is_ssh_identification_def starts_with_append)
    have "\<exists>q. sanitize_banner s = ''SSH-'' @ q"
    proof -
      let ?m = "map mask_char (first_line r)"
      have "sanitize_banner s = rev (dropWhile (\<lambda>c. c = CHR '' '') (rev ?m @ ''-HSS''))"
        using m [OF r] by (simp add: sanitize_banner_eq)
      also have "\<dots> = ''SSH-'' @ rev (dropWhile (\<lambda>c. c = CHR '' '') (rev ?m))"
        by (cases "\<forall>c \<in> set (rev ?m). c = CHR '' ''") (auto simp: dropWhile_append)
      finally show ?thesis by blast
    qed
    then show "is_ssh_identification (sanitize_banner s)"
      by (auto simp: is_ssh_identification_def starts_with_append)
  next
    assume "is_ssh_identification (sanitize_banner s)"
    then obtain q where "sanitize_banner s = ''SSH-'' @ q"
      by (auto simp: is_ssh_identification_def starts_with_append)
    moreover have "\<exists>p. map mask_char (first_line s) = sanitize_banner s @ p"
      unfolding sanitize_banner_eq by (metis rev_append rev_rev_ident takeWhile_dropWhile_id)
    ultimately obtain p where "map mask_char (first_line s) = ''SSH-'' @ p" by auto
    then obtain p' where "first_line s = ''SSH-'' @ p'"
      by (auto simp: map_eq_Cons_conv dest!: mask_char_plain)
    then have "\<exists>p''. s = ''SSH-'' @ p''"
      unfolding first_line_def by (metis append.assoc takeWhile_dropWhile_id)
    then show "is_ssh_identification s" by (auto simp: is_ssh_identification_def starts_with_append)
  qed
qed

text \<open>A sanitised banner consists of printable ASCII characters only, sanitising it again
changes nothing, and sanitising neither creates nor destroys an SSH identification: masking the
non-printable characters cannot turn other bytes into the prefix \<open>SSH-\<close>.\<close>

theorem sanitize_banner_safe:
  "(list_all printable (sanitize_banner raw))
    \<and> (sanitize_banner (sanitize_banner raw) = sanitize_banner raw)
    \<and> (is_ssh_identification (sanitize_banner raw) = is_ssh_identification raw)"
  using sanitize_printable sanitize_idem sanitize_ssh by (auto simp: list_all_iff)

section \<open>The rounds of the loop\<close>

definition clock_reading :: "os \<Rightarrow> trace \<Rightarrow> int \<Rightarrow> bool" where
  "clock_reading os t now \<longleftrightarrow> (\<exists>u. now = os_now os (t @ u))"

definition wait_event :: "socket_t \<Rightarrow> int \<Rightarrow> int \<Rightarrow> int \<Rightarrow> event" where
  "wait_event h d now rc = Sock (Ev_WSAPoll h False (poll_timeout ((d - now) div kNanosPerMilli)) rc)"

lemma wait_event_inj [simp]: "wait_event h d now rc = wait_event h d now rc' \<longleftrightarrow> rc = rc'"
  by (simp add: wait_event_def)

definition round_events :: "socket_t \<Rightarrow> int \<Rightarrow> int \<times> int \<times> string \<Rightarrow> event list" where
  "round_events h d = (\<lambda>(now, rc, bytes).
     [Proc (Ev_now now), wait_event h d now rc, Sock (Ev_recv h 128 (Received bytes))])"

definition full_round :: "os \<Rightarrow> trace \<Rightarrow> socket_t \<Rightarrow> int \<Rightarrow> int \<times> int \<times> string \<Rightarrow> bool" where
  "full_round os t h d = (\<lambda>(now, rc, bytes). clock_reading os t now \<and> now < d \<and> 0 < rc \<and> bytes \<noteq> []
     \<and> (\<exists>u. os_recv os h 128 u = Received bytes))"

definition round_bytes :: "(int \<times> int \<times> string) list \<Rightarrow> string" where
  "round_bytes rounds = concat (map (\<lambda>(now, rc, bytes). bytes) rounds)"

definition banner_full :: "string \<Rightarrow> bool" where
  "banner_full b \<longleftrightarrow> newline \<in> set b \<or> kMaxBannerBytes \<le> length b"

text \<open>How the loop ends: after a full round, or in the middle of one.\<close>

definition last_round :: "os \<Rightarrow> trace \<Rightarrow> socket_t \<Rightarrow> int \<Rightarrow> string \<Rightarrow> event list \<Rightarrow> bool" where
  "last_round os t h d b es \<longleftrightarrow>
     es = [] \<and> banner_full b
   \<or> (\<exists>now. d \<le> now \<and> es = [Proc (Ev_now now)])
   \<or> (\<exists>now rc. clock_reading os t now \<and> now < d \<and> rc \<le> 0 \<and> es = [Proc (Ev_now now), wait_event h d now rc])
   \<or> (\<exists>now rc x. clock_reading os t now \<and> now < d \<and> 0 < rc \<and> x \<in> {Recv_error, Received []}
        \<and> es = [Proc (Ev_now now), wait_event h d now rc, Sock (Ev_recv h 128 x)])"

lemma clock_reading_append: "clock_reading os (t @ u) now \<Longrightarrow> clock_reading os t now"
  by (auto simp: clock_reading_def)

lemma clock_reading_here: "clock_reading os t (os_now os t)"
  unfolding clock_reading_def by (rule exI [of _ "[]"]) simp

lemma full_round_append: "full_round os (t @ u) h d r \<Longrightarrow> full_round os t h d r"
  by (auto simp: full_round_def dest: clock_reading_append)

lemma last_round_append: "last_round os (t @ u) h d b es \<Longrightarrow> last_round os t h d b es"
  unfolding last_round_def using clock_reading_append by blast

definition loop_spec ::
  "os \<Rightarrow> socket_t \<Rightarrow> int \<Rightarrow> string \<Rightarrow> trace \<Rightarrow> string \<Rightarrow> trace \<Rightarrow> (int \<times> int \<times> string) list \<Rightarrow> event list \<Rightarrow> bool" where
  "loop_spec os h d b t b' t' rounds es \<longleftrightarrow>
     t' = t @ concat (map (round_events h d) rounds) @ es
   \<and> b' = b @ round_bytes rounds
   \<and> (\<forall>r \<in> set rounds. full_round os t h d r)
   \<and> last_round os t h d b' es
   \<and> (rounds \<noteq> [] \<longrightarrow> \<not> banner_full (b @ round_bytes (butlast rounds)))"

lemma loop_spec_round:
  assumes "loop_spec os h d (b @ bytes) (t @ round_events h d r) b' t' rounds es"
    and "full_round os t h d r" and "snd (snd r) = bytes" and "\<not> banner_full b"
    and "\<not> banner_full (b @ bytes)"
  shows "loop_spec os h d b t b' t' (r # rounds) es"
proof -
  have "round_bytes (butlast (r # rounds)) = (if rounds = [] then [] else bytes @ round_bytes (butlast rounds))"
    using assms(3) by (cases r) (simp add: round_bytes_def)
  then show ?thesis
    using assms full_round_append last_round_append
    unfolding loop_spec_def by (cases r) (auto simp: round_bytes_def)
qed

lemma banner_loop_rounds:
  assumes "banner_loop os h d b t = (b', t')" and "\<not> banner_full b"
  shows "\<exists>rounds es. loop_spec os h d b t b' t' rounds es"
  using assms
proof (induction "kMaxBannerBytes - length b" arbitrary: b t b' t' rule: less_induct)
  case less
  define now where "now = os_now os t"
  define t1 where "t1 = t @ [Proc (Ev_now now)]"
  define rc where "rc = os_WSAPoll os h False (poll_timeout ((d - now) div kNanosPerMilli)) t1"
  define t2 where "t2 = t1 @ [wait_event h d now rc]"
  define x where "x = os_recv os h 128 t2"
  have clock: "clock_reading os t now" unfolding now_def by (rule clock_reading_here)
  have stop: "\<exists>rounds es. loop_spec os h d b t b' t' rounds es"
    if "b' = b" "t' = t @ es" "last_round os t h d b es" for es
    using that by (intro exI [of _ "[]"] exI [of _ es]) (simp add: loop_spec_def round_bytes_def)
  have run: "banner_loop os h d b t = (if d \<le> now then (b, t1) else if rc \<le> 0 then (b, t2)
     else case x of Recv_error \<Rightarrow> (b, t2 @ [Sock (Ev_recv h 128 x)])
       | Received bytes \<Rightarrow> if bytes = [] then (b, t2 @ [Sock (Ev_recv h 128 x)])
           else if banner_full (b @ bytes) then (b @ bytes, t2 @ [Sock (Ev_recv h 128 x)])
           else banner_loop os h d (b @ bytes) (t2 @ [Sock (Ev_recv h 128 x)]))"
    by (subst banner_loop.simps)
      (simp add: now_def t1_def rc_def t2_def x_def wait_for_socket_def wait_event_def banner_full_def Let_def
        split: recv_result.split)
  show ?case
  proof (cases "d \<le> now \<or> rc \<le> 0 \<or> x \<in> {Recv_error, Received []}")
    case True
    with run less.prems(1) clock show ?thesis
      by (intro stop [of "drop (length t) t'"]) (auto simp: t1_def t2_def last_round_def not_le split: if_splits)
  next
    case False
    then obtain bytes where x: "x = Received bytes" "bytes \<noteq> []" by (cases x) auto
    let ?r = "(now, rc, bytes)"
    have full: "full_round os t h d ?r"
      using False clock x by (auto simp: full_round_def x_def)
    have t3: "t2 @ [Sock (Ev_recv h 128 x)] = t @ round_events h d ?r"
      by (simp add: t2_def t1_def round_events_def x)
    show ?thesis
    proof (cases "banner_full (b @ bytes)")
      case True
      with run False x less.prems full t3 show ?thesis
        by (intro exI [of _ "[?r]"] exI [of _ "[]"])
          (auto simp: loop_spec_def round_bytes_def last_round_def)
    next
      case notfull: False
      have "banner_loop os h d (b @ bytes) (t @ round_events h d ?r) = (b', t')"
        unfolding t3 [symmetric] using run False x notfull less.prems(1) by simp
      moreover have "kMaxBannerBytes - length (b @ bytes) < kMaxBannerBytes - length b"
        using x(2) notfull less.prems(2) by (auto simp: banner_full_def intro!: diff_less_mono2)
      ultimately have "\<exists>rounds es. loop_spec os h d (b @ bytes) (t @ round_events h d ?r) b' t' rounds es"
        using less.hyps notfull by blast
      then show ?thesis
        using loop_spec_round [OF _ full _ less.prems(2) notfull] by fastforce
    qed
  qed
qed

lemma round_bytes_append [simp]: "round_bytes (rs @ rs') = round_bytes rs @ round_bytes rs'"
  by (simp add: round_bytes_def)

lemma rounds_le_bytes: "\<forall>r \<in> set rounds. full_round os t h d r \<Longrightarrow> length rounds \<le> length (round_bytes rounds)"
  by (induction rounds) (auto simp: round_bytes_def full_round_def neq_Nil_conv)

lemma loop_spec_length:
  assumes "loop_spec os h d [] t b' t' rounds es"
  shows "length rounds \<le> kMaxBannerBytes" "length es \<le> 3"
proof -
  show "length es \<le> 3" using assms by (auto simp: loop_spec_def last_round_def)
  show "length rounds \<le> kMaxBannerBytes"
  proof (cases rounds rule: rev_cases)
    case (snoc rs r)
    have "length rs \<le> length (round_bytes rs)"
      using assms snoc by (intro rounds_le_bytes) (auto simp: loop_spec_def)
    also have "\<dots> < kMaxBannerBytes"
      using assms snoc by (simp add: loop_spec_def banner_full_def)
    finally show ?thesis using snoc by simp
  qed simp
qed

fun received :: "socket_t \<Rightarrow> trace \<Rightarrow> string" where
  "received h [] = []"
| "received h (e # es) =
     (case e of Sock s \<Rightarrow> (case s of Ev_recv h' n (Received bytes) \<Rightarrow> if h' = h then bytes else []
                           | _ \<Rightarrow> [])
      | _ \<Rightarrow> []) @ received h es"

lemma received_append [simp]: "received h (xs @ ys) = received h xs @ received h ys"
  by (induction xs) auto

lemma received_rounds: "received h (concat (map (round_events h d) rounds)) = round_bytes rounds"
  by (induction rounds) (auto simp: round_bytes_def round_events_def wait_event_def)

lemma received_last_round: "last_round os t h d b es \<Longrightarrow> received h es = []"
  by (auto simp: last_round_def wait_event_def)

lemma loop_spec_received: "loop_spec os h d b t b' t' rounds es \<Longrightarrow> received h es = []"
  unfolding loop_spec_def using received_last_round by blast

lemma read_ssh_banner_run:
  assumes "run_state (read_ssh_banner os h ip timeout) t = (res, t')"
  obtains start rounds es where
    "start = os_now os t"
    "loop_spec os h (start + timeout * kNanosPerMilli) [] (t @ [Proc (Ev_now start)]) (round_bytes rounds) t' rounds es"
    "res = \<lparr>pr_ip = ip,
       pr_status = (if round_bytes rounds = [] then NoBanner
         else if is_ssh_identification (sanitize_banner (round_bytes rounds)) then SshDetected else NotSsh),
       pr_banner = sanitize_banner (round_bytes rounds)\<rparr>"
proof -
  define start where "start = os_now os t"
  obtain b t2 where b2: "banner_loop os h (start + timeout * kNanosPerMilli) [] (t @ [Proc (Ev_now start)]) = (b, t2)"
    by force
  have "sanitize_banner [] = []" by (simp add: sanitize_banner_def)
  then have b: "banner_loop os h (start + timeout * kNanosPerMilli) [] (t @ [Proc (Ev_now start)]) = (b, t')"
    and res: "res = \<lparr>pr_ip = ip,
       pr_status = (if b = [] then NoBanner
         else if is_ssh_identification (sanitize_banner b) then SshDetected else NotSsh),
       pr_banner = sanitize_banner b\<rparr>"
    using assms b2 by (auto simp: read_ssh_banner_def start_def fresh_result_def Let_def split: if_splits)
  have "\<not> banner_full []" by (simp add: banner_full_def kMaxBannerBytes_def)
  from banner_loop_rounds [OF b this] obtain rounds es where
    l: "loop_spec os h (start + timeout * kNanosPerMilli) [] (t @ [Proc (Ev_now start)]) b t' rounds es" by blast
  then have "b = round_bytes rounds" by (simp add: loop_spec_def)
  with l res start_def that show thesis by metis
qed

text \<open>A probe, like every part of the program, leaves a started Winsock as it is.\<close>

lemma read_ssh_banner_adds: "emits (\<lambda>_. True) (read_ssh_banner os h ip timeout)"
  unfolding emits_def
proof
  fix t
  from surjective_pairing obtain start rounds es b where
    l: "loop_spec os h (start + timeout * kNanosPerMilli) [] (t @ [Proc (Ev_now start)]) b
          (snd (run_state (read_ssh_banner os h ip timeout) t)) rounds es"
    by (rule read_ssh_banner_run)
  have "list_all steady (concat (map (round_events h d) rounds))" for d
    by (induction rounds) (auto simp: round_events_def wait_event_def)
  moreover have "list_all steady es"
    using l by (auto simp: loop_spec_def last_round_def wait_event_def)
  ultimately show "adds (\<lambda>_. True) t (snd (run_state (read_ssh_banner os h ip timeout) t))"
    using l by (simp add: loop_spec_def adds_def list.pred_True)
qed

lemma probe_ssh_adds: "emits (\<lambda>_. True) (probe_ssh os ip port connect_timeout banner_timeout)"
proof -
  have "emits (\<lambda>_. True) (tcp_connect os ip port connect_timeout)"
    by (auto simp: tcp_connect_def set_non_blocking_def last_socket_error_def await_connection_def
        wait_for_socket_def close_socket_def split_beta intro!: emits_intros emits_ensure split: option.split)
  then show ?thesis
    by (auto simp: probe_ssh_def close_socket_def intro!: emits_intros read_ssh_banner_adds split: prod.split)
qed

lemma banner_from_bytes:
  assumes "run_state (read_ssh_banner os h ip timeout) t = (res, t')"
  shows "\<exists>es. t' = t @ es
    \<and> res = \<lparr>pr_ip = ip,
        pr_status = (if received h es = [] then NoBanner
                     else if starts_with ''SSH-'' (received h es) then SshDetected else NotSsh),
        pr_banner = sanitize_banner (received h es)\<rparr>"
proof -
  from assms obtain start rounds es where l:
    "loop_spec os h (start + timeout * kNanosPerMilli) [] (t @ [Proc (Ev_now start)]) (round_bytes rounds) t' rounds es"
    and res: "res = \<lparr>pr_ip = ip,
       pr_status = (if round_bytes rounds = [] then NoBanner
         else if is_ssh_identification (sanitize_banner (round_bytes rounds)) then SshDetected else NotSsh),
       pr_banner = sanitize_banner (round_bytes rounds)\<rparr>"
    by (rule read_ssh_banner_run)
  let ?es = "Proc (Ev_now start) # concat (map (round_events h (start + timeout * kNanosPerMilli)) rounds) @ es"
  have "t' = t @ ?es" using l by (simp add: loop_spec_def)
  moreover have "received h es = []"
    by (rule loop_spec_received [OF l])
  then have "received h ?es = round_bytes rounds" by (simp add: received_rounds)
  ultimately show ?thesis
    using res by (intro exI [of _ ?es]) (simp add: sanitize_ssh [unfolded is_ssh_identification_def] is_ssh_identification_def)
qed

text \<open>C25: The result of reading a banner is decided by exactly the bytes received on the handle during
the call, however they were split: none means \<open>NoBanner\<close>; otherwise the status is
\<open>SshDetected\<close> iff the received bytes begin with \<open>SSH-\<close>, and the banner is the sanitised
first line.\<close>

theorem read_ssh_banner_decides:
  assumes "run_state (read_ssh_banner os h ip timeout) t = (res, t')"
  shows "\<exists>es. t' = t @ es
    \<and> res = \<lparr>pr_ip = ip,
        pr_status = (if received h es = [] then NoBanner
                     else if starts_with ''SSH-'' (received h es) then SshDetected else NotSsh),
        pr_banner = sanitize_banner (received h es)\<rparr>"
  by (rule banner_from_bytes [OF assms])

definition recv_bounded :: "os \<Rightarrow> bool" where
  "recv_bounded os \<longleftrightarrow> (\<forall>h n t bytes. os_recv os h n t = Received bytes \<longrightarrow> length bytes \<le> n)"

lemma recv_bounded_round:
  "recv_bounded os \<Longrightarrow> full_round os t h d r \<Longrightarrow> length (round_bytes [r]) \<le> 128"
  by (auto simp: recv_bounded_def full_round_def round_bytes_def)

lemma length_sanitize: "length (sanitize_banner s) \<le> length s"
proof -
  have "length (sanitize_banner s) \<le> length (rev (map mask_char (first_line s)))"
    unfolding sanitize_banner_eq length_rev [of "dropWhile _ _"] by (rule length_dropWhile_le)
  also have "\<dots> \<le> length s" by (simp add: first_line_def length_takeWhile_le)
  finally show ?thesis .
qed

text \<open>C26: If \<open>recv\<close> keeps to its buffer size, a peer cannot keep the loop running or fill
the memory: fewer than 512 + 128 bytes are received, in at most 512 full rounds and one broken off,
and the banner is no longer than what was received and printable.\<close>

theorem banner_read_bounded:
  assumes "run_state (read_ssh_banner os h ip timeout) t = (res, t')" and "recv_bounded os"
  shows "\<exists>es. t' = t @ es \<and> length es \<le> 3 * kMaxBannerBytes + 4
    \<and> length (received h es) < kMaxBannerBytes + 128
    \<and> length (pr_banner res) \<le> length (received h es) \<and> (\<forall>c \<in> set (pr_banner res). printable c)"
proof -
  from assms(1) obtain start rounds es where l:
    "loop_spec os h (start + timeout * kNanosPerMilli) [] (t @ [Proc (Ev_now start)]) (round_bytes rounds) t' rounds es"
    and res: "pr_banner res = sanitize_banner (round_bytes rounds)"
    by (rule read_ssh_banner_run) simp
  let ?es = "Proc (Ev_now start) # concat (map (round_events h (start + timeout * kNanosPerMilli)) rounds) @ es"
  have "received h es = []"
    by (rule loop_spec_received [OF l])
  then have r: "received h ?es = round_bytes rounds" by (simp add: received_rounds)
  have t': "t' = t @ ?es" using l by (simp add: loop_spec_def)
  have "length (concat (map (round_events h d) rounds)) = 3 * length rounds" for d
    by (induction rounds) (auto simp: round_events_def)
  then have len: "length ?es \<le> 3 * kMaxBannerBytes + 4" using loop_spec_length [OF l] by simp
  have bytes: "length (round_bytes rounds) < kMaxBannerBytes + 128"
  proof (cases rounds rule: rev_cases)
    case (snoc rs r)
    have "length (round_bytes rs) < kMaxBannerBytes"
      using l snoc by (auto simp: loop_spec_def banner_full_def)
    moreover have "length (round_bytes [r]) \<le> 128"
      using l snoc by (intro recv_bounded_round [OF assms(2)]) (auto simp: loop_spec_def)
    ultimately show ?thesis using snoc by simp
  qed (simp add: round_bytes_def)
  have banner: "length (pr_banner res) \<le> length (round_bytes rounds)"
    unfolding res by (rule length_sanitize)
  have "\<forall>c \<in> set (pr_banner res). printable c"
    unfolding res by (auto dest: sanitize_printable)
  with t' len bytes banner r show ?thesis by (intro exI [of _ ?es]) (simp only: r simp_thms)
qed

definition steady_clock :: "os \<Rightarrow> bool" where
  "steady_clock os \<longleftrightarrow> (\<forall>t u. os_now os t \<le> os_now os (t @ u))"

definition wait_in_time :: "int \<Rightarrow> int \<Rightarrow> event \<Rightarrow> event \<Rightarrow> bool" where
  "wait_in_time start deadline before e \<longleftrightarrow> (\<forall>k w ms rc. e = Sock (Ev_WSAPoll k w ms rc) \<longrightarrow>
     (\<exists>now. before = Proc (Ev_now now) \<and> start \<le> now \<and> 0 \<le> ms \<and> now + ms * kNanosPerMilli \<le> deadline))"

lemma wait_event_in_time:
  assumes "clock_reading os (t @ [Proc (Ev_now start)]) now" "steady_clock os" "start = os_now os t"
    and "now < start + timeout * kNanosPerMilli" "timeout < 2 ^ 31"
  shows "wait_in_time start (start + timeout * kNanosPerMilli) (Proc (Ev_now now))
    (wait_event h (start + timeout * kNanosPerMilli) now rc)"
proof -
  define d where "d = start + timeout * kNanosPerMilli"
  define ms where "ms = (d - now) div kNanosPerMilli"
  have "start \<le> now" using assms(1-3) by (auto simp: clock_reading_def steady_clock_def)
  have "ms * kNanosPerMilli \<le> d - now"
    by (simp add: ms_def kNanosPerMilli_def)
  moreover have "ms \<le> timeout * kNanosPerMilli div kNanosPerMilli"
    unfolding ms_def d_def using \<open>start \<le> now\<close> by (intro zdiv_mono1) (simp_all add: kNanosPerMilli_def)
  moreover have "0 \<le> ms" using assms(4) by (simp add: ms_def d_def kNanosPerMilli_def pos_imp_zdiv_nonneg_iff)
  moreover have "poll_timeout ms = ms"
    using calculation assms(5) by (intro poll_timeout_small) (simp_all add: kNanosPerMilli_def)
  ultimately show ?thesis
    using \<open>start \<le> now\<close>
    by (simp add: wait_in_time_def wait_event_def d_def [symmetric] ms_def [symmetric])
qed

text \<open>C27: With a monotonic clock and a timeout below 2^31 milliseconds, every wait of the loop directly
follows a clock reading and its bound ends no later than the deadline, the first clock reading plus
the timeout.\<close>

theorem banner_read_deadline:
  assumes "run_state (read_ssh_banner os h ip timeout) t = (res, t')" and "steady_clock os"
    and "timeout < 2 ^ 31"
  shows "\<exists>start es. t' = t @ Proc (Ev_now start) # es
    \<and> successively (wait_in_time start (start + timeout * kNanosPerMilli)) (Proc (Ev_now start) # es)"
proof -
  from assms(1) obtain start rounds es where start: "start = os_now os t" and l:
    "loop_spec os h (start + timeout * kNanosPerMilli) [] (t @ [Proc (Ev_now start)]) (round_bytes rounds) t' rounds es"
    by (rule read_ssh_banner_run)
  let ?d = "start + timeout * kNanosPerMilli"
  let ?ok = "wait_in_time start ?d"
  have w: "?ok (Proc (Ev_now now)) (wait_event h ?d now rc)"
    if "clock_reading os (t @ [Proc (Ev_now start)]) now" "now < ?d" for now rc
    using that assms(2,3) start by (intro wait_event_in_time)
  have no: "?ok e (Proc (Ev_now n))" "?ok e (Sock (Ev_recv h 128 x))" for e n x
    by (simp_all add: wait_in_time_def)
  have "successively ?ok (e # es)" for e
    using l w no by (auto simp: loop_spec_def last_round_def)
  moreover have "\<forall>r \<in> set rounds. full_round os (t @ [Proc (Ev_now start)]) h ?d r"
    using l by (simp add: loop_spec_def)
  ultimately have "successively ?ok (e # concat (map (round_events h ?d) rounds) @ es)" for e
    by (induction rounds arbitrary: e) (auto simp: round_events_def full_round_def w no)
  then show ?thesis
    using l by (intro exI [of _ start] exI [of _ "concat (map (round_events h ?d) rounds) @ es"])
      (simp add: loop_spec_def)
qed

lemma keeps_live_banner: "keeps live_sockets (read_ssh_banner os h ip timeout)"
  unfolding keeps_def
proof
  fix t
  obtain res t' where run: "run_state (read_ssh_banner os h ip timeout) t = (res, t')" by force
  from run obtain start rounds es where l:
    "loop_spec os h (start + timeout * kNanosPerMilli) [] (t @ [Proc (Ev_now start)]) (round_bytes rounds) t' rounds es"
    by (rule read_ssh_banner_run)
  have "foldl live_step M (concat (map (round_events h d) rounds)) = M" for M d
    by (induction rounds) (auto simp: round_events_def wait_event_def live_step_def)
  moreover have "foldl live_step M es = M" for M
    using l by (auto simp: loop_spec_def last_round_def wait_event_def live_step_def)
  ultimately show "live_sockets (snd (run_state (read_ssh_banner os h ip timeout) t)) = live_sockets t"
    using run l by (simp add: loop_spec_def live_sockets_append live_step_def)
qed

text \<open>Probing an address leaves the open sockets as they were, on every path and in every
environment.\<close>

theorem probe_ssh_releases_socket:
  "live_sockets (snd (run_state (probe_ssh os ip port connect_timeout banner_timeout) t)) = live_sockets t"
proof -
  have "keeps live_sockets (probe_ssh os ip port connect_timeout banner_timeout)"
    unfolding probe_ssh_def by (rule tcp.attempt_if_connected) (simp_all add: keeps_live_banner)
  then show ?thesis by (simp add: keeps_def)
qed

text \<open>C24: When \<open>probe_ssh\<close> reports an SSH server, it is for the probed address: a socket was
connected to that address and port, with evidence of the connection as the last system call before
the reading, the bytes received on that socket begin with \<open>SSH-\<close>, and closing it is the last
system call.\<close>

theorem probe_ssh_detects:
  assumes "run_state (probe_ssh os ip port connect_timeout banner_timeout) t = (res, t')"
    and "is_ssh res" and "reports_errors os"
  shows "pr_ip res = ip \<and> (\<exists>h a rc es0 es1. t' = t @ es0 @ es1 @ [Sock (Ev_closesocket h)]
    \<and> inet_pton (os_inet os) (c_str ip) = Some a \<and> Sock (Ev_connect h a port rc) \<in> set es0
    \<and> connection_evidence h (last es0) \<and> starts_with ''SSH-'' (received h es1)
    \<and> pr_banner res = sanitize_banner (received h es1))"
proof -
  obtain r h t0 where c: "run_state (tcp_connect os ip port connect_timeout) t = ((r, h), t0)"
    by (metis surj_pair)
  have r: "r = Connected"
  proof (rule ccontr)
    assume "r \<noteq> Connected"
    with assms(1,2) c show False by (cases r) (auto simp: probe_ssh_def is_ssh_def fresh_result_def)
  qed
  with tcp_connect_cases [OF c] assms(3) have h: "h \<noteq> kInvalidSocket" by blast
  obtain b t1 where b: "run_state (read_ssh_banner os h ip banner_timeout) t0 = (b, t1)" by force
  have "res = b" "t' = t1 @ [Sock (Ev_closesocket h)]"
    using assms(1) c r b h by (auto simp: probe_ssh_def close_socket_def)
  with tcp_connect_events [OF c h] banner_from_bytes [OF b] assms(2) show ?thesis
    by (fastforce simp: is_ssh_def split: if_splits)
qed


section \<open>Witnesses\<close>

lemma sample_os_hypotheses: "recv_bounded sample_os" "steady_clock sample_os" "reports_errors sample_os"
  by (auto simp: sample_os_def recv_bounded_def steady_clock_def reports_errors_def)

theorem read_ssh_banner_decides_witness:
  "pr_ip (fst (run_state (read_ssh_banner sample_os 7 ''10.0.0.7'' 1000) [])) = ''10.0.0.7''"
  using read_ssh_banner_decides [OF surjective_pairing, of sample_os 7 "''10.0.0.7''" 1000 "[]"] by auto

theorem banner_read_bounded_witness:
  "length (pr_banner (fst (run_state (read_ssh_banner sample_os 7 ''10.0.0.7'' 1000) []))) < 640"
  using banner_read_bounded [OF surjective_pairing sample_os_hypotheses(1), of 7 "''10.0.0.7''" 1000 "[]"]
  by (auto simp: kMaxBannerBytes_def)

theorem banner_read_deadline_witness:
  "\<exists>start es. snd (run_state (read_ssh_banner sample_os 7 ''10.0.0.7'' 1000) []) = Proc (Ev_now start) # es
    \<and> successively (wait_in_time start (start + 1000 * kNanosPerMilli)) (Proc (Ev_now start) # es)"
  using banner_read_deadline [OF surjective_pairing sample_os_hypotheses(2), of 1000 7 "''10.0.0.7''" "[]"]
  by simp

theorem probe_ssh_detects_witness:
  "\<exists>h es0 es1. snd (run_state (probe_ssh sample_os ''10.0.0.7'' 22 750 1000) [])
     = es0 @ es1 @ [Sock (Ev_closesocket h)] \<and> starts_with ''SSH-'' (received h es1)"
proof -
  have "is_ssh (fst (run_state (probe_ssh sample_os ''10.0.0.7'' 22 750 1000) []))" by code_simp
  from probe_ssh_detects [OF surjective_pairing this sample_os_hypotheses(3)] show ?thesis by auto
qed

end
