(* ===== verification/Arp_Discovery.thy ===== *)
theory Arp_Discovery
  imports Ssh_Detector Interface_Discovery Keyed_Insert
begin

text \<open>
  \<open>src/src/network/arp_discovery.cpp\<close>: discovery of the stations of one link from the neighbour
  cache and from captured packets. The answer of \<open>GetIpNetTable2\<close> is a parameter. The capture
  loop is bounded by the clock only and is a partial function; \<open>None\<close> is a run that never ends.
  The start-up calls of the formatting helpers, whose results are not used, are left out.
\<close>

section \<open>Data\<close>

datatype L2ObservationSource = ArpTraffic | Ipv4Traffic | NeighbourCache

record L2Observation =
  obs_ip :: string
  obs_mac :: string
  obs_source :: L2ObservationSource

record L2DiscoveryResult =
  l2_observations :: "L2Observation list"
  l2_permission_denied :: bool
  l2_error :: string

record NeighbourEntry =
  ne_if_index :: u32
  ne_ip :: string
  ne_mac :: string
  ne_reachable :: bool

text \<open>\<open>MIB_IPNET_ROW2\<close>: the fields that are read.\<close>

datatype nl_state = NlnsUnreachable | NlnsIncomplete | NlnsProbe | NlnsDelay | NlnsStale
  | NlnsReachable | NlnsPermanent

record neighbour_row =
  row_InterfaceIndex :: u32
  row_Address :: u32
  row_PhysicalAddress :: "u8 list"
  row_State :: nl_state

definition kIpv4HeaderMinimum :: nat where "kIpv4HeaderMinimum = 20"
definition kIpv4SourceOffset :: nat where "kIpv4SourceOffset = 12"
definition kCaptureBufferSize :: nat where "kCaptureBufferSize = 65535"
definition kCapturePollSlice :: milliseconds where "kCapturePollSlice = 200"

definition WSAEACCES :: int where "WSAEACCES = 10013"
definition WSAEMSGSIZE :: int where "WSAEMSGSIZE = 10040"

fun observation_source_text :: "L2ObservationSource \<Rightarrow> string" where
  "observation_source_text ArpTraffic = ''arp''"
| "observation_source_text Ipv4Traffic = ''ipv4''"
| "observation_source_text NeighbourCache = ''neighbour-cache''"

section \<open>Helpers\<close>

definition is_zero_mac :: "string \<Rightarrow> bool" where
  "is_zero_mac mac \<longleftrightarrow> mac = [] \<or> mac = ''00:00:00:00:00:00'' \<or> mac = ''00-00-00-00-00-00''"

definition format_ipv4 :: "inet_api \<Rightarrow> u32 \<Rightarrow> string" where
  "format_ipv4 api network_order = (case inet_ntop api network_order of None \<Rightarrow> [] | Some s \<Rightarrow> s)"

text \<open>The loop of \<open>format_mac\<close>; the first byte has no separator.\<close>

fun station_mac_loop :: "string \<Rightarrow> bool \<Rightarrow> u8 list \<Rightarrow> string" where
  "station_mac_loop result first [] = result"
| "station_mac_loop result first (b # bs) =
     station_mac_loop ((if first then result else result @ '':'') @ hex2 b) False bs"

definition format_station_mac :: "u8 list \<Rightarrow> string" where
  "format_station_mac address = (if address = [] then [] else station_mac_loop [] True address)"

definition is_uninteresting_address :: "inet_api \<Rightarrow> string \<Rightarrow> bool" where
  "is_uninteresting_address api ip =
     (if ip = [] \<or> ip = ''0.0.0.0'' \<or> ip = ''255.255.255.255'' then True
      else case inet_pton api (c_str ip) of
          None \<Rightarrow> True
        | Some s_addr \<Rightarrow> 0xE0000000 \<le> (ntohl api s_addr AND 0xF0000000))"

text \<open>
  \<open>add_observation\<close>: the first observation of the same address, if any, gets the candidate's
  hardware address when its own is missing.
\<close>

fun merge_mac :: "L2Observation list \<Rightarrow> L2Observation \<Rightarrow> L2Observation list" where
  "merge_mac [] candidate = []"
| "merge_mac (o' # os) candidate =
     (if obs_ip o' = obs_ip candidate
      then (if is_zero_mac (obs_mac o') then o'\<lparr>obs_mac := obs_mac candidate\<rparr> else o') # os
      else o' # merge_mac os candidate)"

definition add_observation :: "inet_api \<Rightarrow> L2Observation list \<Rightarrow> L2Observation \<Rightarrow> L2Observation list" where
  "add_observation api observations candidate =
     (if is_uninteresting_address api (obs_ip candidate) then observations
      else if list_ex (\<lambda>o'. obs_ip o' = obs_ip candidate) observations
      then merge_mac observations candidate
      else observations @ [candidate])"

section \<open>The neighbour cache\<close>

definition eligible_entry :: "u32 \<Rightarrow> NeighbourEntry \<Rightarrow> bool" where
  "eligible_entry if_index entry \<longleftrightarrow>
     \<not> (ne_if_index entry \<noteq> if_index \<or> \<not> ne_reachable entry \<or> is_zero_mac (ne_mac entry))"

definition entry_observation :: "NeighbourEntry \<Rightarrow> L2Observation" where
  "entry_observation entry =
     \<lparr>obs_ip = ne_ip entry, obs_mac = ne_mac entry, obs_source = NeighbourCache\<rparr>"

definition select_neighbour_entries ::
  "inet_api \<Rightarrow> NeighbourEntry list \<Rightarrow> u32 \<Rightarrow> L2Observation list" where
  "select_neighbour_entries api entries if_index =
     foldl (\<lambda>observations entry.
         if eligible_entry if_index entry
         then add_observation api observations (entry_observation entry)
         else observations) [] entries"

definition entry_of_row :: "inet_api \<Rightarrow> neighbour_row \<Rightarrow> NeighbourEntry" where
  "entry_of_row api row =
     \<lparr>ne_if_index = row_InterfaceIndex row,
      ne_ip = format_ipv4 api (row_Address row),
      ne_mac = format_station_mac (row_PhysicalAddress row),
      ne_reachable = (row_State row \<noteq> NlnsUnreachable \<and> row_State row \<noteq> NlnsIncomplete)\<rparr>"

text \<open>The answer of \<open>GetIpNetTable2\<close> is a parameter; \<open>None\<close> is a failure.\<close>

type_synonym net_table = "trace \<Rightarrow> neighbour_row list option"

definition read_neighbour_cache :: "os \<Rightarrow> net_table \<Rightarrow> u32 \<Rightarrow> L2Observation list io" where
  "read_neighbour_cache os table if_index = do {
     rows \<leftarrow> syscall table (\<lambda>r. Proc (Ev_GetIpNetTable2 (r \<noteq> None)));
     case rows of
       None \<Rightarrow> return []
     | Some rs \<Rightarrow> return (select_neighbour_entries (os_inet os) (map (entry_of_row (os_inet os)) rs) if_index)
   }"

section \<open>Packets\<close>

text \<open>The pointer and the length are an optional list: \<open>None\<close> is the null pointer.\<close>

definition parse_ipv4_source_address :: "inet_api \<Rightarrow> u8 list option \<Rightarrow> string" where
  "parse_ipv4_source_address api packet = (case packet of None \<Rightarrow> [] | Some packet \<Rightarrow>
     if length packet < kIpv4HeaderMinimum then []
     else if drop_bit 4 (packet ! 0) \<noteq> 4 then []
     else let header_length = unat (packet ! 0 AND 0x0F) * 4
          in if header_length < kIpv4HeaderMinimum \<or> length packet < header_length then []
             else format_ipv4 api
               (le_word (packet ! kIpv4SourceOffset) (packet ! (kIpv4SourceOffset + 1))
                 (packet ! (kIpv4SourceOffset + 2)) (packet ! (kIpv4SourceOffset + 3))))"

definition packet_bytes :: "string \<Rightarrow> u8 list" where
  "packet_bytes s = map of_char s"

section \<open>Capturing\<close>

definition elevation_hint :: string where
  "elevation_hint = '' (layer-2 discovery needs an elevated process: re-run device-discovery from an Administrator command prompt)''"

text \<open>
  \<open>capture_link_traffic\<close> up to its loop: the failures end with their result (\<open>Inl\<close>), the
  capture socket closed by the guard; otherwise the promiscuous socket is handed to the loop.
\<close>

definition open_capture ::
  "os \<Rightarrow> NetworkInterface \<Rightarrow> L2DiscoveryResult \<Rightarrow> (L2DiscoveryResult + socket_t) io" where
  "open_capture os iface result = do {
     initialised \<leftarrow> ensure_winsock_initialised os;
     if \<not> initialised then return (Inl (result\<lparr>l2_error := ''Winsock initialisation failed''\<rparr>))
     else do {
       handle \<leftarrow> syscall (os_socket os Sock_raw) (Sock \<circ> Ev_socket Sock_raw);
       if handle = kInvalidSocket then do {
         error_code \<leftarrow> last_socket_error os;
         error_text \<leftarrow> socket_error_text os error_code;
         let denied = (error_code = WSAEACCES);
         let message = ''cannot open a promiscuous capture socket on '' @ ni_name iface @ '': '' @ error_text;
         hint \<leftarrow> (if denied then return True
                 else do { elevated \<leftarrow> is_process_elevated os; return (\<not> elevated) });
         return (Inl (result\<lparr>l2_permission_denied := denied,
                             l2_error := message @ (if hint then elevation_hint else [])\<rparr>))
       }
       else case inet_pton (os_inet os) (c_str (ni_ipv4 iface)) of
         None \<Rightarrow> do {
           _ \<leftarrow> close_socket handle;
           return (Inl (result\<lparr>l2_error := ''invalid local address '' @ ni_ipv4 iface @ '' for '' @ ni_name iface\<rparr>))
         }
       | Some local_address \<Rightarrow> do {
           bound \<leftarrow> syscall (os_bind os handle local_address) (Sock \<circ> Ev_bind handle local_address);
           if \<not> bound then do {
             error_code \<leftarrow> last_socket_error os;
             error_text \<leftarrow> socket_error_text os error_code;
             _ \<leftarrow> close_socket handle;
             return (Inl (result\<lparr>l2_error :=
               ''cannot bind the capture socket to '' @ ni_ipv4 iface @ '': '' @ error_text\<rparr>))
           }
           else do {
             promiscuous \<leftarrow> syscall (os_SIO_RCVALL os handle) (Sock \<circ> Ev_SIO_RCVALL handle);
             if \<not> promiscuous then do {
               error_code \<leftarrow> last_socket_error os;
               error_text \<leftarrow> socket_error_text os error_code;
               _ \<leftarrow> close_socket handle;
               let denied = (error_code = WSAEACCES);
               return (Inl (result\<lparr>l2_permission_denied := denied,
                 l2_error := ''cannot enable promiscuous mode on '' @ ni_name iface @ '': '' @ error_text
                   @ (if denied then elevation_hint else [])\<rparr>))
             }
             else return (Inr handle)
           }
         }
     }
   }"

text \<open>
  One round of the loop. The second component tells whether the loop goes on (\<open>continue\<close> or the
  end of the body) or is left by \<open>break\<close>.
\<close>

definition record_packet :: "inet_api \<Rightarrow> string \<Rightarrow> L2Observation list \<Rightarrow> string \<Rightarrow> L2Observation list" where
  "record_packet api own_ip observations bytes =
     (let source = parse_ipv4_source_address api (Some (packet_bytes bytes))
      in if source = [] \<or> source = own_ip then observations
         else add_observation api observations
           \<lparr>obs_ip = source, obs_mac = [], obs_source = Ipv4Traffic\<rparr>)"

definition capture_round ::
  "os \<Rightarrow> string \<Rightarrow> socket_t \<Rightarrow> int \<Rightarrow> L2Observation list \<Rightarrow> (L2Observation list \<times> bool) io" where
  "capture_round os own_ip handle deadline observations = do {
     now \<leftarrow> syscall (os_now os) (Proc \<circ> Ev_now);
     if deadline \<le> now then return (observations, False)
     else do {
       let remaining = (deadline - now) div kNanosPerMilli;
       ready \<leftarrow> wait_for_socket os handle False (min remaining kCapturePollSlice);
       if ready < 0 then return (observations, False)
       else if ready = 0 then return (observations, True)
       else do {
         received \<leftarrow> syscall (os_recv os handle kCaptureBufferSize) (Sock \<circ> Ev_recv handle kCaptureBufferSize);
         case received of
           Recv_error \<Rightarrow> do {
             error_code \<leftarrow> last_socket_error os;
             return (observations, error_code = WSAEMSGSIZE)
           }
         | Received bytes \<Rightarrow>
             if bytes = [] then return (observations, True)
             else return (record_packet (os_inet os) own_ip observations bytes, True)
       }
     }
   }"

text \<open>The loop ends by the clock only, so it may run forever: \<open>None\<close>.\<close>

partial_function (option) capture_loop ::
  "os \<Rightarrow> string \<Rightarrow> socket_t \<Rightarrow> int \<Rightarrow> L2Observation list \<Rightarrow> trace \<Rightarrow> (L2Observation list \<times> trace) option" where
  "capture_loop os own_ip handle deadline observations t =
     (let ((observations', goes_on), t') =
            run_state (capture_round os own_ip handle deadline observations) t
      in if goes_on then capture_loop os own_ip handle deadline observations' t'
         else Some (observations', t'))"

declare capture_loop.simps [code]

definition capture_link_traffic ::
  "os \<Rightarrow> NetworkInterface \<Rightarrow> milliseconds \<Rightarrow> L2DiscoveryResult \<Rightarrow> trace \<Rightarrow> (L2DiscoveryResult \<times> trace) option" where
  "capture_link_traffic os iface listen_window result t =
     (case run_state (open_capture os iface result) t of
        (Inl failed, t1) \<Rightarrow> Some (failed, t1)
      | (Inr handle, t1) \<Rightarrow>
          let (now, t2) = run_state (syscall (os_now os) (Proc \<circ> Ev_now)) t1
          in case capture_loop os (ni_ipv4 iface) handle (now + listen_window * kNanosPerMilli)
                    (l2_observations result) t2 of
               None \<Rightarrow> None
             | Some (observations, t3) \<Rightarrow>
                 Some (result\<lparr>l2_observations := observations\<rparr>, snd (run_state (close_socket handle) t3)))"

definition add_cached ::
  "inet_api \<Rightarrow> NetworkInterface \<Rightarrow> L2Observation list \<Rightarrow> L2Observation list \<Rightarrow> L2Observation list" where
  "add_cached api iface observations cached =
     foldl (\<lambda>observations observation.
         if obs_ip observation \<noteq> ni_ipv4 iface then add_observation api observations observation
         else observations) observations cached"

definition finish_discovery :: "NetworkInterface \<Rightarrow> L2DiscoveryResult \<Rightarrow> L2DiscoveryResult" where
  "finish_discovery iface result =
     (if l2_observations result \<noteq> [] then result\<lparr>l2_error := []\<rparr>
      else if l2_error result = [] then result\<lparr>l2_error :=
        ''no station announced an IPv4 address on '' @ ni_name iface @ '' during the layer-2 listening window''\<rparr>
      else result)"

definition discover_link_layer_hosts ::
  "os \<Rightarrow> net_table \<Rightarrow> NetworkInterface \<Rightarrow> milliseconds \<Rightarrow> trace \<Rightarrow> (L2DiscoveryResult \<times> trace) option" where
  "discover_link_layer_hosts os table iface listen_window t =
     (let (cached, t1) = run_state (read_neighbour_cache os table (ni_if_index iface)) t;
          result = \<lparr>l2_observations = add_cached (os_inet os) iface [] cached,
                    l2_permission_denied = False, l2_error = []\<rparr>
      in case capture_link_traffic os iface listen_window result t1 of
           None \<Rightarrow> None
         | Some (result', t2) \<Rightarrow>
             let (cached', t3) = run_state (read_neighbour_cache os table (ni_if_index iface)) t2
             in Some (finish_discovery iface (result'\<lparr>l2_observations :=
                    add_cached (os_inet os) iface (l2_observations result') cached'\<rparr>), t3))"


section \<open>Observations by address\<close>

lemma merge_mac_ips [simp]: "map obs_ip (merge_mac os c) = map obs_ip os"
  by (induction os) auto

lemma merge_mac_id:
  "(\<And>o'. o' \<in> set os \<Longrightarrow> \<not> is_zero_mac (obs_mac o')) \<Longrightarrow> merge_mac os c = os"
  by (induction os) auto

lemma ip_in_keys: "list_ex (\<lambda>o'. obs_ip o' = ip) os \<longleftrightarrow> ip \<in> obs_ip ` set os"
  by (auto simp: list_ex_iff)

interpretation observations: keyed_insert obs_ip "\<lambda>ip. \<not> is_uninteresting_address api ip" "add_observation api"
  for api
  by unfold_locales (auto simp: add_observation_def ip_in_keys)

lemma foldl_filter: "foldl (\<lambda>a x. if P x then f a (g x) else a) a xs = foldl f a (map g (filter P xs))"
  by (induction xs arbitrary: a) simp_all

lemma select_fold:
  "select_neighbour_entries api entries if_index =
     foldl (add_observation api) [] (map entry_observation (filter (eligible_entry if_index) entries))"
  by (simp add: select_neighbour_entries_def foldl_filter)

lemma select_ips:
  "map obs_ip (select_neighbour_entries api entries if_index) =
     firsts (filter (\<lambda>ip. \<not> is_uninteresting_address api ip) (map ne_ip (filter (eligible_entry if_index) entries)))"
  by (simp add: select_fold observations.keys_fold comp_def entry_observation_def)

lemma add_resolved:
  assumes "\<And>o'. o' \<in> set os \<Longrightarrow> \<not> is_zero_mac (obs_mac o')"
  shows "add_observation api os c = (if is_uninteresting_address api (obs_ip c) \<or> obs_ip c \<in> obs_ip ` set os
    then os else os @ [c])"
  using assms by (auto simp: add_observation_def ip_in_keys merge_mac_id)

lemma find_snoc: "List.find P (xs @ [x]) =
    (case List.find P xs of None \<Rightarrow> if P x then Some x else None | Some y \<Rightarrow> Some y)"
  by (induction xs) auto

lemma fold_resolved:
  assumes "\<forall>c \<in> set cs. \<not> is_zero_mac (obs_mac c)" and "x \<in> set (foldl (add_observation api) [] cs)"
  shows "List.find (\<lambda>c. obs_ip c = obs_ip x) cs = Some x \<and> \<not> is_zero_mac (obs_mac x)"
  using assms
proof (induction cs arbitrary: x rule: rev_induct)
  case Nil
  then show ?case by simp
next
  case (snoc c cs)
  let ?os = "foldl (add_observation api) [] cs"
  have keys: "obs_ip ` set ?os = {ip \<in> obs_ip ` set cs. \<not> is_uninteresting_address api ip}"
    using arg_cong [OF observations.keys_fold [of api cs], of set] by auto
  have step: "foldl (add_observation api) [] (cs @ [c]) =
     (if is_uninteresting_address api (obs_ip c) \<or> obs_ip c \<in> obs_ip ` set ?os then ?os else ?os @ [c])"
    using snoc.IH snoc.prems(1) by (simp add: add_resolved)
  show ?case
  proof (cases "x \<in> set ?os")
    case True
    with snoc show ?thesis by (auto simp: find_snoc)
  next
    case False
    with snoc.prems(2) have "x = c" and new: "obs_ip c \<notin> obs_ip ` set ?os"
      "\<not> is_uninteresting_address api (obs_ip c)"
      unfolding step by (auto split: if_splits)
    moreover from this have "obs_ip c \<notin> obs_ip ` set cs" using keys by blast
    then have "List.find (\<lambda>c'. obs_ip c' = obs_ip c) cs = None"
      unfolding find_None_iff_all by (metis image_eqI)
    ultimately show ?thesis using snoc.prems(1) by (simp add: find_snoc)
  qed
qed

lemma find_map_entry:
  "List.find (\<lambda>c. obs_ip c = ip) (map entry_observation es) =
     map_option entry_observation (List.find (\<lambda>e. ne_ip e = ip) es)"
  by (induction es) (auto simp: entry_observation_def)

lemma find_filter: "List.find P (filter Q xs) = List.find (\<lambda>x. Q x \<and> P x) xs"
  by (induction xs) auto

text \<open>Selecting from the neighbour cache reports each address once, in the order of the first
usable row: the rows of the interface that are reachable, have a resolved hardware address and an
address that can belong to a host. Each observation is the first such row of its address.\<close>

theorem select_neighbour_entries_exact:
  "(map obs_ip (select_neighbour_entries api entries if_index) =
     firsts (filter (\<lambda>ip. \<not> is_uninteresting_address api ip)
       (map ne_ip (filter (eligible_entry if_index) entries))))
    \<and> (list_all (\<lambda>observation. \<exists>entry.
      List.find (\<lambda>e. eligible_entry if_index e \<and> ne_ip e = obs_ip observation) entries = Some entry
      \<and> observation = entry_observation entry)
    (select_neighbour_entries api entries if_index))"
proof (intro conjI)
  show "map obs_ip (select_neighbour_entries api entries if_index) =
     firsts (filter (\<lambda>ip. \<not> is_uninteresting_address api ip)
       (map ne_ip (filter (eligible_entry if_index) entries)))"
    by (rule select_ips)
  have "\<not> is_zero_mac (obs_mac c)" if "c \<in> entry_observation ` set (filter (eligible_entry if_index) entries)" for c
    using that by (auto simp: eligible_entry_def entry_observation_def)
  then have "List.find (\<lambda>c. obs_ip c = obs_ip x) (map entry_observation (filter (eligible_entry if_index) entries)) = Some x"
    if "x \<in> set (select_neighbour_entries api entries if_index)" for x
    using that fold_resolved [of _ x api] unfolding select_fold by simp
  then show "list_all (\<lambda>observation. \<exists>entry.
      List.find (\<lambda>e. eligible_entry if_index e \<and> ne_ip e = obs_ip observation) entries = Some entry
      \<and> observation = entry_observation entry)
    (select_neighbour_entries api entries if_index)"
    by (fastforce simp: list_all_iff find_map_entry find_filter)
qed

text \<open>The two hardware address formatters of the program agree.\<close>

lemma station_mac_loop_False:
  "station_mac_loop r False bs = r @ concat (map (\<lambda>b. CHR '':'' # hex2 b) bs)"
  by (induction bs arbitrary: r) simp_all

lemma format_mac_bytes_Cons: "format_mac_bytes (b # bs) = hex2 b @ concat (map (\<lambda>b. CHR '':'' # hex2 b) bs)"
  by (induction bs arbitrary: b) simp_all

lemma format_station_mac_eq: "format_station_mac bs = format_mac (Some bs)"
  by (cases bs) (simp_all add: format_station_mac_def format_mac_def station_mac_loop_False format_mac_bytes_Cons)

section \<open>Captured packets\<close>

definition ipv4_header_ok :: "u8 list \<Rightarrow> bool" where
  "ipv4_header_ok packet \<longleftrightarrow> 20 \<le> length packet \<and> unat (packet ! 0) div 16 = 4
     \<and> 5 \<le> unat (packet ! 0) mod 16 \<and> 4 * (unat (packet ! 0) mod 16) \<le> length packet"

lemma byte_nibbles:
  "drop_bit 4 (b :: u8) = 4 \<longleftrightarrow> unat b div 16 = 4" "unat ((b :: u8) AND 0x0F) = unat b mod 16"
proof -
  have "unat (drop_bit 4 b) = unat b div 16" by (simp only: unat_drop_bit_eq) (simp add: drop_bit_eq_div)
  then show "drop_bit 4 b = 4 \<longleftrightarrow> unat b div 16 = 4" by (simp add: word_unat_eq_iff)
  have "b AND 0x0F = take_bit 4 b" by (simp add: take_bit_eq_mask mask_eq_exp_minus_1)
  then show "unat (b AND 0x0F) = unat b mod 16" by (simp only: unsigned_take_bit_eq) (simp add: take_bit_eq_mod)
qed

text \<open>C35: For every captured packet, the source address is reported iff the packet holds a whole IPv4
header (at least 20 bytes, version 4, a header length between 20 bytes and the packet's length);
it is then the dotted decimal text of bytes 12 to 15. A null pointer gives no address.\<close>

theorem parse_ipv4_source_address_exact:
  assumes "inet_dotted api"
  shows "parse_ipv4_source_address api None = [] \<and> parse_ipv4_source_address api (Some packet) =
    (if ipv4_header_ok packet
     then dec_of_nat (unat (packet ! 12)) @ ''.'' @ dec_of_nat (unat (packet ! 13)) @ ''.''
       @ dec_of_nat (unat (packet ! 14)) @ ''.'' @ dec_of_nat (unat (packet ! 15))
     else [])"
  by (auto simp: parse_ipv4_source_address_def kIpv4HeaderMinimum_def kIpv4SourceOffset_def
      ipv4_header_ok_def byte_nibbles Let_def format_ipv4_def inet_dotted.ntop_dotted [OF assms]
      dotted_quad_def)

theorem parse_ipv4_source_address_exact_witness:
  "parse_ipv4_source_address dotted_api
     (Some ([0x45, 0, 0, 20, 0, 0, 0, 0, 64, 17, 0, 0] @ [10, 20, 30, 40] @ [255, 255, 255, 255])) = ''10.20.30.40''"
proof -
  have d: "dec_of_nat 10 = ''10''" "dec_of_nat 20 = ''20''" "dec_of_nat 30 = ''30''" "dec_of_nat 40 = ''40''"
    by code_simp+
  show ?thesis
    using parse_ipv4_source_address_exact [OF dotted.inet_dotted_axioms]
    by (simp add: ipv4_header_ok_def d)
qed

section \<open>Runs of the capture\<close>

definition host_observations :: "inet_api \<Rightarrow> string \<Rightarrow> L2Observation list \<Rightarrow> bool" where
  "host_observations api own os \<longleftrightarrow> distinct (map obs_ip os) \<and>
     list_all (\<lambda>ip. \<not> is_uninteresting_address api ip \<and> ip \<noteq> own) (map obs_ip os)"

lemma add_observation_host:
  assumes "host_observations api own os" and "obs_ip c \<noteq> own"
  shows "host_observations api own (add_observation api os c)"
proof -
  have keys: "map obs_ip (add_observation api os c) = (if \<not> is_uninteresting_address api (obs_ip c) \<and> obs_ip c \<notin> obs_ip ` set os
     then map obs_ip os @ [obs_ip c] else map obs_ip os)"
    by (rule observations.keys_ins)
  show ?thesis using assms unfolding host_observations_def keys by (auto simp: list_all_iff)
qed

lemma add_cached_host:
  "host_observations api (ni_ipv4 iface) os \<Longrightarrow> host_observations api (ni_ipv4 iface) (add_cached api iface os cached)"
  unfolding add_cached_def by (induction cached arbitrary: os) (simp_all add: add_observation_host)

lemma record_packet_host:
  "host_observations api own os \<Longrightarrow> host_observations api own (record_packet api own os bytes)"
  by (auto simp: record_packet_def Let_def intro: add_observation_host)

definition round_invariant :: "os \<Rightarrow> string \<Rightarrow> L2Observation list \<Rightarrow> trace \<Rightarrow> L2Observation list \<Rightarrow> trace \<Rightarrow> bool" where
  "round_invariant os own obs t obs' t' \<longleftrightarrow>
     (host_observations (os_inet os) own obs \<longrightarrow> host_observations (os_inet os) own obs')
     \<and> live_sockets t' = live_sockets t"

lemma capture_round_step:
  assumes "run_state (capture_round os own h deadline obs) t = ((obs', go), t')"
  shows "(go \<longrightarrow> os_now os t < deadline) \<and> (\<exists>es. t' = t @ es \<and> es \<noteq> [])
    \<and> round_invariant os own obs t obs' t'"
  using assms
  by (auto simp: capture_round_def round_invariant_def wait_for_socket_def last_socket_error_def live_sockets_append
      live_step_def Let_def record_packet_host split: if_splits recv_result.splits)

lemma round_invariant_trans:
  "round_invariant os own obs t obs1 t1 \<Longrightarrow> round_invariant os own obs1 t1 obs2 t2 \<Longrightarrow>
     round_invariant os own obs t obs2 t2"
  by (simp add: round_invariant_def)

lemma capture_loop_invariant:
  assumes "capture_loop os own h deadline obs t = Some (obs', t')"
  shows "round_invariant os own obs t obs' t'"
proof -
  have "round_invariant os own obs t (fst (obs', t')) (snd (obs', t'))"
  proof (rule capture_loop.raw_induct [where P = "\<lambda>os own h deadline obs t r.
        round_invariant os own obs t (fst r) (snd r)", OF _ assms], goal_cases)
    case (1 loop os own h deadline obs t r)
    obtain obs1 go t1 where run: "run_state (capture_round os own h deadline obs) t = ((obs1, go), t1)"
      by (metis surj_pair)
    have "round_invariant os own obs t obs1 t1" using capture_round_step [OF run] by blast
    moreover have "if go then loop os own h deadline obs1 t1 = Some r else r = (obs1, t1)"
      using 1(2) by (simp add: run split: if_splits)
    ultimately show ?case
      using 1(1) round_invariant_trans by (cases go) auto
  qed
  then show ?thesis by simp
qed

text \<open>Among any \<open>n\<close> successive system calls the clock advances.\<close>

definition ticking :: "nat \<Rightarrow> os \<Rightarrow> bool" where
  "ticking n os \<longleftrightarrow> (\<forall>t es. n \<le> length es \<longrightarrow> os_now os t < os_now os (t @ es))"

lemma capture_loop_terminates:
  assumes "ticking n os"
  shows "\<exists>r. capture_loop os own h deadline obs (t @ u) = Some r"
proof (induction "nat (deadline - os_now os t) * Suc n + (n - length u)" arbitrary: obs t u rule: less_induct)
  case less
  obtain obs' go t' where run: "run_state (capture_round os own h deadline obs) (t @ u) = ((obs', go), t')"
    by (metis surj_pair)
  obtain es where es: "t' = (t @ u) @ es" "es \<noteq> []" and go: "go \<Longrightarrow> os_now os (t @ u) < deadline"
    using capture_round_step [OF run] by blast
  have loop: "capture_loop os own h deadline obs (t @ u) =
      (if go then capture_loop os own h deadline obs' t' else Some (obs', t'))"
    by (subst capture_loop.simps) (simp add: run)
  show ?case
  proof (cases "go \<and> length u < n")
    case True
    have "n - length (u @ es) < n - length u" using True es(2) by (cases es) auto
    then have "\<exists>r. capture_loop os own h deadline obs' (t @ (u @ es)) = Some r"
      by (intro less.hyps) simp
    then show ?thesis using loop es True by simp
  next
    case notsmall: False
    show ?thesis
    proof (cases go)
      case True
      with notsmall have "os_now os t < os_now os (t @ u)" using assms by (auto simp: ticking_def)
      with go [OF True] have d: "nat (deadline - os_now os (t @ u)) < nat (deadline - os_now os t)" by simp
      have "nat (deadline - os_now os (t @ u)) * Suc n + (n - length es) <
          Suc (nat (deadline - os_now os (t @ u))) * Suc n" by simp
      also have "\<dots> \<le> nat (deadline - os_now os t) * Suc n"
        using d by (intro mult_le_mono1 Suc_leI)
      finally have "nat (deadline - os_now os (t @ u)) * Suc n + (n - length es) <
          nat (deadline - os_now os t) * Suc n + (n - length u)" by (rule trans_less_add1)
      then have "\<exists>r. capture_loop os own h deadline obs' ((t @ u) @ es) = Some r"
        by (rule less.hyps)
      then show ?thesis using loop es True by simp
    qed (simp add: loop)
  qed
qed

lemma open_capture_cases:
  assumes "run_state (open_capture os iface result) t = (r, t')"
  shows "(\<exists>h. r = Inr h \<and> live_sockets t' = live_sockets t + {#h#} \<and> h \<noteq> kInvalidSocket)
    \<or> (\<exists>f. r = Inl f \<and> l2_observations f = l2_observations result \<and> l2_error f \<noteq> []
        \<and> live_sockets t' = live_sockets t)"
proof -
  obtain ok t0 where init: "run_state (ensure_winsock_initialised os) t = (ok, t0)" by force
  have t0: "live_sockets t0 = live_sockets t" using live_ensure [of os t] init by simp
  then show ?thesis
    using assms
    by (auto simp: open_capture_def init last_socket_error_def socket_error_text_def is_process_elevated_def close_socket_def
      live_sockets_append live_step_def Let_def split_beta split: if_splits option.splits)
qed

lemma capture_link_traffic_cases:
  assumes "capture_link_traffic os iface listen_window result t = Some (result', t')"
  shows "live_sockets t' = live_sockets t"
    and "host_observations (os_inet os) (ni_ipv4 iface) (l2_observations result) \<Longrightarrow>
      host_observations (os_inet os) (ni_ipv4 iface) (l2_observations result')"
proof -
  obtain r t1 where o: "run_state (open_capture os iface result) t = (r, t1)" by force
  have "live_sockets t' = live_sockets t \<and>
      (host_observations (os_inet os) (ni_ipv4 iface) (l2_observations result) \<longrightarrow>
       host_observations (os_inet os) (ni_ipv4 iface) (l2_observations result'))"
    using open_capture_cases [OF o]
  proof (elim disjE exE conjE)
    fix h
    assume h: "r = Inr h" "live_sockets t1 = live_sockets t + {#h#}" "h \<noteq> kInvalidSocket"
    let ?t2 = "t1 @ [Proc (Ev_now (os_now os t1))]"
    from assms o h(1) obtain obs t3 where
      l: "capture_loop os (ni_ipv4 iface) h (os_now os t1 + listen_window * kNanosPerMilli)
          (l2_observations result) ?t2 = Some (obs, t3)"
      and r: "result' = result\<lparr>l2_observations := obs\<rparr>" "t' = snd (run_state (close_socket h) t3)"
      by (auto simp: capture_link_traffic_def split: option.splits)
    with capture_loop_invariant [OF l] h(2,3) show ?thesis
      by (simp add: round_invariant_def live_step_def owned_def)
  qed (use assms o in \<open>auto simp: capture_link_traffic_def\<close>)
  then show "live_sockets t' = live_sockets t"
    and "host_observations (os_inet os) (ni_ipv4 iface) (l2_observations result) \<Longrightarrow>
      host_observations (os_inet os) (ni_ipv4 iface) (l2_observations result')" by blast+
qed

lemma discovery_sound:
  assumes "discover_link_layer_hosts os table iface listen_window t = Some (result, t')"
  shows "(distinct (map obs_ip (l2_observations result)))
    \<and> (list_all (\<lambda>ip. \<not> is_uninteresting_address (os_inet os) ip \<and> ip \<noteq> ni_ipv4 iface)
      (map obs_ip (l2_observations result)))
    \<and> (l2_error result = [] \<longleftrightarrow> l2_observations result \<noteq> [])
    \<and> (live_sockets t' = live_sockets t)"
proof (intro conjI)
  let ?api = "os_inet os" and ?own = "ni_ipv4 iface"
  obtain cached t1 where c: "run_state (read_neighbour_cache os table (ni_if_index iface)) t = (cached, t1)" by force
  define r0 where "r0 = \<lparr>l2_observations = add_cached ?api iface [] cached, l2_permission_denied = False, l2_error = []\<rparr>"
  from assms c obtain r1 t2 where l: "capture_link_traffic os iface listen_window r0 t1 = Some (r1, t2)"
    by (auto simp: discover_link_layer_hosts_def r0_def split_beta split: option.splits)
  obtain cached' t3 where c': "run_state (read_neighbour_cache os table (ni_if_index iface)) t2 = (cached', t3)" by force
  have res: "result = finish_discovery iface (r1\<lparr>l2_observations := add_cached ?api iface (l2_observations r1) cached'\<rparr>)"
    and t': "t' = t3"
    using assms c c' l by (auto simp: discover_link_layer_hosts_def r0_def split_beta)
  have keep: "keeps live_sockets (read_neighbour_cache os table (ni_if_index iface))"
    unfolding read_neighbour_cache_def
    by (auto intro!: keeps_bind keeps_live_syscall simp: socket_neutral_def split: option.split)
  show "live_sockets t' = live_sockets t"
    using keepsD [OF keep c] keepsD [OF keep c'] capture_link_traffic_cases(1) [OF l] t' by simp
  have none: "host_observations ?api ?own []" by (simp add: host_observations_def)
  then have "host_observations ?api ?own (l2_observations r0)"
    by (simp add: r0_def add_cached_host)
  from capture_link_traffic_cases(2) [OF l this]
  have "host_observations ?api ?own (l2_observations result)"
    unfolding res using none by (simp add: finish_discovery_def add_cached_host)
  then show "distinct (map obs_ip (l2_observations result))"
    and "list_all (\<lambda>ip. \<not> is_uninteresting_address ?api ip \<and> ip \<noteq> ?own)
      (map obs_ip (l2_observations result))" by (simp_all add: host_observations_def)
  show "l2_error result = [] \<longleftrightarrow> l2_observations result \<noteq> []"
    unfolding res by (simp add: finish_discovery_def)
qed

section \<open>Where the observations come from\<close>

text \<open>
  A station of the neighbour cache: a row that a reading of the table during the events \<open>es\<close>, which
  follow \<open>t\<close>, gave for the interface, resolved and with a hardware address.
\<close>

definition cached_station :: "inet_api \<Rightarrow> net_table \<Rightarrow> NetworkInterface \<Rightarrow> trace \<Rightarrow> event list \<Rightarrow> string \<Rightarrow> bool" where
  "cached_station api table iface t es ip \<longleftrightarrow> (\<exists>u v rows row. es = u @ Proc (Ev_GetIpNetTable2 True) # v
     \<and> table (t @ u) = Some rows \<and> row \<in> set rows \<and> row_InterfaceIndex row = ni_if_index iface
     \<and> row_State row \<notin> {NlnsUnreachable, NlnsIncomplete} \<and> row_PhysicalAddress row \<notin> {[], replicate 6 0}
     \<and> format_ipv4 api (row_Address row) = ip)"

text \<open>
  A station heard on the link: the sender of a packet received on a promiscuous socket that is bound to
  the address of the interface.
\<close>

definition heard_station :: "inet_api \<Rightarrow> NetworkInterface \<Rightarrow> event list \<Rightarrow> string \<Rightarrow> bool" where
  "heard_station api iface es ip \<longleftrightarrow> (\<exists>h own bytes. inet_pton api (c_str (ni_ipv4 iface)) = Some own
     \<and> {Sock (Ev_socket Sock_raw h), Sock (Ev_bind h own True), Sock (Ev_SIO_RCVALL h True),
        Sock (Ev_recv h kCaptureBufferSize (Received bytes))} \<subseteq> set es
     \<and> ipv4_header_ok (packet_bytes bytes) \<and> ip = format_ipv4 api (le_word (packet_bytes bytes ! 12)
          (packet_bytes bytes ! 13) (packet_bytes bytes ! 14) (packet_bytes bytes ! 15)))"

fun station_seen :: "inet_api \<Rightarrow> net_table \<Rightarrow> NetworkInterface \<Rightarrow> trace \<Rightarrow> event list \<Rightarrow> L2ObservationSource \<Rightarrow> string \<Rightarrow> bool" where
  "station_seen api table iface t es NeighbourCache ip \<longleftrightarrow> cached_station api table iface t es ip"
| "station_seen api table iface t es Ipv4Traffic ip \<longleftrightarrow> heard_station api iface es ip"
| "station_seen api table iface t es ArpTraffic ip \<longleftrightarrow> False"

lemma station_seen_grow:
  assumes "station_seen api table iface (t @ a) es source ip"
  shows "station_seen api table iface t (a @ es @ b) source ip"
proof (cases source)
  case NeighbourCache
  with assms obtain u v rows row where "es = u @ Proc (Ev_GetIpNetTable2 True) # v" "table (t @ a @ u) = Some rows"
    "row \<in> set rows" "row_InterfaceIndex row = ni_if_index iface" "row_State row \<notin> {NlnsUnreachable, NlnsIncomplete}"
    "row_PhysicalAddress row \<notin> {[], replicate 6 0}" "format_ipv4 api (row_Address row) = ip"
    by (auto simp: cached_station_def)
  then show ?thesis
    unfolding NeighbourCache station_seen.simps cached_station_def
    by (intro exI [of _ "a @ u"] exI [of _ "v @ b"] exI [of _ rows] exI [of _ row]) simp
next
  case Ipv4Traffic
  with assms show ?thesis by (auto simp: heard_station_def)
qed (use assms in simp)

abbreviation all_seen :: "(L2ObservationSource \<Rightarrow> string \<Rightarrow> bool) \<Rightarrow> L2Observation list \<Rightarrow> bool" where
  "all_seen S \<equiv> list_all (\<lambda>observation. S (obs_source observation) (obs_ip observation))"

lemma all_seen_mono: "all_seen S os \<Longrightarrow> (\<And>source ip. S source ip \<Longrightarrow> S' source ip) \<Longrightarrow> all_seen S' os"
  by (auto simp: list_all_iff)

lemma merge_mac_seen: "all_seen S os \<Longrightarrow> all_seen S (merge_mac os c)"
  by (induction os) auto

lemma add_observation_seen: "all_seen S os \<Longrightarrow> S (obs_source c) (obs_ip c) \<Longrightarrow> all_seen S (add_observation api os c)"
  by (simp add: add_observation_def merge_mac_seen)

lemma foldl_seen: "all_seen S os \<Longrightarrow> all_seen S cs \<Longrightarrow> all_seen S (foldl (add_observation api) os cs)"
  by (induction cs arbitrary: os) (simp_all add: add_observation_seen)

lemma add_cached_seen: "all_seen S os \<Longrightarrow> all_seen S cs \<Longrightarrow> all_seen S (add_cached api iface os cs)"
  unfolding add_cached_def by (induction cs arbitrary: os) (simp_all add: add_observation_seen)

lemma zero_mac: "row_PhysicalAddress row \<in> {[], replicate 6 0} \<Longrightarrow> is_zero_mac (format_station_mac (row_PhysicalAddress row))"
proof -
  have "is_zero_mac (format_station_mac [])" "is_zero_mac (format_station_mac (replicate 6 0))" by code_simp+
  then show "row_PhysicalAddress row \<in> {[], replicate 6 0} \<Longrightarrow> ?thesis" by auto
qed

lemma neighbour_cache_seen:
  assumes "run_state (read_neighbour_cache os table (ni_if_index iface)) t = (cached, t')"
  shows "\<exists>e. t' = t @ [e] \<and> all_seen (station_seen (os_inet os) table iface t [e]) cached"
proof (cases "table t")
  case None
  with assms show ?thesis by (auto simp: read_neighbour_cache_def)
next
  case (Some rows)
  let ?e = "Proc (Ev_GetIpNetTable2 True)"
  have "all_seen (station_seen (os_inet os) table iface t [?e])
      (map entry_observation (filter (eligible_entry (ni_if_index iface)) (map (entry_of_row (os_inet os)) rows)))"
  proof -
    have "cached_station (os_inet os) table iface t [?e] (ne_ip (entry_of_row (os_inet os) row))"
      if "row \<in> set rows" "eligible_entry (ni_if_index iface) (entry_of_row (os_inet os) row)" for row
      unfolding cached_station_def using that Some zero_mac [of row]
      by (intro exI [of _ "[]"] exI [of _ rows] exI [of _ row]) (auto simp: eligible_entry_def entry_of_row_def)
    then show ?thesis by (auto simp: list_all_iff entry_observation_def)
  qed
  then have "all_seen (station_seen (os_inet os) table iface t [?e])
      (select_neighbour_entries (os_inet os) (map (entry_of_row (os_inet os)) rows) (ni_if_index iface))"
    unfolding select_fold by (intro foldl_seen) simp_all
  with assms Some show ?thesis by (auto simp: read_neighbour_cache_def)
qed

text \<open>What a round or the loop adds: the senders of the packets that it received.\<close>

definition sender :: "inet_api \<Rightarrow> socket_t \<Rightarrow> event list \<Rightarrow> string \<Rightarrow> bool" where
  "sender api h es ip \<longleftrightarrow> (\<exists>bytes. Sock (Ev_recv h kCaptureBufferSize (Received bytes)) \<in> set es
     \<and> ipv4_header_ok (packet_bytes bytes) \<and> ip = format_ipv4 api (le_word (packet_bytes bytes ! 12)
          (packet_bytes bytes ! 13) (packet_bytes bytes ! 14) (packet_bytes bytes ! 15)))"

definition traced :: "inet_api \<Rightarrow> socket_t \<Rightarrow> L2Observation list \<Rightarrow> trace \<Rightarrow> L2Observation list \<Rightarrow> trace \<Rightarrow> bool" where
  "traced api h obs t obs' t' \<longleftrightarrow> (\<exists>es. t' = t @ es \<and> (\<forall>S. all_seen S obs \<longrightarrow>
     (\<forall>ip. sender api h es ip \<longrightarrow> S Ipv4Traffic ip) \<longrightarrow> all_seen S obs'))"

lemma traced_trans: "traced api h obs t obs1 t1 \<Longrightarrow> traced api h obs1 t1 obs2 t2 \<Longrightarrow> traced api h obs t obs2 t2"
  unfolding traced_def
proof (elim exE conjE)
  fix es fs
  assume a: "t1 = t @ es" "\<forall>S. all_seen S obs \<longrightarrow> (\<forall>ip. sender api h es ip \<longrightarrow> S Ipv4Traffic ip) \<longrightarrow> all_seen S obs1"
    and b: "t2 = t1 @ fs" "\<forall>S. all_seen S obs1 \<longrightarrow> (\<forall>ip. sender api h fs ip \<longrightarrow> S Ipv4Traffic ip) \<longrightarrow> all_seen S obs2"
  have "sender api h (es @ fs) ip" if "sender api h es ip \<or> sender api h fs ip" for ip
    using that by (auto simp: sender_def)
  with a b show "\<exists>es. t2 = t @ es \<and> (\<forall>S. all_seen S obs \<longrightarrow> (\<forall>ip. sender api h es ip \<longrightarrow> S Ipv4Traffic ip) \<longrightarrow> all_seen S obs2)"
    by (intro exI [of _ "es @ fs"]) auto
qed

lemma source_of_packet:
  assumes "parse_ipv4_source_address api (Some packet) \<noteq> []"
  shows "ipv4_header_ok packet \<and> parse_ipv4_source_address api (Some packet)
    = format_ipv4 api (le_word (packet ! 12) (packet ! 13) (packet ! 14) (packet ! 15))"
  using assms
  by (auto simp: parse_ipv4_source_address_def kIpv4HeaderMinimum_def kIpv4SourceOffset_def ipv4_header_ok_def
      byte_nibbles Let_def split: if_splits)

lemma record_packet_seen:
  assumes "all_seen S obs" and "\<And>ip. sender api h [Sock (Ev_recv h kCaptureBufferSize (Received bytes))] ip \<Longrightarrow> S Ipv4Traffic ip"
  shows "all_seen S (record_packet api own obs bytes)"
proof (cases "parse_ipv4_source_address api (Some (packet_bytes bytes)) = []")
  case False
  from source_of_packet [OF this]
  have "S Ipv4Traffic (parse_ipv4_source_address api (Some (packet_bytes bytes)))"
    by (intro assms(2)) (auto simp: sender_def)
  with assms(1) show ?thesis by (simp add: record_packet_def Let_def add_observation_seen)
qed (use assms(1) in \<open>simp add: record_packet_def\<close>)

lemma capture_round_traced:
  assumes "run_state (capture_round os own h deadline obs) t = ((obs', go), t')"
  shows "traced (os_inet os) h obs t obs' t'"
proof -
  consider (same) es where "t' = t @ es" "obs' = obs"
    | (packet) es bytes where "t' = t @ es" "Sock (Ev_recv h kCaptureBufferSize (Received bytes)) \<in> set es"
      "obs' = record_packet (os_inet os) own obs bytes"
    using assms
    by (auto simp: capture_round_def wait_for_socket_def last_socket_error_def Let_def split: if_splits recv_result.splits)
  then show ?thesis
  proof cases
    case same
    then show ?thesis by (auto simp: traced_def)
  next
    case packet
    have "sender (os_inet os) h es ip" if "sender (os_inet os) h [Sock (Ev_recv h kCaptureBufferSize (Received bytes))] ip" for ip
      using that packet(2) by (auto simp: sender_def)
    with packet show ?thesis unfolding traced_def by (blast intro: record_packet_seen)
  qed
qed

lemma capture_loop_traced:
  assumes "capture_loop os own h deadline obs t = Some (obs', t')"
  shows "traced (os_inet os) h obs t obs' t'"
proof -
  have "traced (os_inet os) h obs t (fst (obs', t')) (snd (obs', t'))"
  proof (rule capture_loop.raw_induct [where P = "\<lambda>os own h deadline obs t r.
        traced (os_inet os) h obs t (fst r) (snd r)", OF _ assms], goal_cases)
    case (1 loop os own h deadline obs t r)
    obtain obs1 go t1 where run: "run_state (capture_round os own h deadline obs) t = ((obs1, go), t1)"
      by (metis surj_pair)
    have "traced (os_inet os) h obs t obs1 t1" by (rule capture_round_traced [OF run])
    moreover have "if go then loop os own h deadline obs1 t1 = Some r else r = (obs1, t1)"
      using 1(2) by (simp add: run split: if_splits)
    ultimately show ?case
      using 1(1) traced_trans by (cases go) auto
  qed
  then show ?thesis by simp
qed

text \<open>The capture socket of a discovery: opened raw, bound to the interface's address, promiscuous.\<close>

definition capturing :: "inet_api \<Rightarrow> NetworkInterface \<Rightarrow> socket_t \<Rightarrow> event list \<Rightarrow> bool" where
  "capturing api iface h es \<longleftrightarrow> (\<exists>own. inet_pton api (c_str (ni_ipv4 iface)) = Some own
     \<and> {Sock (Ev_socket Sock_raw h), Sock (Ev_bind h own True), Sock (Ev_SIO_RCVALL h True)} \<subseteq> set es)"

lemma open_capture_events:
  assumes "run_state (open_capture os iface result) t = (r, t')"
  shows "\<exists>es. t' = t @ es \<and> (case r of Inl f \<Rightarrow> l2_observations f = l2_observations result
    | Inr h \<Rightarrow> capturing (os_inet os) iface h es)"
proof -
  obtain ok t0 where init: "run_state (ensure_winsock_initialised os) t = (ok, t0)" by force
  then obtain as where "t0 = t @ as" by (auto simp: ensure_winsock_initialised_def split: option.splits)
  then show ?thesis
    using assms
    by (auto simp: open_capture_def init last_socket_error_def socket_error_text_def is_process_elevated_def
      close_socket_def capturing_def Let_def split_beta split: if_splits option.splits)
qed

lemma sender_heard: "sender api h es ip \<Longrightarrow> capturing api iface h as \<Longrightarrow> heard_station api iface (as @ bs @ es) ip"
  unfolding sender_def capturing_def heard_station_def by auto

lemma capture_link_traffic_seen:
  assumes "capture_link_traffic os iface listen_window result t = Some (result', t')"
  shows "\<exists>es. t' = t @ es \<and> (\<forall>S. all_seen S (l2_observations result) \<longrightarrow>
    (\<forall>ip. heard_station (os_inet os) iface es ip \<longrightarrow> S Ipv4Traffic ip) \<longrightarrow> all_seen S (l2_observations result'))"
proof -
  obtain r t1 where o: "run_state (open_capture os iface result) t = (r, t1)" by force
  from open_capture_events [OF o] obtain as where as: "t1 = t @ as" and
    r: "case r of Inl f \<Rightarrow> l2_observations f = l2_observations result | Inr h \<Rightarrow> capturing (os_inet os) iface h as"
    by blast
  show ?thesis
  proof (cases r)
    case (Inl f)
    with assms o as r show ?thesis by (auto simp: capture_link_traffic_def)
  next
    case (Inr h)
    let ?now = "Proc (Ev_now (os_now os t1))"
    from assms o Inr obtain obs t3 where
      l: "capture_loop os (ni_ipv4 iface) h (os_now os t1 + listen_window * kNanosPerMilli)
          (l2_observations result) (t1 @ [?now]) = Some (obs, t3)"
      and r': "result' = result\<lparr>l2_observations := obs\<rparr>" "t' = snd (run_state (close_socket h) t3)"
      by (auto simp: capture_link_traffic_def split: option.splits)
    from capture_loop_traced [OF l] obtain es where es: "t3 = t1 @ [?now] @ es" and
      S: "\<And>S. all_seen S (l2_observations result) \<Longrightarrow> (\<forall>ip. sender (os_inet os) h es ip \<longrightarrow> S Ipv4Traffic ip)
        \<Longrightarrow> all_seen S obs"
      by (auto simp: traced_def)
    obtain bs where bs: "t' = t3 @ bs" using r'(2) by (auto simp: close_socket_def split: if_splits)
    have "heard_station (os_inet os) iface (as @ [?now] @ es @ bs) ip" if s: "sender (os_inet os) h es ip" for ip
    proof (rule sender_heard)
      show "sender (os_inet os) h (es @ bs) ip" using s by (auto simp: sender_def)
      show "capturing (os_inet os) iface h as" using Inr r by simp
    qed
    then show ?thesis using as es bs S r'(1) by (intro exI [of _ "as @ [?now] @ es @ bs"]) auto
  qed
qed

lemma discovery_seen:
  assumes "discover_link_layer_hosts os table iface listen_window t = Some (result, t')"
  shows "\<exists>es. t' = t @ es \<and> all_seen (station_seen (os_inet os) table iface t es) (l2_observations result)"
proof -
  let ?api = "os_inet os"
  obtain cached t1 where c: "run_state (read_neighbour_cache os table (ni_if_index iface)) t = (cached, t1)" by force
  define r0 where "r0 = \<lparr>l2_observations = add_cached ?api iface [] cached, l2_permission_denied = False, l2_error = []\<rparr>"
  from assms c obtain r1 t2 where l: "capture_link_traffic os iface listen_window r0 t1 = Some (r1, t2)"
    by (auto simp: discover_link_layer_hosts_def r0_def split_beta split: option.splits)
  obtain cached' t3 where c': "run_state (read_neighbour_cache os table (ni_if_index iface)) t2 = (cached', t3)" by force
  have res: "result = finish_discovery iface (r1\<lparr>l2_observations := add_cached ?api iface (l2_observations r1) cached'\<rparr>)"
    and t': "t' = t3"
    using assms c c' l by (auto simp: discover_link_layer_hosts_def r0_def split_beta)
  from neighbour_cache_seen [OF c] obtain e where e: "t1 = t @ [e]" "all_seen (station_seen ?api table iface t [e]) cached"
    by blast
  from capture_link_traffic_seen [OF l] obtain es where es: "t2 = t1 @ es" and
    S: "\<And>S. all_seen S (l2_observations r0) \<Longrightarrow> (\<forall>ip. heard_station ?api iface es ip \<longrightarrow> S Ipv4Traffic ip) \<Longrightarrow> all_seen S (l2_observations r1)"
    by blast
  from neighbour_cache_seen [OF c'] obtain e' where e': "t3 = t2 @ [e']" "all_seen (station_seen ?api table iface t2 [e']) cached'"
    by blast
  let ?es = "[e] @ es @ [e']" and ?S = "station_seen ?api table iface t ([e] @ es @ [e'])"
  have "all_seen ?S cached"
    using all_seen_mono [OF e(2)] station_seen_grow [where a = "[]" and es = "[e]" and b = "es @ [e']"] by simp
  moreover have "all_seen ?S cached'"
    using all_seen_mono [OF e'(2)] station_seen_grow [where a = "[e] @ es" and es = "[e']" and b = "[]"] e(1) es by simp
  moreover have "heard_station ?api iface ?es ip" if "heard_station ?api iface es ip" for ip
    using that by (auto simp: heard_station_def)
  ultimately have "all_seen ?S (l2_observations result)"
    using S [of ?S] by (auto simp: res r0_def finish_discovery_def add_cached_seen)
  then show ?thesis using e(1) es e'(1) t' by (intro exI [of _ ?es]) simp
qed

text \<open>What the test of the code means: the address is text that \<open>inet_pton\<close> accepts, below 224.0.0.0.\<close>

lemma multicast_mask: "0xE0000000 \<le> ((w :: u32) AND 0xF0000000) \<longleftrightarrow> 0xE0000000 \<le> w"
proof -
  have "(0xF0000000 :: u32) = contiguous_mask 4" by code_simp
  then have "unat (w AND 0xF0000000) = unat w div 2 ^ 28 * 2 ^ 28" using unat_and_contiguous [of 4 w] by simp
  moreover have "14 * 2 ^ 28 \<le> n div 2 ^ 28 * 2 ^ 28 \<longleftrightarrow> 14 * 2 ^ 28 \<le> n" for n :: nat
    by (simp add: less_eq_div_iff_mult_less_eq)
  ultimately show ?thesis by (simp add: word_le_nat_alt)
qed

definition unicast :: "inet_api \<Rightarrow> string \<Rightarrow> bool" where
  "unicast api ip \<longleftrightarrow> ip \<noteq> [] \<and> ip \<noteq> ''0.0.0.0'' \<and> ip \<noteq> ''255.255.255.255''
     \<and> (\<exists>a. inet_pton api (c_str ip) = Some a \<and> ntohl api a < 0xE0000000)"

lemma interesting_unicast: "\<not> is_uninteresting_address api ip \<longleftrightarrow> unicast api ip"
  by (auto simp: is_uninteresting_address_def unicast_def multicast_mask not_le split: option.split)

text \<open>C34: Layer-2 discovery reports stations of the link only: the addresses are distinct, each was
given by a usable row of the neighbour cache for the interface or by the header of a packet received on a
promiscuous socket bound to the interface's address; each is text that \<open>inet_pton\<close> accepts, below
224.0.0.0 and neither unspecified nor the PC's own, so no multicast and no limited broadcast
address is among them. The broadcast address of a subnet is not excluded, although the comment of the
header promises it. The result has a diagnostic exactly when nothing was found, and no socket is left
open.\<close>

theorem link_layer_hosts_sound:
  assumes "discover_link_layer_hosts os table iface listen_window t = Some (result, t')"
  shows "\<exists>es. t' = t @ es \<and> distinct (map obs_ip (l2_observations result))
    \<and> list_all (\<lambda>observation. let ip = obs_ip observation in
        ip \<noteq> ni_ipv4 iface \<and> ip \<noteq> [] \<and> ip \<noteq> ''0.0.0.0'' \<and> ip \<noteq> ''255.255.255.255''
        \<and> (\<exists>a. inet_pton (os_inet os) (c_str ip) = Some a \<and> ntohl (os_inet os) a < 0xE0000000)
        \<and> station_seen (os_inet os) table iface t es (obs_source observation) ip)
      (l2_observations result)
    \<and> (l2_error result = [] \<longleftrightarrow> l2_observations result \<noteq> [])
    \<and> live_sockets t' = live_sockets t"
proof -
  from discovery_seen [OF assms] obtain es where "t' = t @ es"
    and "all_seen (station_seen (os_inet os) table iface t es) (l2_observations result)" by blast
  with discovery_sound [OF assms] show ?thesis
    by (intro exI [of _ es]) (auto simp: interesting_unicast unicast_def Let_def list_all_iff)
qed

lemma discovery_total:
  assumes "ticking n os"
  shows "\<exists>result t'. discover_link_layer_hosts os table iface listen_window t = Some (result, t')"
proof -
  have "\<exists>r. capture_link_traffic os iface listen_window result t1 = Some r" for result t1
  proof -
    obtain r t2 where o: "run_state (open_capture os iface result) t1 = (r, t2)" by force
    show ?thesis
    proof (cases r)
      case (Inr h)
      let ?t3 = "t2 @ [Proc (Ev_now (os_now os t2))]"
      obtain obs t4 where "capture_loop os (ni_ipv4 iface) h (os_now os t2 + listen_window * kNanosPerMilli)
          (l2_observations result) ?t3 = Some (obs, t4)"
        using capture_loop_terminates [OF assms, of "ni_ipv4 iface" h _ _ ?t3 "[]"] by fastforce
      with o Inr show ?thesis by (simp add: capture_link_traffic_def)
    qed (simp add: capture_link_traffic_def o)
  qed
  then show ?thesis
    by (fastforce simp: discover_link_layer_hosts_def split_beta split: option.split)
qed

text \<open>When the clock advances at least once in every \<open>n\<close> system calls, discovery returns: the
capture loop, which only the clock ends, cannot go on forever.\<close>

theorem link_layer_discovery_returns:
  assumes "ticking n os"
  shows "\<exists>result t'. discover_link_layer_hosts os table iface listen_window t = Some (result, t')"
  by (rule discovery_total [OF assms])

text \<open>The broadcast address of a subnet is kept like a host's: unlike the limited broadcast
address, a row such as the permanent entry of 192.168.10.255 passes the selection although its
hardware address is the broadcast address.\<close>

theorem directed_broadcast_is_selected:
  "select_neighbour_entries dotted_api
     [\<lparr>ne_if_index = 11, ne_ip = ''192.168.10.255'', ne_mac = ''ff:ff:ff:ff:ff:ff'', ne_reachable = True\<rparr>,
      \<lparr>ne_if_index = 11, ne_ip = ''255.255.255.255'', ne_mac = ''ff:ff:ff:ff:ff:ff'', ne_reachable = True\<rparr>,
      \<lparr>ne_if_index = 11, ne_ip = ''224.0.0.22'', ne_mac = ''01:00:5e:00:00:16'', ne_reachable = True\<rparr>] 11
   = [\<lparr>obs_ip = ''192.168.10.255'', obs_mac = ''ff:ff:ff:ff:ff:ff'', obs_source = NeighbourCache\<rparr>]"
  by code_simp

section \<open>Witnesses\<close>

definition sample_table :: net_table where
  "sample_table t = Some
     [\<lparr>row_InterfaceIndex = 11, row_Address = le_word 192 168 10 50,
       row_PhysicalAddress = [0, 12, 41, 74, 27, 44], row_State = NlnsReachable\<rparr>]"

definition sample_capture_link :: NetworkInterface where
  "sample_capture_link =
     \<lparr>ni_name = ''Ethernet'', ni_ipv4 = ''192.168.10.1'', ni_netmask = ''255.255.255.0'',
      ni_address = 0xC0A80A01, ni_mask = 0xFFFFFF00, ni_is_loopback = False, ni_is_up = True,
      ni_is_running = True, ni_is_point_to_point = False, ni_if_index = 11, ni_mac = [],
      ni_description = []\<rparr>"

lemma sample_os_ticking: "ticking 1 sample_os"
  by (auto simp: ticking_def sample_os_def)

theorem link_layer_hosts_sound_witness:
  "\<exists>result t'. discover_link_layer_hosts sample_os sample_table sample_capture_link 4000 [] = Some (result, t')
     \<and> distinct (map obs_ip (l2_observations result))
     \<and> (l2_error result = [] \<longleftrightarrow> l2_observations result \<noteq> []) \<and> live_sockets t' = {#}"
proof -
  obtain result t' where
    d: "discover_link_layer_hosts sample_os sample_table sample_capture_link 4000 [] = Some (result, t')"
    using discovery_total [OF sample_os_ticking] by blast
  with link_layer_hosts_sound [OF d] show ?thesis by auto
qed

theorem link_layer_discovery_returns_witness:
  "\<exists>result t'. discover_link_layer_hosts sample_os sample_table sample_capture_link 4000 [] = Some (result, t')"
  by (rule link_layer_discovery_returns [OF sample_os_ticking])

end
