(* ===== verification/Thread_Pool.thy ===== *)
theory Thread_Pool
  imports Prelude "HOL-Library.Multiset"
begin

text \<open>
  \<open>src/src/threading/thread_pool.cpp\<close> and \<open>.hpp\<close>: the pool as a state machine. Every critical
  section of the mutex is one step; \<open>notify_one\<close>, \<open>notify_all\<close>, the joins, the run of a task and
  spurious wake-ups are steps of their own, so a schedule is any sequence of steps. The fields
  \<open>submitted\<close> and \<open>completed\<close> record the history: the future of the \<open>i\<close>-th task is ready once \<open>i\<close>
  is completed. The call of a task is the parameter \<open>run\<close>. The invariants hold of every reachable
  state; liveness is stated by a weight that every step of the pool decreases.
\<close>

section \<open>State\<close>

datatype 'r outcome = Value 'r | Raised

datatype 'a worker = Checking | Blocked | Running nat 'a | Exited

text \<open>How far the first call of \<open>shutdown\<close> has come; \<open>Joining i\<close> waits for worker \<open>i\<close>.\<close>

datatype shutdown_phase = Not_called | Notifying | Joining nat | Joined

record ('a, 'r) pool =
  tasks :: "(nat \<times> 'a) list"
  stopping :: bool
  workers :: "'a worker list"
  notifications :: nat
  phase :: shutdown_phase
  submitted :: "'a list"
  completed :: "(nat \<times> 'r outcome) list"

definition thread_pool :: "nat \<Rightarrow> ('a, 'r) pool" where
  "thread_pool worker_count =
     \<lparr>tasks = [], stopping = False, workers = replicate (max 1 worker_count) Checking,
      notifications = 0, phase = Not_called, submitted = [], completed = []\<rparr>"

text \<open>
  The constructor. A thread that the system cannot start makes \<open>std::thread\<close> throw: \<open>failure i\<close>
  is the text of that exception for the \<open>i\<close>-th thread. The exception destroys \<open>workers_\<close>, and the
  destructor of a thread that runs calls \<open>std::terminate\<close>, so it only leaves the constructor when no
  worker was started yet.
\<close>

datatype 'p construction = Constructed 'p | Throws string | Terminates

fun emplace_workers :: "(nat \<Rightarrow> string option) \<Rightarrow> nat \<Rightarrow> 'a worker list \<Rightarrow> 'a worker list construction" where
  "emplace_workers failure 0 ws = Constructed ws"
| "emplace_workers failure (Suc missing) ws =
     (case failure (length ws) of
        None \<Rightarrow> emplace_workers failure missing (ws @ [Checking])
      | Some what \<Rightarrow> if ws = [] then Throws what else Terminates)"

definition construct_pool :: "(nat \<Rightarrow> string option) \<Rightarrow> nat \<Rightarrow> ('a, 'r) pool construction" where
  "construct_pool failure worker_count =
     (case emplace_workers failure (max 1 worker_count) [] of
        Constructed ws \<Rightarrow> Constructed (thread_pool worker_count \<lparr>workers := ws\<rparr>)
      | Throws what \<Rightarrow> Throws what
      | Terminates \<Rightarrow> Terminates)"

definition worker_count :: "('a, 'r) pool \<Rightarrow> nat" where
  "worker_count s = length (workers s)"

definition pending_tasks :: "('a, 'r) pool \<Rightarrow> nat" where
  "pending_tasks s = length (tasks s)"

text \<open>The state of the future that the \<open>i\<close>-th successful \<open>submit\<close> returned.\<close>

definition future :: "('a, 'r) pool \<Rightarrow> nat \<Rightarrow> 'r outcome option" where
  "future s i = map_of (completed s) i"

section \<open>Operations\<close>

text \<open>The critical section of \<open>submit\<close>; \<open>None\<close> is the exception after a shutdown.\<close>

definition submit :: "'a \<Rightarrow> ('a, 'r) pool \<Rightarrow> (('a, 'r) pool \<times> nat) option" where
  "submit task s =
     (if stopping s then None
      else Some (s\<lparr>tasks := tasks s @ [(length (submitted s), task)],
                  submitted := submitted s @ [task],
                  notifications := Suc (notifications s)\<rparr>,
                 length (submitted s)))"

text \<open>
  \<open>notify_one\<close> after the critical section: it wakes some blocked worker, or nobody when none is
  blocked.
\<close>

definition notify_one :: "nat option \<Rightarrow> ('a, 'r) pool \<Rightarrow> ('a, 'r) pool option" where
  "notify_one woken s =
     (if notifications s = 0 then None
      else case woken of
          None \<Rightarrow> if Blocked \<in> set (workers s) then None
                  else Some (s\<lparr>notifications := notifications s - 1\<rparr>)
        | Some i \<Rightarrow>
            if i < length (workers s) \<and> workers s ! i = Blocked
            then Some (s\<lparr>notifications := notifications s - 1, workers := (workers s)[i := Checking]\<rparr>)
            else None)"

text \<open>
  One pass of \<open>worker_loop\<close> through its critical section: the predicate of \<open>cv_.wait\<close>, then the
  test of the queue.
\<close>

definition worker_check :: "nat \<Rightarrow> ('a, 'r) pool \<Rightarrow> ('a, 'r) pool option" where
  "worker_check i s =
     (if i < length (workers s) \<and> workers s ! i = Checking
      then Some
        (if \<not> (stopping s \<or> tasks s \<noteq> []) then s\<lparr>workers := (workers s)[i := Blocked]\<rparr>
         else case tasks s of
             [] \<Rightarrow> if stopping s then s\<lparr>workers := (workers s)[i := Exited]\<rparr> else s
           | (k, task) # rest \<Rightarrow> s\<lparr>tasks := rest, workers := (workers s)[i := Running k task]\<rparr>)
      else None)"

text \<open>\<open>task()\<close>: the packaged task stores its outcome, exceptions included, in its future.\<close>

definition worker_finish :: "('a \<Rightarrow> 'r outcome) \<Rightarrow> nat \<Rightarrow> ('a, 'r) pool \<Rightarrow> ('a, 'r) pool option" where
  "worker_finish run i s =
     (if i < length (workers s)
      then (case workers s ! i of
          Running k task \<Rightarrow> Some (s\<lparr>completed := (k, run task) # completed s,
                                    workers := (workers s)[i := Checking]\<rparr>)
        | _ \<Rightarrow> None)
      else None)"

definition spurious_wakeup :: "nat \<Rightarrow> ('a, 'r) pool \<Rightarrow> ('a, 'r) pool option" where
  "spurious_wakeup i s =
     (if i < length (workers s) \<and> workers s ! i = Blocked
      then Some (s\<lparr>workers := (workers s)[i := Checking]\<rparr>) else None)"

text \<open>\<open>shutdown\<close>: the critical section, \<open>notify_all\<close>, and the joins in the order of the workers.\<close>

definition begin_shutdown :: "('a, 'r) pool \<Rightarrow> ('a, 'r) pool" where
  "begin_shutdown s = (if stopping s then s else s\<lparr>stopping := True, phase := Notifying\<rparr>)"

definition notify_all :: "('a, 'r) pool \<Rightarrow> ('a, 'r) pool option" where
  "notify_all s =
     (if phase s = Notifying
      then Some (s\<lparr>phase := Joining 0,
                   workers := map (\<lambda>w. if w = Blocked then Checking else w) (workers s)\<rparr>)
      else None)"

definition join_next :: "('a, 'r) pool \<Rightarrow> ('a, 'r) pool option" where
  "join_next s =
     (case phase s of
        Joining i \<Rightarrow>
          if i < length (workers s)
          then (if workers s ! i = Exited then Some (s\<lparr>phase := Joining (Suc i)\<rparr>) else None)
          else Some (s\<lparr>phase := Joined\<rparr>)
      | _ \<Rightarrow> None)"

datatype 'a action = Submit 'a | Notify_one "nat option" | Check nat | Finish nat | Spurious nat
  | Begin_shutdown | Notify_all | Join_next

fun pool_action :: "('a \<Rightarrow> 'r outcome) \<Rightarrow> 'a action \<Rightarrow> ('a, 'r) pool \<Rightarrow> ('a, 'r) pool option" where
  "pool_action run (Submit task) s = map_option fst (submit task s)"
| "pool_action run (Notify_one woken) s = notify_one woken s"
| "pool_action run (Check i) s = worker_check i s"
| "pool_action run (Finish i) s = worker_finish run i s"
| "pool_action run (Spurious i) s = spurious_wakeup i s"
| "pool_action run Begin_shutdown s = Some (begin_shutdown s)"
| "pool_action run Notify_all s = notify_all s"
| "pool_action run Join_next s = join_next s"

inductive reachable :: "('a \<Rightarrow> 'r outcome) \<Rightarrow> nat \<Rightarrow> ('a, 'r) pool \<Rightarrow> bool" for run n where
  start: "reachable run n (thread_pool n)"
| step: "reachable run n s \<Longrightarrow> pool_action run a s = Some s' \<Longrightarrow> reachable run n s'"

fun run_actions :: "('a \<Rightarrow> 'r outcome) \<Rightarrow> 'a action list \<Rightarrow> ('a, 'r) pool \<Rightarrow> ('a, 'r) pool option" where
  "run_actions run [] s = Some s"
| "run_actions run (a # as) s =
     (case pool_action run a s of None \<Rightarrow> None | Some s' \<Rightarrow> run_actions run as s')"

lemma run_actions_reachable:
  "reachable run n s \<Longrightarrow> run_actions run as s = Some s' \<Longrightarrow> reachable run n s'"
  by (induction as arbitrary: s) (auto split: option.splits intro: reachable.step)

section \<open>Construction\<close>

lemma emplace_workers_result:
  "emplace_workers failure n ws =
     (if \<forall>i<n. failure (length ws + i) = None then Constructed (ws @ replicate n Checking)
      else if ws = [] \<and> failure 0 \<noteq> None then Throws (the (failure 0)) else Terminates)"
proof (induction n arbitrary: ws)
  case (Suc n)
  have all: "(\<forall>i<Suc n. failure (length ws + i) = None)
      \<longleftrightarrow> failure (length ws) = None \<and> (\<forall>i<n. failure (Suc (length ws) + i) = None)"
    by (simp only: All_less_Suc2) simp
  have "ws @ Checking # replicate n Checking = (ws @ [Checking]) @ replicate n Checking" by simp
  then show ?case unfolding all using Suc.IH [of "ws @ [Checking]"] by (auto split: option.split)
qed simp

text \<open>What the constructor comes to: a pool when every thread starts; an exception only when already the
first does not.\<close>

lemma construct_pool_result:
  "construct_pool failure n =
     (if \<forall>i<max 1 n. failure i = None then Constructed (thread_pool n)
      else case failure 0 of Some what \<Rightarrow> Throws what | None \<Rightarrow> Terminates)"
  by (auto simp: construct_pool_def emplace_workers_result thread_pool_def split: option.split)

lemma construct_pool_Constructed: "construct_pool failure n = Constructed pool \<Longrightarrow> pool = thread_pool n"
  by (auto simp: construct_pool_result split: if_splits option.splits)

section \<open>Counting workers\<close>

lemma sum_list_update:
  fixes f :: "'b \<Rightarrow> 'c :: cancel_comm_monoid_add"
  assumes "i < length ws"
  shows "sum_list (map f (ws[i := w])) + f (ws ! i) = sum_list (map f ws) + f w"
  using assms
proof (induction ws arbitrary: i)
  case (Cons v ws)
  then show ?case by (cases i) (auto simp: ac_simps)
qed simp

definition awake :: "'a worker \<Rightarrow> nat" where
  "awake w = (if w = Checking then 1 else 0)"

definition task_ids :: "'a worker \<Rightarrow> nat multiset" where
  "task_ids w = (case w of Running k t \<Rightarrow> {#k#} | _ \<Rightarrow> {#})"

text \<open>
  The first \<open>started s\<close> submissions, and only these, have left the queue; each of them is in the
  hands of exactly one worker or completed exactly once.
\<close>

definition started :: "('a, 'r) pool \<Rightarrow> nat" where
  "started s = length (submitted s) - length (tasks s)"

definition conserved :: "('a, 'r) pool \<Rightarrow> bool" where
  "conserved s \<longleftrightarrow> length (tasks s) \<le> length (submitted s)
   \<and> tasks s = drop (started s) (List.enumerate 0 (submitted s))
   \<and> sum_list (map task_ids (workers s)) + mset (map fst (completed s)) = mset [0..<started s]
   \<and> (\<forall>k t. Running k t \<in> set (workers s) \<longrightarrow> k < length (submitted s) \<and> submitted s ! k = t)"

definition outcomes_right :: "('a \<Rightarrow> 'r outcome) \<Rightarrow> ('a, 'r) pool \<Rightarrow> bool" where
  "outcomes_right run s \<longleftrightarrow>
     (\<forall>(k, r) \<in> set (completed s). k < length (submitted s) \<and> r = run (submitted s ! k))"

definition phases_right :: "('a, 'r) pool \<Rightarrow> bool" where
  "phases_right s \<longleftrightarrow> workers s \<noteq> [] \<and> (stopping s \<longleftrightarrow> phase s \<noteq> Not_called)
     \<and> (Exited \<in> set (workers s) \<longrightarrow> stopping s \<and> tasks s = [])
     \<and> (phase s \<notin> {Not_called, Notifying} \<longrightarrow> Blocked \<notin> set (workers s))
     \<and> (\<forall>i. phase s = Joining i \<longrightarrow> i \<le> length (workers s) \<and> (\<forall>j<i. workers s ! j = Exited))
     \<and> (phase s = Joined \<longrightarrow> set (workers s) \<subseteq> {Exited})"

definition no_lost_wakeup :: "('a, 'r) pool \<Rightarrow> bool" where
  "no_lost_wakeup s \<longleftrightarrow> (Blocked \<in> set (workers s) \<longrightarrow>
     length (tasks s) \<le> notifications s + sum_list (map awake (workers s)))"

declare submit_def [pool_simps] notify_one_def [pool_simps] worker_check_def [pool_simps] worker_finish_def [pool_simps]
  spurious_wakeup_def [pool_simps] begin_shutdown_def [pool_simps] notify_all_def [pool_simps] join_next_def [pool_simps]

lemmas pool_splits = if_splits option.splits worker.splits list.splits shutdown_phase.splits

lemma set_list_updateD: "x \<in> set (ws[i := w]) \<Longrightarrow> x = w \<or> x \<in> set ws"
  using set_update_subset_insert by fastforce

lemma nth_worker: "ws ! i = w \<Longrightarrow> i < length ws \<Longrightarrow> w \<in> set ws"
  by auto

lemma conserved_cong:
  assumes "conserved s" and "tasks s' = tasks s" and "submitted s' = submitted s" and "completed s' = completed s"
    and "sum_list (map task_ids (workers s')) = sum_list (map task_ids (workers s))"
    and "\<And>k t. Running k t \<in> set (workers s') \<Longrightarrow> Running k t \<in> set (workers s)"
  shows "conserved s'"
  using assms unfolding conserved_def started_def by auto

lemma task_ids_simps [simp]: "task_ids Checking = {#}" "task_ids Blocked = {#}" "task_ids Exited = {#}"
  "task_ids (Running k t) = {#k#}"
  by (simp_all add: task_ids_def)

lemma conserved_wake:
  assumes "conserved s" and "i < length (workers s)" and "task_ids (workers s ! i) = {#}" and "task_ids w = {#}"
    and "tasks s' = tasks s" "submitted s' = submitted s" "completed s' = completed s"
    and "workers s' = (workers s)[i := w]"
  shows "conserved s'"
proof (rule conserved_cong [OF assms(1,5-7)])
  show "sum_list (map task_ids (workers s')) = sum_list (map task_ids (workers s))"
    using sum_list_update [OF assms(2), of task_ids w] assms(3,4,8) by simp
  show "Running k t \<in> set (workers s)" if "Running k t \<in> set (workers s')" for k t
    using that assms(4,8) set_list_updateD by (fastforce simp: task_ids_def)
qed

lemma conserved_submit: "conserved s \<Longrightarrow> submit t s = Some (s', k) \<Longrightarrow> conserved s'"
  by (auto simp: conserved_def started_def submit_def nth_append enumerate_append_eq less_Suc_eq Suc_diff_le
      split: if_splits)

lemma conserved_pop:
  assumes "conserved s" and "i < length (workers s)" and "workers s ! i = Checking" and "tasks s = (k, t) # rest"
  shows "conserved (s\<lparr>tasks := rest, workers := (workers s)[i := Running k t]\<rparr>)"
proof -
  let ?n = "length (submitted s)" and ?m = "started s"
  have d: "(k, t) # rest = drop ?m (List.enumerate 0 (submitted s))" and le: "length (tasks s) \<le> ?n"
    and c: "sum_list (map task_ids (workers s)) + mset (map fst (completed s)) = mset [0..<?m]"
    using assms(1,4) by (simp_all add: conserved_def)
  have m: "?m < ?n" using le assms(4) by (simp add: started_def)
  then have "drop ?m (List.enumerate 0 (submitted s)) =
      (?m, submitted s ! ?m) # drop (Suc ?m) (List.enumerate 0 (submitted s))"
    by (subst Cons_nth_drop_Suc [symmetric]) (simp_all add: nth_enumerate_eq)
  with d have k: "k = ?m" "t = submitted s ! ?m" and r: "rest = drop (Suc ?m) (List.enumerate 0 (submitted s))"
    by simp_all
  have st: "?n - length rest = Suc ?m" using le assms(4) by (simp add: started_def)
  have "sum_list (map task_ids ((workers s)[i := Running k t])) = sum_list (map task_ids (workers s)) + {#k#}"
    using sum_list_update [OF assms(2), of task_ids "Running k t"] assms(3) by (simp add: task_ids_def)
  with c have "sum_list (map task_ids ((workers s)[i := Running k t])) + mset (map fst (completed s)) = mset [0..<Suc ?m]"
    using k by (simp add: ac_simps)
  moreover have "k' < ?n \<and> submitted s ! k' = t'" if "Running k' t' \<in> set ((workers s)[i := Running k t])" for k' t'
    using set_list_updateD [OF that] assms(1) k m by (auto simp: conserved_def)
  moreover have "started (s\<lparr>tasks := rest, workers := (workers s)[i := Running k t]\<rparr>) = Suc ?m"
    using st by (simp add: started_def)
  ultimately show ?thesis
    unfolding conserved_def using le assms(4) r by (intro conjI allI impI) simp_all
qed

lemma conserved_finish:
  assumes "conserved s" and "i < length (workers s)" and "workers s ! i = Running k t"
  shows "conserved (s\<lparr>completed := (k, r) # completed s, workers := (workers s)[i := Checking]\<rparr>)"
proof -
  have "sum_list (map task_ids ((workers s)[i := Checking])) + {#k#} = sum_list (map task_ids (workers s))"
    using sum_list_update [OF assms(2), of task_ids Checking] assms(3) by (simp add: task_ids_def)
  moreover have run: "Running k' t' \<in> set ((workers s)[i := Checking]) \<Longrightarrow> Running k' t' \<in> set (workers s)" for k' t'
    using set_list_updateD by fastforce
  moreover have "sum_list (map task_ids (workers s)) + mset (map fst (completed s)) = mset [0..<started s]"
    using assms(1) by (simp add: conserved_def)
  ultimately have "sum_list (map task_ids ((workers s)[i := Checking])) + mset (map fst ((k, r) # completed s))
      = mset [0..<started s]"
    by (metis add_mset_add_single fst_conv list.simps(9) mset.simps(2) union_assoc union_commute)
  then show ?thesis
    using assms(1) run by (auto simp: conserved_def started_def simp del: mset_upt)
qed

lemma conserved_step:
  assumes c: "conserved s" and a: "pool_action run a s = Some s'"
  shows "conserved s'"
proof (cases a)
  case (Submit t)
  with assms show ?thesis by (auto dest: conserved_submit)
next
  case (Notify_one woken)
  with a show ?thesis
    by (auto simp: notify_one_def split: if_splits option.splits intro: conserved_wake [OF c, of _ Checking] conserved_cong [OF c])
next
  case (Check i)
  show ?thesis
  proof (cases "tasks s")
    case Nil
    with a Check c show ?thesis
      by (auto simp: worker_check_def split: if_splits intro: conserved_wake [OF c, of i Blocked] conserved_wake [OF c, of i Exited] conserved_wake [OF c, of i Checking])
  next
    case (Cons p rest)
    with a Check c show ?thesis
      by (cases p) (auto simp: worker_check_def intro: conserved_pop split: if_splits)
  qed
next
  case (Finish i)
  with a c show ?thesis
    by (auto simp: worker_finish_def intro: conserved_finish split: if_splits worker.splits)
next
  case (Spurious i)
  with a show ?thesis
    by (auto simp: spurious_wakeup_def split: if_splits intro: conserved_wake [OF c, of i Blocked] conserved_wake [OF c, of i Exited] conserved_wake [OF c, of i Checking])
next
  case Begin_shutdown
  with a c show ?thesis
    by (cases "stopping s") (auto simp: begin_shutdown_def conserved_def started_def)
next
  case Notify_all
  have "sum_list (map (task_ids \<circ> (\<lambda>w. if w = Blocked then Checking else w)) ws) = sum_list (map task_ids ws)" for ws :: "'a worker list"
    by (induction ws) auto
  with a Notify_all show ?thesis
    by (auto simp: notify_all_def split: if_splits intro!: conserved_cong [OF c])
next
  case Join_next
  with a show ?thesis
    by (auto simp: join_next_def split: if_splits shutdown_phase.splits intro: conserved_cong [OF c])
qed


lemma outcomes_step:
  assumes "outcomes_right run s" and "conserved s" and "pool_action run a s = Some s'"
  shows "outcomes_right run s'"
proof (cases a)
  case (Submit t)
  with assms(1,3) show ?thesis
    by (fastforce simp: outcomes_right_def submit_def nth_append split: if_splits)
next
  case (Finish i)
  then obtain k t where i: "i < length (workers s)" "workers s ! i = Running k t"
    and s': "s' = s\<lparr>completed := (k, run t) # completed s, workers := (workers s)[i := Checking]\<rparr>"
    using assms(3) by (auto simp: worker_finish_def split: if_splits worker.splits)
  have "Running k t \<in> set (workers s)" using i nth_mem by fastforce
  with assms(2) have "k < length (submitted s) \<and> submitted s ! k = t" by (simp add: conserved_def)
  with assms(1) s' show ?thesis by (auto simp: outcomes_right_def)
qed (use assms(1,3) in \<open>auto simp: outcomes_right_def pool_simps split: if_splits option.splits list.splits shutdown_phase.splits\<close>)

lemma phases_step:
  assumes "phases_right s" and "pool_action run a s = Some s'"
  shows "phases_right s'"
proof (cases a)
  case (Submit t)
  with assms show ?thesis by (auto simp: phases_right_def submit_def split: if_splits)
next
  case (Notify_one woken)
  with assms show ?thesis
    by (auto simp: phases_right_def notify_one_def nth_list_update dest!: set_list_updateD dest: nth_worker split: if_splits option.splits)
next
  case (Check i)
  with assms show ?thesis
    by (auto simp: phases_right_def worker_check_def nth_list_update dest!: set_list_updateD dest: nth_worker split: if_splits list.splits)
next
  case (Finish i)
  with assms show ?thesis
    by (auto simp: phases_right_def worker_finish_def nth_list_update dest!: set_list_updateD dest: nth_worker split: if_splits worker.splits)
next
  case (Spurious i)
  with assms show ?thesis
    by (auto simp: phases_right_def spurious_wakeup_def nth_list_update dest!: set_list_updateD dest: nth_worker split: if_splits)
next
  case Begin_shutdown
  with assms show ?thesis by (auto simp: phases_right_def begin_shutdown_def)
next
  case Notify_all
  with assms show ?thesis by (auto simp: phases_right_def notify_all_def split: if_splits)
next
  case Join_next
  with assms show ?thesis
    by (auto simp: phases_right_def join_next_def less_Suc_eq in_set_conv_nth split: if_splits shutdown_phase.splits)
qed


lemma wakeup_step:
  assumes "no_lost_wakeup s" and "phases_right s" and "pool_action run a s = Some s'"
  shows "no_lost_wakeup s'"
proof -
  have upd: "sum_list (map awake ((workers s)[i := w])) + awake (workers s ! i)
      = sum_list (map awake (workers s)) + awake w" if "i < length (workers s)" for i w
    by (rule sum_list_update [OF that])
  show ?thesis
  proof (cases a)
    case (Submit t)
    with assms show ?thesis by (auto simp: no_lost_wakeup_def submit_def split: if_splits)
  next
    case (Notify_one woken)
    with assms(1,3) show ?thesis
      by (auto simp: no_lost_wakeup_def notify_one_def awake_def dest!: set_list_updateD upd [of _ Checking] dest: nth_worker
          split: if_splits option.splits)
  next
    case (Check i)
    with assms(1,3) upd [of i Blocked] upd [of i Exited]
      upd [of i "Running (fst (hd (tasks s))) (snd (hd (tasks s)))"] show ?thesis
      by (auto simp: no_lost_wakeup_def worker_check_def awake_def dest!: set_list_updateD split: if_splits list.splits)
  next
    case (Finish i)
    with assms(1,3) upd [of i Checking] show ?thesis
      by (auto simp: no_lost_wakeup_def worker_finish_def awake_def dest!: set_list_updateD split: if_splits worker.splits)
  next
    case (Spurious i)
    with assms(1,3) upd [of i Checking] show ?thesis
      by (auto simp: no_lost_wakeup_def spurious_wakeup_def awake_def dest!: set_list_updateD dest: nth_worker split: if_splits)
  next
    case Begin_shutdown
    with assms show ?thesis by (auto simp: no_lost_wakeup_def begin_shutdown_def split: if_splits)
  next
    case Notify_all
    with assms show ?thesis by (auto simp: no_lost_wakeup_def notify_all_def split: if_splits)
  next
    case Join_next
    with assms show ?thesis by (auto simp: no_lost_wakeup_def join_next_def split: if_splits shutdown_phase.splits)
  qed
qed

lemma step_workers: "pool_action run a s = Some s' \<Longrightarrow> length (workers s') = length (workers s)"
  by (cases a) (auto simp: pool_simps split: pool_splits)

definition pool_invariant :: "('a \<Rightarrow> 'r outcome) \<Rightarrow> nat \<Rightarrow> ('a, 'r) pool \<Rightarrow> bool" where
  "pool_invariant run n s \<longleftrightarrow> conserved s \<and> outcomes_right run s \<and> phases_right s \<and> no_lost_wakeup s
     \<and> length (workers s) = max 1 n"

lemma invariant_start: "pool_invariant run n (thread_pool n)"
proof -
  have "sum_list (map task_ids (replicate m Checking)) = {#}" for m by (induction m) simp_all
  then show ?thesis
    by (simp add: pool_invariant_def thread_pool_def conserved_def started_def outcomes_right_def phases_right_def
        no_lost_wakeup_def)
qed

lemma invariant_step:
  assumes "pool_invariant run n s" and "pool_action run a s = Some s'"
  shows "pool_invariant run n s'"
  using assms conserved_step outcomes_step phases_step wakeup_step step_workers
  unfolding pool_invariant_def by metis

lemma reachable_invariant: "reachable run n s \<Longrightarrow> pool_invariant run n s"
proof (induction rule: reachable.induct)
  case start
  show ?case by (rule invariant_start)
next
  case (step s a s')
  then show ?case by (blast intro: invariant_step)
qed


section \<open>Progress\<close>

fun worker_weight :: "'a worker \<Rightarrow> nat" where
  "worker_weight Checking = 2"
| "worker_weight Blocked = 1"
| "worker_weight (Running k t) = 3"
| "worker_weight Exited = 0"

fun phase_weight :: "nat \<Rightarrow> shutdown_phase \<Rightarrow> nat" where
  "phase_weight n Not_called = 0"
| "phase_weight n Notifying = 2 * n + 3"
| "phase_weight n (Joining i) = n + 1 - i"
| "phase_weight n Joined = 0"

definition pool_weight :: "('a, 'r) pool \<Rightarrow> nat" where
  "pool_weight s = 2 * length (tasks s) + sum_list (map worker_weight (workers s))
     + 2 * notifications s + phase_weight (length (workers s)) (phase s)"

fun worker_action :: "'a action \<Rightarrow> bool" where
  "worker_action (Notify_one w) = True"
| "worker_action (Check i) = True"
| "worker_action (Finish i) = True"
| "worker_action _ = False"

fun progress_action :: "'a action \<Rightarrow> bool" where
  "progress_action Notify_all = True"
| "progress_action Join_next = True"
| "progress_action a = worker_action a"

lemma worker_progress: "worker_action a \<Longrightarrow> progress_action a"
  by (cases a) simp_all

lemma sum_list_wake: "sum_list (map worker_weight (map (\<lambda>w. if w = Blocked then Checking else w) ws))
    \<le> sum_list (map worker_weight ws) + length ws"
  by (induction ws) auto

lemma progress_decreases:
  assumes "phases_right s" and "progress_action a" and "pool_action run a s = Some s'"
  shows "pool_weight s' < pool_weight s"
proof -
  have upd: "sum_list (map worker_weight ((workers s)[i := w])) + worker_weight (workers s ! i)
      = sum_list (map worker_weight (workers s)) + worker_weight w" if "i < length (workers s)" for i w
    by (rule sum_list_update [OF that])
  show ?thesis
  proof (cases a)
    case (Notify_one woken)
    with assms(3) show ?thesis
      by (auto simp: pool_weight_def notify_one_def dest!: upd [of _ Checking] split: if_splits option.splits)
  next
    case (Check i)
    with assms(3) upd [of i Blocked] upd [of i Exited]
      upd [of i "Running (fst (hd (tasks s))) (snd (hd (tasks s)))"] show ?thesis
      by (auto simp: pool_weight_def worker_check_def split: if_splits list.splits)
  next
    case (Finish i)
    with assms(3) upd [of i Checking] show ?thesis
      by (auto simp: pool_weight_def worker_finish_def split: if_splits worker.splits)
  next
    case Notify_all
    with assms(3) sum_list_wake [of "workers s"] show ?thesis
      by (auto simp: pool_weight_def notify_all_def split: if_splits)
  next
    case Join_next
    with assms(1,3) show ?thesis
      by (auto simp: pool_weight_def join_next_def phases_right_def split: if_splits shutdown_phase.splits)
  qed (use assms(2) in simp_all)
qed

definition busy :: "('a, 'r) pool \<Rightarrow> bool" where
  "busy s \<longleftrightarrow> tasks s \<noteq> [] \<or> (\<exists>k t. Running k t \<in> set (workers s))"

lemma awake_none: "Checking \<notin> set ws \<Longrightarrow> sum_list (map awake ws) = 0"
  by (induction ws) (auto simp: awake_def)

lemma busy_progress:
  assumes "pool_invariant run n s" and "busy s"
  shows "\<exists>a s'. worker_action a \<and> pool_action run a s = Some s'"
proof -
  have inv: "phases_right s" "no_lost_wakeup s" using assms(1) by (simp_all add: pool_invariant_def)
  consider (run) i k t where "i < length (workers s)" "workers s ! i = Running k t"
    | (check) i where "i < length (workers s)" "workers s ! i = Checking"
    | (idle) "set (workers s) \<subseteq> {Blocked, Exited}"
    by (metis in_set_conv_nth insertCI subsetI worker.exhaust)
  then show ?thesis
  proof cases
    case run
    then show ?thesis by (intro exI [of _ "Finish i"]) (simp add: worker_finish_def)
  next
    case check
    then show ?thesis by (intro exI [of _ "Check i"]) (simp add: worker_check_def)
  next
    case idle
    then have ne: "tasks s \<noteq> []" using assms(2) by (auto simp: busy_def)
    with inv(1) have "Exited \<notin> set (workers s)" "workers s \<noteq> []" by (auto simp: phases_right_def)
    with idle have all: "\<forall>w \<in> set (workers s). w = Blocked" by auto
    then have zero: "sum_list (map awake (workers s)) = 0" by (intro awake_none) auto
    have blocked: "0 < length (workers s)" "workers s ! 0 = Blocked"
      using all \<open>workers s \<noteq> []\<close> by auto
    then have "Blocked \<in> set (workers s)" by (auto dest: nth_worker)
    then have "length (tasks s) \<le> notifications s"
      using inv(2) unfolding no_lost_wakeup_def zero by simp
    then have "notifications s \<noteq> 0" using ne by (cases "tasks s") auto
    with blocked show ?thesis by (intro exI [of _ "Notify_one (Some 0)"]) (simp add: notify_one_def)
  qed
qed

lemma shutdown_progress:
  assumes "pool_invariant run n s" and "stopping s" and "phase s \<noteq> Joined"
  shows "\<exists>a s'. progress_action a \<and> pool_action run a s = Some s'"
proof (cases "phase s")
  case Notifying
  then show ?thesis by (intro exI [of _ Notify_all]) (simp add: notify_all_def)
next
  case (Joining i)
  show ?thesis
  proof (cases "i < length (workers s)")
    case True
    have "Blocked \<notin> set (workers s)"
      using assms(1) Joining by (simp add: pool_invariant_def phases_right_def)
    then have "workers s ! i \<noteq> Blocked" using nth_worker [OF refl True] by metis
    then consider "workers s ! i = Exited" | "workers s ! i = Checking" | k t where "workers s ! i = Running k t"
      by (cases "workers s ! i") auto
    then show ?thesis
    proof cases
      case 1
      then show ?thesis using True Joining by (intro exI [of _ Join_next]) (simp add: join_next_def)
    next
      case 2
      then show ?thesis using True by (intro exI [of _ "Check i"]) (simp add: worker_check_def)
    next
      case 3
      then show ?thesis using True by (intro exI [of _ "Finish i"]) (simp add: worker_finish_def)
    qed
  qed (use Joining in \<open>intro exI [of _ Join_next], simp add: join_next_def\<close>)
qed (use assms in \<open>auto simp: pool_invariant_def phases_right_def\<close>)

lemma drain_shutdown:
  assumes "pool_invariant run n s" and "stopping s"
  shows "\<exists>as s'. run_actions run as s = Some s' \<and> phase s' = Joined"
  using assms
proof (induction "pool_weight s" arbitrary: s rule: less_induct)
  case less
  show ?case
  proof (cases "phase s = Joined")
    case True
    then show ?thesis by (intro exI [of _ "[]"] exI [of _ s]) simp
  next
    case False
    then obtain a s1 where a: "progress_action a" "pool_action run a s = Some s1"
      using shutdown_progress [OF less.prems] by blast
    have "phases_right s" using less.prems by (simp add: pool_invariant_def)
    then have "pool_weight s1 < pool_weight s" using a by (rule progress_decreases)
    moreover have "pool_invariant run n s1" using less.prems(1) a(2) by (rule invariant_step)
    moreover have "stopping s1"
      using less.prems(2) a by (cases a rule: progress_action.cases) (auto simp: pool_simps split: pool_splits)
    ultimately obtain as s' where "run_actions run as s1 = Some s'" "phase s' = Joined"
      using less.hyps by blast
    with a(2) show ?thesis by (intro exI [of _ "a # as"] exI [of _ s']) simp
  qed
qed

section \<open>Futures\<close>

lemma completed_once:
  assumes "conserved s"
  shows "distinct (map fst (completed s))" "set (map fst (completed s)) \<subseteq> {0..<length (submitted s)}"
proof -
  obtain ys where ys: "mset ys = sum_list (map task_ids (workers s))" using ex_mset by blast
  then have "mset (ys @ map fst (completed s)) = mset [0..<started s]"
    using assms by (simp add: conserved_def)
  note eq = this
  have "distinct (ys @ map fst (completed s))"
    unfolding mset_eq_imp_distinct_iff [OF eq] by (rule distinct_upt)
  moreover have "set (ys @ map fst (completed s)) = {0..<started s}"
    unfolding mset_eq_setD [OF eq] by (rule set_upt)
  moreover have "{0..<started s} \<subseteq> {0..<length (submitted s)}" by (auto simp: started_def)
  ultimately show "distinct (map fst (completed s))" "set (map fst (completed s)) \<subseteq> {0..<length (submitted s)}"
    by (simp, metis set_append sup.cobounded2 subset_trans)
qed

lemma future_outcome:
  assumes "outcomes_right run s" and "future s i = Some r"
  shows "i < length (submitted s) \<and> r = run (submitted s ! i)"
  using assms map_of_SomeD unfolding future_def outcomes_right_def by fastforce

lemma idle_all_ready:
  assumes "pool_invariant run n s" and "\<not> busy s" and "i < length (submitted s)"
  shows "future s i = Some (run (submitted s ! i))"
proof -
  have c: "conserved s" and o': "outcomes_right run s" using assms(1) by (simp_all add: pool_invariant_def)
  have none: "\<forall>w \<in> set (workers s). task_ids w = {#}"
    using assms(2) by (auto simp: busy_def task_ids_def split: worker.split)
  have "sum_list (map task_ids ws) = {#}" if "\<forall>w \<in> set ws. task_ids w = {#}" for ws :: "'a worker list"
    using that by (induction ws) auto
  with none c assms(2) have "mset (map fst (completed s)) = mset [0..<length (submitted s)]"
    by (simp add: conserved_def started_def busy_def)
  then have "i \<in> fst ` set (completed s)" using assms(3) by (metis atLeast0LessThan lessThan_iff list.set_map mset_eq_setD set_upt)
  then obtain r where "future s i = Some r" unfolding future_def
    by (metis map_of_eq_None_iff not_None_eq)
  with future_outcome [OF o' this] show ?thesis by simp
qed

lemma idle_map_ready:
  assumes "pool_invariant run n s" and "\<not> busy s"
  shows "map (future s) [0..<length (submitted s)] = map (\<lambda>task. Some (run task)) (submitted s)"
  using idle_all_ready [OF assms] by (intro nth_equalityI) simp_all

lemma joined_not_busy: "phases_right s \<Longrightarrow> phase s = Joined \<Longrightarrow> \<not> busy s"
  by (cases "workers s") (auto simp: phases_right_def busy_def)


section \<open>Properties\<close>

lemma conserved_total:
  assumes "conserved s"
  shows "mset (map fst (tasks s)) + sum_list (map task_ids (workers s)) + mset (map fst (completed s))
    = mset [0..<length (submitted s)]"
proof -
  have "map fst (tasks s) = drop (started s) (map fst (List.enumerate 0 (submitted s)))"
    using assms unfolding conserved_def by (metis drop_map)
  then have "map fst (tasks s) = [started s..<length (submitted s)]" by (simp del: upt_Suc)
  moreover have "[0..<length (submitted s)] = [0..<started s] @ [started s..<length (submitted s)]"
    using upt_add_eq_append [of 0 "started s" "length (submitted s) - started s"]
    by (simp add: started_def del: upt_Suc)
  ultimately show ?thesis using assms by (simp add: conserved_def ac_simps del: upt_Suc)
qed

text \<open>C21: For every interleaving of submissions, workers, wake-ups and shutdown: each accepted task is,
exactly once, queued, in the hands of a worker or completed, and a worker runs the task that was submitted;
the queue holds the last submissions in their order, so tasks are started in that order; a future is only ever
set to the outcome of its own task, and no task is completed twice; a worker exits only after shutdown
began and the queue was drained; the number of workers is the requested one, at least one.\<close>

theorem pool_safety:
  assumes "reachable run n s"
  shows "mset (map fst (tasks s)) + sum_list (map task_ids (workers s)) + mset (map fst (completed s))
        = mset [0..<length (submitted s)]
    \<and> (\<forall>k task. Running k task \<in> set (workers s) \<longrightarrow> k < length (submitted s) \<and> submitted s ! k = task)
    \<and> (future s i = Some r \<longrightarrow> i < length (submitted s) \<and> r = run (submitted s ! i))
    \<and> (distinct (map fst (completed s)))
    \<and> (tasks s = drop (length (submitted s) - length (tasks s)) (List.enumerate 0 (submitted s)))
    \<and> (Exited \<in> set (workers s) \<longrightarrow> stopping s \<and> tasks s = [])
    \<and> (length (workers s) = max 1 n)"
proof (intro conjI)
  note inv = reachable_invariant [OF assms, unfolded pool_invariant_def]
  show "mset (map fst (tasks s)) + sum_list (map task_ids (workers s)) + mset (map fst (completed s))
        = mset [0..<length (submitted s)]"
    using conserved_total inv by blast
  show "\<forall>k task. Running k task \<in> set (workers s) \<longrightarrow> k < length (submitted s) \<and> submitted s ! k = task"
    using inv by (simp add: conserved_def)
  show "future s i = Some r \<longrightarrow> i < length (submitted s) \<and> r = run (submitted s ! i)"
    using future_outcome inv by blast
  show "distinct (map fst (completed s))" using completed_once inv by blast
  show "tasks s = drop (length (submitted s) - length (tasks s)) (List.enumerate 0 (submitted s))"
    using inv by (simp add: conserved_def started_def)
  show "Exited \<in> set (workers s) \<longrightarrow> stopping s \<and> tasks s = []" "length (workers s) = max 1 n"
    using inv by (auto simp: phases_right_def)
qed

text \<open>C22: No wake-up is lost: whenever a worker is blocked on the condition variable, every queued
task is matched by a notification still to be delivered or by a worker about to test the queue.\<close>

theorem pool_no_lost_wakeup:
  assumes "reachable run n s" and "Blocked \<in> set (workers s)"
  shows "length (tasks s) \<le> notifications s + length (filter (\<lambda>w. w = Checking) (workers s))"
proof -
  have "sum_list (map awake ws) = length (filter (\<lambda>w. w = Checking) ws)" for ws :: "'a worker list"
    by (induction ws) (auto simp: awake_def)
  then show ?thesis
    using reachable_invariant [OF assms(1)] assms(2) by (simp add: pool_invariant_def no_lost_wakeup_def)
qed

text \<open>The pool does not deadlock and does not run on forever: while a submitted task has no outcome,
some worker step or pending notification is enabled, every such step decreases a weight, and when
none is left every future is ready with the outcome of its task.\<close>

theorem pool_tasks_complete:
  assumes "reachable run n s"
  shows "((\<exists>i < length (submitted s). future s i = None) \<longrightarrow>
      (\<exists>a s'. worker_action a \<and> pool_action run a s = Some s'))
    \<and> (worker_action a \<longrightarrow> pool_action run a s = Some s' \<longrightarrow> pool_weight s' < pool_weight s)
    \<and> (\<not> (\<exists>a s'. worker_action a \<and> pool_action run a s = Some s') \<longrightarrow>
      map (future s) [0..<length (submitted s)] = map (\<lambda>task. Some (run task)) (submitted s))"
proof (intro conjI)
  note inv = reachable_invariant [OF assms]
  show "(\<exists>i < length (submitted s). future s i = None) \<longrightarrow>
      (\<exists>a s'. worker_action a \<and> pool_action run a s = Some s')"
    using busy_progress [OF inv] idle_all_ready [OF inv] option.distinct(1) by metis
  show "worker_action a \<longrightarrow> pool_action run a s = Some s' \<longrightarrow> pool_weight s' < pool_weight s"
    using progress_decreases worker_progress inv unfolding pool_invariant_def by blast
  show "\<not> (\<exists>a s'. worker_action a \<and> pool_action run a s = Some s') \<longrightarrow>
      map (future s) [0..<length (submitted s)] = map (\<lambda>task. Some (run task)) (submitted s)"
  proof
    assume "\<not> (\<exists>a s'. worker_action a \<and> pool_action run a s = Some s')"
    then have "\<not> busy s" using busy_progress [OF inv] by blast
    then show "map (future s) [0..<length (submitted s)] = map (\<lambda>task. Some (run task)) (submitted s)"
      by (rule idle_map_ready [OF inv])
  qed
qed

text \<open>C23: \<open>shutdown\<close> returns and drains: once it has begun, no task is accepted, a step of the pool
is enabled until the last worker has been joined, every such step decreases the weight, and when
the joins are over the queue is empty and every future is ready.\<close>

theorem pool_shutdown_drains:
  assumes "reachable run n s" and "stopping s"
  shows "(submit task s = None)
    \<and> (phase s \<noteq> Joined \<longrightarrow> (\<exists>a s'. progress_action a \<and> pool_action run a s = Some s'))
    \<and> (progress_action a \<longrightarrow> pool_action run a s = Some s' \<longrightarrow> pool_weight s' < pool_weight s)
    \<and> (phase s = Joined \<longrightarrow> tasks s = [] \<and> set (workers s) = {Exited}
      \<and> map (future s) [0..<length (submitted s)] = map (\<lambda>task. Some (run task)) (submitted s))"
proof (intro conjI)
  note inv = reachable_invariant [OF assms(1)]
  show "submit task s = None" using assms(2) by (simp add: submit_def)
  show "phase s \<noteq> Joined \<longrightarrow> (\<exists>a s'. progress_action a \<and> pool_action run a s = Some s')"
    using shutdown_progress [OF inv assms(2)] by blast
  show "progress_action a \<longrightarrow> pool_action run a s = Some s' \<longrightarrow> pool_weight s' < pool_weight s"
    using progress_decreases inv unfolding pool_invariant_def by blast
  show "phase s = Joined \<longrightarrow> tasks s = [] \<and> set (workers s) = {Exited}
      \<and> map (future s) [0..<length (submitted s)] = map (\<lambda>task. Some (run task)) (submitted s)"
  proof
    assume "phase s = Joined"
    have right: "phases_right s" using inv by (simp add: pool_invariant_def)
    then have "\<not> busy s" using \<open>phase s = Joined\<close> by (rule joined_not_busy)
    moreover have "set (workers s) \<subseteq> {Exited}" "workers s \<noteq> []"
      using right \<open>phase s = Joined\<close> by (auto simp: phases_right_def)
    ultimately show "tasks s = [] \<and> set (workers s) = {Exited}
      \<and> map (future s) [0..<length (submitted s)] = map (\<lambda>task. Some (run task)) (submitted s)"
      using idle_map_ready [OF inv] by (auto simp: busy_def dest: subset_singletonD)
  qed
qed

section \<open>Witnesses\<close>

text \<open>Two workers, three tasks of which the second raises, then a shutdown.\<close>

definition sample_run :: "nat \<Rightarrow> nat outcome" where
  "sample_run k = (if k = 1 then Raised else Value (k * 10))"

definition sample_schedule :: "nat action list" where
  "sample_schedule = [Check 0, Submit 0, Submit 1, Check 1, Notify_one (Some 0), Check 0, Notify_one None,
     Finish 1, Submit 2, Check 1, Begin_shutdown]"

definition sample_tail :: "nat action list" where
  "sample_tail = [Notify_one None, Notify_all, Finish 0, Check 0, Finish 1, Check 1, Join_next, Join_next, Join_next]"

definition sample_pool :: "(nat, nat) pool" where
  "sample_pool = the (run_actions sample_run sample_schedule (thread_pool 2))"

definition sample_joined :: "(nat, nat) pool" where
  "sample_joined = the (run_actions sample_run sample_tail sample_pool)"

definition sample_blocked :: "(nat, nat) pool" where
  "sample_blocked = the (run_actions sample_run [Check 0, Submit 0] (thread_pool 1))"

lemma run_actions_the_reachable:
  "reachable run n s \<Longrightarrow> run_actions run as s \<noteq> None \<Longrightarrow> reachable run n (the (run_actions run as s))"
  by (auto intro: run_actions_reachable)

lemma sample_reachable: "reachable sample_run 2 sample_pool" "reachable sample_run 2 sample_joined"
  "reachable sample_run 1 sample_blocked"
proof -
  show pool: "reachable sample_run 2 sample_pool"
    unfolding sample_pool_def by (rule run_actions_the_reachable [OF reachable.start]) code_simp
  show "reachable sample_run 2 sample_joined"
    unfolding sample_joined_def by (rule run_actions_the_reachable [OF pool]) code_simp
  show "reachable sample_run 1 sample_blocked"
    unfolding sample_blocked_def by (rule run_actions_the_reachable [OF reachable.start]) code_simp
qed

theorem pool_safety_witness:
  "distinct (map fst (completed sample_joined)) \<and> future sample_joined 1 = Some Raised"
proof -
  have "future sample_joined 1 = Some Raised" by code_simp
  with pool_safety [OF sample_reachable(2)] show ?thesis by blast
qed

theorem pool_no_lost_wakeup_witness:
  "length (tasks sample_blocked) \<le> notifications sample_blocked"
proof -
  have "Blocked \<in> set (workers sample_blocked)"
    "length (filter (\<lambda>w. w = Checking) (workers sample_blocked)) = 0" by code_simp+
  with pool_no_lost_wakeup [OF sample_reachable(3)] show ?thesis by simp
qed

theorem pool_tasks_complete_witness:
  "\<exists>a s'. worker_action a \<and> pool_action sample_run a sample_pool = Some s'"
proof -
  have "1 < length (submitted sample_pool) \<and> future sample_pool 1 = None" by code_simp
  with pool_tasks_complete [OF sample_reachable(1)] show ?thesis by blast
qed

theorem pool_shutdown_drains_witness:
  "tasks sample_joined = [] \<and>
   map (future sample_joined) [0..<length (submitted sample_joined)]
     = map (\<lambda>task. Some (sample_run task)) (submitted sample_joined)"
proof -
  have "stopping sample_joined" "phase sample_joined = Joined" by code_simp+
  with pool_shutdown_drains [OF sample_reachable(2)] show ?thesis by blast
qed

end
