(* ===== verification/Subnet_Sweep.thy ===== *)
theory Subnet_Sweep
  imports Thread_Pool Ssh_Detector
begin

text \<open>
  \<open>sweep_for_ssh\<close> of \<open>src/src/scanner/subnet_sweep.cpp\<close>: one task per address on the thread pool, then
  the futures in the order of the addresses. What the sweep needs of the pool is the locale
  \<open>future_pool\<close>: a future that is ready holds the outcome of its own task.
\<close>

section \<open>The interface of the pool\<close>

locale future_pool =
  fixes valid :: "'s \<Rightarrow> bool" and tasks_of :: "'s \<Rightarrow> 'a list"
    and get :: "'s \<Rightarrow> nat \<Rightarrow> 'r outcome option" and run :: "'a \<Rightarrow> 'r outcome"
  assumes get_outcome: "valid s \<Longrightarrow> get s i = Some r \<Longrightarrow> i < length (tasks_of s) \<and> r = run (tasks_of s ! i)"
begin

lemma get_task: "valid s \<Longrightarrow> get s i = Some r \<Longrightarrow> i < length ts \<Longrightarrow> tasks_of s ! i = ts ! i \<Longrightarrow> r = run (ts ! i)"
  using get_outcome by metis

end

interpretation pool_futures: future_pool "reachable run n" submitted future run for run n
  by unfold_locales (auto dest!: reachable_invariant simp: pool_invariant_def dest: future_outcome)

section \<open>The sweep\<close>

text \<open>
  What the other threads do between two steps of the sweeping thread is a list of pool actions; a
  sweep gets one such list per step (none when the lists are used up). \<open>None\<close> is a schedule that
  the pool does not allow, an exception of \<open>submit\<close>, or a \<open>get\<close> that is still blocked when its
  list ends.
\<close>

type_synonym 'a schedule = "'a action list list"

definition between :: "('a \<Rightarrow> 'r outcome) \<Rightarrow> 'a schedule \<Rightarrow> ('a, 'r) pool \<Rightarrow> ('a, 'r) pool option" where
  "between run gaps s = (case gaps of [] \<Rightarrow> Some s | as # _ \<Rightarrow> run_actions run as s)"

fun submit_all :: "('a \<Rightarrow> 'r outcome) \<Rightarrow> 'a schedule \<Rightarrow> 'a list \<Rightarrow> ('a, 'r) pool
    \<Rightarrow> (nat list \<times> ('a, 'r) pool) option" where
  "submit_all run gaps [] s = Some ([], s)"
| "submit_all run gaps (address # addresses) s =
     (case between run gaps s of None \<Rightarrow> None
      | Some s1 \<Rightarrow> (case submit address s1 of None \<Rightarrow> None
          | Some (s2, k) \<Rightarrow> map_option (apfst ((#) k)) (submit_all run (tl gaps) addresses s2)))"

text \<open>The second loop: \<open>future.get()\<close> in order; a stored exception is skipped.\<close>

fun collect :: "('a \<Rightarrow> 'r outcome) \<Rightarrow> ('r \<Rightarrow> bool) \<Rightarrow> 'a schedule \<Rightarrow> nat list \<Rightarrow> 'r list \<Rightarrow> ('a, 'r) pool
    \<Rightarrow> ('r list \<times> ('a, 'r) pool) option" where
  "collect run wanted gaps [] found s = Some (found, s)"
| "collect run wanted gaps (k # ks) found s =
     (case between run gaps s of None \<Rightarrow> None
      | Some s1 \<Rightarrow> (case future s1 k of
            None \<Rightarrow> None
          | Some Raised \<Rightarrow> collect run wanted (tl gaps) ks found s1
          | Some (Value result) \<Rightarrow>
              collect run wanted (tl gaps) ks (if wanted result then found @ [result] else found) s1))"

text \<open>
  The task of one address. A task carries the number of its sweep, which the code does not have: it
  tells the probes of one address in two sweeps apart. \<open>starts sweep address\<close> is the trace of
  system calls at which the worker runs the task, so the environment may answer differently for every
  task; \<open>None\<close> is a task that throws.
\<close>

type_synonym probe = "nat \<times> string"

definition probe_task ::
  "os \<Rightarrow> u16 \<Rightarrow> milliseconds \<Rightarrow> milliseconds \<Rightarrow> (nat \<Rightarrow> string \<Rightarrow> trace option) \<Rightarrow> probe \<Rightarrow> SshProbeResult outcome" where
  "probe_task os port connect_timeout banner_timeout starts = (\<lambda>(sweep, address).
     case starts sweep address of
       None \<Rightarrow> Raised
     | Some t \<Rightarrow> Value (fst (run_state (probe_ssh os address port connect_timeout banner_timeout) t)))"

definition sweep_for_ssh ::
  "os \<Rightarrow> (nat \<Rightarrow> string \<Rightarrow> trace option) \<Rightarrow> nat \<Rightarrow> probe schedule \<Rightarrow> probe schedule
   \<Rightarrow> (probe, SshProbeResult) pool \<Rightarrow> string list \<Rightarrow> u16 \<Rightarrow> milliseconds \<Rightarrow> milliseconds
   \<Rightarrow> (SshProbeResult list \<times> (probe, SshProbeResult) pool) option" where
  "sweep_for_ssh os starts sweep submit_gaps get_gaps pool addresses port connect_timeout banner_timeout =
     (let run = probe_task os port connect_timeout banner_timeout starts
      in case submit_all run submit_gaps (map (Pair sweep) addresses) pool of
           None \<Rightarrow> None
         | Some (futures, pool') \<Rightarrow> collect run is_ssh get_gaps futures [] pool')"

section \<open>Lemmas\<close>

definition values_wanted :: "('r \<Rightarrow> bool) \<Rightarrow> 'r outcome list \<Rightarrow> 'r list" where
  "values_wanted wanted os = concat (map (\<lambda>out. case out of Raised \<Rightarrow> [] | Value r \<Rightarrow> if wanted r then [r] else []) os)"

lemma submitted_step:
  "pool_action run a s = Some s' \<Longrightarrow> \<exists>ts. submitted s' = submitted s @ ts"
  by (cases a) (auto simp: pool_simps split: pool_splits)

lemma submitted_actions: "run_actions run as s = Some s' \<Longrightarrow> \<exists>ts. submitted s' = submitted s @ ts"
  by (induction as arbitrary: s) (fastforce dest: submitted_step split: option.splits)+

lemma between_reachable:
  assumes "reachable run n s" and "between run gaps s = Some s'"
  shows "reachable run n s' \<and> (\<exists>ts. submitted s' = submitted s @ ts)"
  using assms run_actions_reachable submitted_actions by (fastforce simp: between_def split: list.splits)

lemma submit_reachable:
  assumes "reachable run n s" and "submit a s = Some (s', k)"
  shows "reachable run n s' \<and> k = length (submitted s) \<and> submitted s' = submitted s @ [a]"
proof -
  have "pool_action run (Submit a) s = Some s'" using assms(2) by simp
  then have "reachable run n s'" by (rule reachable.step [OF assms(1)])
  with assms(2) show ?thesis by (auto simp: submit_def split: if_splits)
qed

definition holds_task :: "('a, 'r) pool \<Rightarrow> nat \<Rightarrow> 'a \<Rightarrow> bool" where
  "holds_task s k a \<longleftrightarrow> k < length (submitted s) \<and> submitted s ! k = a"

lemma holds_task_mono: "holds_task s k a \<Longrightarrow> submitted s' = submitted s @ ts \<Longrightarrow> holds_task s' k a"
  by (auto simp: holds_task_def nth_append)

lemma submit_all_spec:
  assumes "reachable run n s" and "submit_all run gaps as s = Some (ks, s')"
  shows "reachable run n s' \<and> (\<exists>ts. submitted s' = submitted s @ ts) \<and> list_all2 (holds_task s') ks as"
  using assms
proof (induction as arbitrary: gaps s ks)
  case Nil
  then show ?case by simp
next
  case (Cons a as)
  then obtain s1 s2 k ks' where b: "between run gaps s = Some s1" and sub: "submit a s1 = Some (s2, k)"
    and rest: "submit_all run (tl gaps) as s2 = Some (ks', s')" and ks: "ks = k # ks'"
    by (auto split: option.splits)
  obtain ts1 where r1: "reachable run n s1" and ts1: "submitted s1 = submitted s @ ts1"
    using between_reachable [OF Cons.prems(1) b] by blast
  note s2 = submit_reachable [OF r1 sub]
  then have r2: "reachable run n s2" by blast
  obtain ts2 where ts2: "submitted s' = submitted s2 @ ts2" and r': "reachable run n s'"
    and held: "list_all2 (holds_task s') ks' as"
    using Cons.IH [OF r2 rest] by blast
  have "holds_task s2 k a" using s2 by (simp add: holds_task_def)
  then have "holds_task s' k a" using ts2 by (rule holds_task_mono)
  moreover have "submitted s' = submitted s @ (ts1 @ a # ts2)" using ts1 ts2 s2 by simp
  ultimately show ?case using r' held ks by blast
qed

lemma collect_spec:
  assumes "reachable run n s" and "list_all2 (holds_task s) ks as"
    and "collect run wanted gaps ks found s = Some (found', s')"
  shows "found' = found @ values_wanted wanted (map run as) \<and> reachable run n s'"
  using assms
proof (induction ks arbitrary: gaps s as found)
  case Nil
  then show ?case by (simp add: values_wanted_def)
next
  case (Cons k ks)
  then obtain a as' where as: "as = a # as'" and h: "holds_task s k a" "list_all2 (holds_task s) ks as'"
    by (auto simp: list_all2_Cons1)
  from Cons.prems(3) obtain s1 out where b: "between run gaps s = Some s1" and out: "future s1 k = Some out"
    by (auto split: option.splits)
  obtain ts where r1: "reachable run n s1" and ts: "submitted s1 = submitted s @ ts"
    using between_reachable [OF Cons.prems(1) b] by blast
  have mono: "holds_task s1 j x" if "holds_task s j x" for j x
    using that ts by (rule holds_task_mono)
  have out': "out = run a"
    using pool_futures.get_outcome [OF r1 out] mono [OF h(1)] by (simp add: holds_task_def)
  have h1: "list_all2 (holds_task s1) ks as'" using h(2) mono by (rule list_all2_mono)
  have run: "collect run wanted (tl gaps) ks
      (case out of Raised \<Rightarrow> found | Value r \<Rightarrow> if wanted r then found @ [r] else found) s1 = Some (found', s')"
    using Cons.prems(3) b out by (auto split: outcome.splits)
  show ?case
    using Cons.IH [OF r1 h1 run] out' as by (auto simp: values_wanted_def split: outcome.splits)
qed

lemma worker_actions_phase:
  "list_all worker_action as \<Longrightarrow> run_actions run as s = Some s' \<Longrightarrow> stopping s' = stopping s \<and> phase s' = phase s"
proof (induction as arbitrary: s)
  case (Cons a as)
  then obtain s1 where s1: "pool_action run a s = Some s1" "run_actions run as s1 = Some s'"
    by (auto split: option.splits)
  have "stopping s1 = stopping s \<and> phase s1 = phase s"
    using Cons.prems(1) s1(1)
    by (cases a) (auto simp: pool_simps split: if_splits option.splits worker.splits list.splits)
  with Cons s1 show ?case by simp
qed simp

lemma drain:
  assumes "pool_invariant run n s"
  shows "\<exists>as s'. list_all worker_action as \<and> run_actions run as s = Some s' \<and> \<not> busy s'"
  using assms
proof (induction "pool_weight s" arbitrary: s rule: less_induct)
  case less
  show ?case
  proof (cases "busy s")
    case True
    then obtain a s1 where a: "worker_action a" "pool_action run a s = Some s1"
      using busy_progress [OF less.prems] by blast
    have "phases_right s" using less.prems by (simp add: pool_invariant_def)
    then have "pool_weight s1 < pool_weight s" using worker_progress [OF a(1)] a(2) by (rule progress_decreases)
    moreover have "pool_invariant run n s1" using less.prems a(2) by (rule invariant_step)
    ultimately obtain as s' where "list_all worker_action as" "run_actions run as s1 = Some s'" "\<not> busy s'"
      using less.hyps by blast
    with a show ?thesis by (intro exI [of _ "a # as"] exI [of _ s']) simp
  next
    case False
    then show ?thesis by (intro exI [of _ "[]"] exI [of _ s]) simp
  qed
qed


lemma drained_collect:
  assumes "\<And>k. k \<in> set ks \<Longrightarrow> future s k \<noteq> None"
  shows "\<exists>found'. collect run wanted [] ks found s = Some (found', s)"
  using assms
proof (induction ks arbitrary: found)
  case (Cons k ks)
  then obtain out where "future s k = Some out" by fastforce
  with Cons show ?case by (cases out) (simp_all add: between_def)
qed simp

lemma submit_all_accepted:
  "\<not> stopping s \<Longrightarrow> \<exists>ks s'. submit_all run [] as s = Some (ks, s') \<and> \<not> stopping s'"
proof (induction as arbitrary: s)
  case (Cons a as)
  obtain s2 k where sub: "submit a s = Some (s2, k)" "\<not> stopping s2" using Cons.prems by (simp add: submit_def)
  with Cons.IH [OF this(2)] show ?case by (auto simp: between_def)
qed simp

lemma sweep_total:
  assumes "reachable (probe_task os port connect_timeout banner_timeout starts) n pool" and "\<not> stopping pool"
  shows "\<exists>steps found pool'. list_all worker_action steps
    \<and> sweep_for_ssh os starts sweep [] [steps] pool addresses port connect_timeout banner_timeout = Some (found, pool')
    \<and> \<not> stopping pool'"
proof (cases addresses)
  case Nil
  with assms(2) show ?thesis by (intro exI [of _ "[]"]) (simp add: sweep_for_ssh_def Let_def)
next
  case (Cons a rest)
  let ?run = "probe_task os port connect_timeout banner_timeout starts"
  obtain ks s1 where sub: "submit_all ?run [] (map (Pair sweep) addresses) pool = Some (ks, s1)" "\<not> stopping s1"
    using submit_all_accepted [OF assms(2)] by blast
  note s1 = submit_all_spec [OF assms(1) sub(1)]
  then have inv: "pool_invariant ?run n s1" using reachable_invariant by blast
  obtain steps s2 where steps: "list_all worker_action steps" "run_actions ?run steps s1 = Some s2" "\<not> busy s2"
    using drain [OF inv] by blast
  have r2: "reachable ?run n s2" using s1 steps(2) run_actions_reachable by blast
  obtain ts where ts: "submitted s2 = submitted s1 @ ts" using submitted_actions [OF steps(2)] by blast
  have "future s2 k \<noteq> None" if "k \<in> set ks" for k
  proof -
    have "k < length (submitted s1)"
      using s1 that by (auto simp: list_all2_conv_all_nth holds_task_def in_set_conv_nth)
    then show ?thesis using idle_all_ready [OF reachable_invariant [OF r2] steps(3), of k] ts by simp
  qed
  then obtain found where "collect ?run is_ssh [] ks [] s2 = Some (found, s2)"
    using drained_collect by blast
  moreover have "\<exists>found. collect ?run is_ssh [steps] ks [] s1 = Some (found, s2)" if "ks \<noteq> []" "collect ?run is_ssh [] ks [] s2 = Some (found, s2)" for found
    using that steps(2) by (cases ks) (auto simp: between_def split: option.splits outcome.splits)
  moreover have "ks \<noteq> []" using s1 Cons by (auto simp: list_all2_Cons2)
  ultimately have "\<exists>found. collect ?run is_ssh [steps] ks [] s1 = Some (found, s2)" by blast
  moreover have "\<not> stopping s2" using worker_actions_phase [OF steps(1,2)] sub(2) by simp
  ultimately show ?thesis using sub(1) steps(1) by (auto simp: sweep_for_ssh_def Let_def)
qed

lemma sweep_found:
  assumes "reachable (probe_task os port connect_timeout banner_timeout starts) n pool"
    and "sweep_for_ssh os starts sweep submit_gaps get_gaps pool addresses port connect_timeout banner_timeout
      = Some (found, pool')"
  shows "found = concat (map (\<lambda>address. case starts sweep address of None \<Rightarrow> []
      | Some t \<Rightarrow> filter is_ssh [fst (run_state (probe_ssh os address port connect_timeout banner_timeout) t)]) addresses)
    \<and> reachable (probe_task os port connect_timeout banner_timeout starts) n pool'"
proof -
  let ?run = "probe_task os port connect_timeout banner_timeout starts"
  obtain ks s1 where sub: "submit_all ?run submit_gaps (map (Pair sweep) addresses) pool = Some (ks, s1)"
    and col: "collect ?run is_ssh get_gaps ks [] s1 = Some (found, pool')"
    using assms(2) by (auto simp: sweep_for_ssh_def Let_def split: option.splits)
  have reach: "reachable ?run n pool'"
    using collect_spec [OF _ _ col] submit_all_spec [OF assms(1) sub] by fastforce
  have "found = values_wanted is_ssh (map ?run (map (Pair sweep) addresses))"
    using collect_spec [OF _ _ col] submit_all_spec [OF assms(1) sub] by fastforce
  also have "\<dots> = concat (map (\<lambda>address. case starts sweep address of None \<Rightarrow> []
      | Some t \<Rightarrow> filter is_ssh [fst (run_state (probe_ssh os address port connect_timeout banner_timeout) t)]) addresses)"
    unfolding values_wanted_def map_map
    by (intro arg_cong [of _ _ concat] map_cong refl) (simp add: probe_task_def split: option.split)
  finally show ?thesis using reach by simp
qed

text \<open>C12: Whatever the schedule of the workers, a sweep that returns has found exactly the SSH servers:
the results of probing the addresses, in the order of the addresses, restricted to those that
identified as SSH; addresses whose task threw are left out.\<close>

theorem sweep_finds_ssh_servers:
  assumes "reachable (probe_task os port connect_timeout banner_timeout starts) n pool"
    and "sweep_for_ssh os starts sweep submit_gaps get_gaps pool addresses port connect_timeout banner_timeout
      = Some (found, pool')"
  shows "found = concat (map (\<lambda>address. case starts sweep address of None \<Rightarrow> []
      | Some t \<Rightarrow> filter is_ssh [fst (run_state (probe_ssh os address port connect_timeout banner_timeout) t)]) addresses)"
  using sweep_found [OF assms] by simp

text \<open>On a pool that is not shutting down, every sweep can return: the submissions are accepted, and
letting the workers run on their own until none of them has anything left to do makes all futures of
the sweep ready.\<close>

theorem sweep_returns:
  assumes "reachable (probe_task os port connect_timeout banner_timeout starts) n pool" and "\<not> stopping pool"
  shows "\<exists>steps found pool'. list_all worker_action steps
    \<and> sweep_for_ssh os starts sweep [] [steps] pool addresses port connect_timeout banner_timeout = Some (found, pool')"
  using sweep_total [OF assms] by blast

section \<open>Witnesses\<close>

definition sample_starts :: "nat \<Rightarrow> string \<Rightarrow> trace option" where
  "sample_starts sweep address = (if address = ''10.0.0.9'' then None else Some [])"

theorem sweep_finds_ssh_servers_witness:
  "\<exists>steps found pool'. sweep_for_ssh sample_os sample_starts 0 [] [steps] (thread_pool 2) [''10.0.0.7'', ''10.0.0.9''] 22 750 1000
      = Some (found, pool') \<and> map pr_ip found = [''10.0.0.7'']"
proof -
  let ?run = "probe_task sample_os 22 750 1000 sample_starts"
  have start: "reachable ?run 2 (thread_pool 2)" by (rule reachable.start)
  have "\<not> stopping (thread_pool 2 :: (probe, SshProbeResult) pool)" by (simp add: thread_pool_def)
  from sweep_total [OF start this, of 0 "[''10.0.0.7'', ''10.0.0.9'']"] obtain steps found pool' where
    s: "sweep_for_ssh sample_os sample_starts 0 [] [steps] (thread_pool 2) [''10.0.0.7'', ''10.0.0.9''] 22 750 1000
      = Some (found, pool')" by blast
  have "found = filter is_ssh [fst (run_state (probe_ssh sample_os ''10.0.0.7'' 22 750 1000) [])]"
    using sweep_finds_ssh_servers [OF start s] by (simp add: sample_starts_def)
  moreover have "map pr_ip (filter is_ssh [fst (run_state (probe_ssh sample_os ''10.0.0.7'' 22 750 1000) [])]) = [''10.0.0.7'']"
    by code_simp
  ultimately have "map pr_ip found = [''10.0.0.7'']" by (simp only:)
  with s show ?thesis
    by (intro exI [of _ steps] exI [of _ found] exI [of _ pool'] conjI)
qed

theorem sweep_returns_witness:
  "\<exists>steps found pool'. sweep_for_ssh sample_os sample_starts 0 [] [steps] (thread_pool 2) [''10.0.0.7''] 22 750 1000
      = Some (found, pool')"
proof -
  have "reachable (probe_task sample_os 22 750 1000 sample_starts) 2 (thread_pool 2)" by (rule reachable.start)
  moreover have "\<not> stopping (thread_pool 2 :: (probe, SshProbeResult) pool)" by (simp add: thread_pool_def)
  ultimately show ?thesis using sweep_returns [of sample_os 22 750 1000 sample_starts 2 "thread_pool 2" 0 "[''10.0.0.7'']"]
    by blast
qed

end
