(* ===== verification/Ssh_Client.thy ===== *)
theory Ssh_Client
  imports Port_Scanner
begin

text \<open>
  \<open>src/src/ssh/ssh_client.cpp\<close>: the SSH session over libssh2. As with the operating system,
  the answers of libssh2 are a record of functions of the call's arguments and of the trace, so
  the theorems hold for every server and every behaviour of the library. A client object is a
  record; the operations return it updated. Actions that may not return (the two read loops)
  are functions from a trace to an option.
\<close>

section \<open>The library and the client\<close>

text \<open>
  \<open>ls_channel_read\<close> answers \<open>None\<close> for a negative result, and the bytes read otherwise (none at
  the end of the stream). The flag of \<open>ls_channel_read\<close> selects the stream of standard error,
  the flag of \<open>ls_knownhost_checkp\<close> the key type bit of RSA.
\<close>

record libssh2 =
  ls_init :: "trace \<Rightarrow> bool"
  ls_session_init :: "trace \<Rightarrow> session option"
  ls_handshake :: "session \<Rightarrow> socket_t \<Rightarrow> trace \<Rightarrow> int"
  ls_hostkey :: "session \<Rightarrow> trace \<Rightarrow> (string \<times> hostkey_type) option"
  ls_knownhost_init :: "session \<Rightarrow> trace \<Rightarrow> bool"
  ls_knownhost_checkp :: "session \<Rightarrow> string \<Rightarrow> u16 \<Rightarrow> string \<Rightarrow> bool \<Rightarrow> trace \<Rightarrow> knownhost_check"
  ls_userauth_password :: "session \<Rightarrow> string \<Rightarrow> string \<Rightarrow> trace \<Rightarrow> int"
  ls_last_error :: "session \<Rightarrow> trace \<Rightarrow> int \<times> string option"
  ls_channel_open :: "session \<Rightarrow> trace \<Rightarrow> channel option"
  ls_channel_exec :: "channel \<Rightarrow> string \<Rightarrow> trace \<Rightarrow> int"
  ls_channel_read :: "channel \<Rightarrow> bool \<Rightarrow> trace \<Rightarrow> string option"
  ls_channel_exit_status :: "channel \<Rightarrow> trace \<Rightarrow> int"

datatype HostKeyPolicy = Warn | Strict

record SshConfig =
  cfg_host :: string
  cfg_port :: u16
  cfg_username :: string
  cfg_password :: string
  cfg_host_key_policy :: HostKeyPolicy
  cfg_connect_timeout :: milliseconds
  cfg_auth_timeout :: milliseconds
  cfg_command_timeout :: milliseconds
  cfg_known_hosts_path :: string
  cfg_verbose :: bool

definition default_config :: SshConfig where
  "default_config = \<lparr>cfg_host = [], cfg_port = 22, cfg_username = ''root'', cfg_password = [],
     cfg_host_key_policy = Warn, cfg_connect_timeout = 5000, cfg_auth_timeout = 5000,
     cfg_command_timeout = 5000, cfg_known_hosts_path = [], cfg_verbose = False\<rparr>"

record CommandResult =
  cmd_ok :: bool
  cmd_exit_code :: int
  cmd_stdout_data :: string
  cmd_stderr_data :: string
  cmd_error :: string

definition fresh_command :: CommandResult where
  "fresh_command = \<lparr>cmd_ok = False, cmd_exit_code = - 1, cmd_stdout_data = [], cmd_stderr_data = [],
     cmd_error = []\<rparr>"

record SshClient =
  cl_config :: SshConfig
  cl_last_error :: string
  cl_host_key_status :: string
  cl_socket :: socket_t
  cl_session :: "session option"

definition ssh_client :: "SshConfig \<Rightarrow> SshClient" where
  "ssh_client config = \<lparr>cl_config = config, cl_last_error = [], cl_host_key_status = [],
     cl_socket = kInvalidSocket, cl_session = None\<rparr>"

section \<open>Helpers\<close>

definition call :: "event \<Rightarrow> unit io" where
  "call e = syscall (\<lambda>_. ()) (\<lambda>_. e)"

text \<open>\<open>std::call_once\<close>: the first call decides, as for Winsock.\<close>

fun libssh2_ready :: "trace \<Rightarrow> bool option" where
  "libssh2_ready [] = None"
| "libssh2_ready (e # t) = (case e of Ssh (Ev_libssh2_init ok) \<Rightarrow> Some ok | _ \<Rightarrow> libssh2_ready t)"

definition ensure_libssh2_initialised :: "libssh2 \<Rightarrow> bool io" where
  "ensure_libssh2_initialised ssh = do {
     t \<leftarrow> State_Monad.get;
     case libssh2_ready t of
       Some ok \<Rightarrow> return ok
     | None \<Rightarrow> syscall (ls_init ssh) (Ssh \<circ> Ev_libssh2_init)
   }"

definition libssh2_error_text :: "libssh2 \<Rightarrow> session option \<Rightarrow> string \<Rightarrow> string io" where
  "libssh2_error_text ssh session fallback =
     (case session of
        None \<Rightarrow> return fallback
      | Some s \<Rightarrow> do {
          (errno, message) \<leftarrow> syscall (ls_last_error ssh s) (\<lambda>(errno, message). Ssh (Ev_last_error s errno message));
          case message of
            None \<Rightarrow> return (fallback @ '' (libssh2 error '' @ dec_of_int errno @ '')'')
          | Some m \<Rightarrow>
              if m = [] then return (fallback @ '' (libssh2 error '' @ dec_of_int errno @ '')'')
              else return (fallback @ '': '' @ m)
        })"

definition getenv :: "os \<Rightarrow> string \<Rightarrow> string option io" where
  "getenv os var = syscall (os_getenv os var) (Proc \<circ> Ev_getenv var)"

definition known_hosts_file :: string where
  "known_hosts_file = CHR 0x5C # ''.ssh'' @ CHR 0x5C # ''known_hosts''"

definition default_known_hosts_path :: "os \<Rightarrow> string io" where
  "default_known_hosts_path os = do {
     profile \<leftarrow> getenv os ''USERPROFILE'';
     case profile of
       None \<Rightarrow> return []
     | Some p \<Rightarrow> return (if p = [] then [] else p @ known_hosts_file)
   }"

text \<open>\<open>static_cast<long>\<close> of a millisecond count: 32 bits on Windows.\<close>

definition long_of :: "milliseconds \<Rightarrow> int" where
  "long_of ms = sint (word_of_int ms :: u32)"

section \<open>Connecting\<close>

definition disconnect :: "SshClient \<Rightarrow> SshClient io" where
  "disconnect client = do {
     _ \<leftarrow> (case cl_session client of
            None \<Rightarrow> return ()
          | Some s \<Rightarrow> do { _ \<leftarrow> call (Ssh (Ev_session_disconnect s)); call (Ssh (Ev_session_free s)) });
     handle \<leftarrow> close_socket (cl_socket client);
     return (client\<lparr>cl_session := None, cl_socket := handle\<rparr>)
   }"

text \<open>The failure exit: \<open>last_error_ = ...; disconnect(); return false;\<close>.\<close>

definition fail_connect :: "string \<Rightarrow> SshClient \<Rightarrow> (bool \<times> SshClient) io" where
  "fail_connect message client = do {
     client' \<leftarrow> disconnect (client\<lparr>cl_last_error := message\<rparr>);
     return (False, client')
   }"

fun check_text :: "knownhost_check \<Rightarrow> string" where
  "check_text Check_match = ''match''"
| "check_text Check_mismatch = ''mismatch''"
| "check_text Check_notfound = ''unknown''"
| "check_text Check_failure = ''check-failure''"

definition verify_host_key :: "os \<Rightarrow> libssh2 \<Rightarrow> SshConfig \<Rightarrow> session \<Rightarrow> string io" where
  "verify_host_key os ssh config s = do {
     path \<leftarrow> (if cfg_known_hosts_path config = [] then default_known_hosts_path os
              else return (cfg_known_hosts_path config));
     host_key \<leftarrow> syscall (ls_hostkey ssh s) (Ssh \<circ> Ev_hostkey s);
     case host_key of
       None \<Rightarrow> return ''unknown''
     | Some (key, key_type) \<Rightarrow>
         if path = [] then return ''unknown''
         else do {
           known_hosts \<leftarrow> syscall (ls_knownhost_init ssh s) (Ssh \<circ> Ev_knownhost_init s);
           if \<not> known_hosts then return ''unknown''
           else do {
             _ \<leftarrow> call (Ssh (Ev_knownhost_readfile s (c_str path)));
             let rsa = (key_type = Hostkey_rsa);
             check \<leftarrow> syscall (ls_knownhost_checkp ssh s (c_str (cfg_host config)) (cfg_port config) key rsa)
               (Ssh \<circ> Ev_knownhost_checkp s (c_str (cfg_host config)) (cfg_port config) key rsa);
             _ \<leftarrow> call (Ssh (Ev_knownhost_free s));
             return (check_text check)
           }
         }
   }"

text \<open>The last part of \<open>connect_and_authenticate\<close>: the policy and the password.\<close>

definition authenticate :: "libssh2 \<Rightarrow> session \<Rightarrow> SshClient \<Rightarrow> (bool \<times> SshClient) io" where
  "authenticate ssh s client =
     (let config = cl_config client in
      if cfg_host_key_policy config = Strict \<and> cl_host_key_status client \<noteq> ''match''
      then fail_connect (''SSH host key verification failed (status: '' @ cl_host_key_status client
        @ ''); add the key to known_hosts or run without --strict-host-key'') client
      else do {
        rc \<leftarrow> syscall (ls_userauth_password ssh s (c_str (cfg_username config)) (c_str (cfg_password config)))
          (Ssh \<circ> Ev_userauth_password s (c_str (cfg_username config)) (c_str (cfg_password config)));
        if rc \<noteq> 0
        then fail_connect (''SSH authentication failed for user '' @ CHR 0x27 # cfg_username config @ [CHR 0x27]) client
        else return (True, client)
      })"

text \<open>The middle part: the handshake on a new session, and the verification of the host key.\<close>

definition start_session :: "os \<Rightarrow> libssh2 \<Rightarrow> session \<Rightarrow> SshClient \<Rightarrow> (bool \<times> SshClient) io" where
  "start_session os ssh s client = do {
     _ \<leftarrow> call (Ssh (Ev_session_set_blocking s));
     _ \<leftarrow> call (Ssh (Ev_session_set_timeout s (long_of (cfg_auth_timeout (cl_config client)))));
     rc \<leftarrow> syscall (ls_handshake ssh s (cl_socket client)) (Ssh \<circ> Ev_handshake s (cl_socket client));
     if rc \<noteq> 0 then do {
       message \<leftarrow> libssh2_error_text ssh (Some s) ''SSH handshake failed'';
       fail_connect message client
     }
     else do {
       status \<leftarrow> verify_host_key os ssh (cl_config client) s;
       authenticate ssh s (client\<lparr>cl_host_key_status := status\<rparr>)
     }
   }"

text \<open>The first part, on a connected socket: blocking mode and the session object.\<close>

definition open_session :: "os \<Rightarrow> libssh2 \<Rightarrow> SshClient \<Rightarrow> (bool \<times> SshClient) io" where
  "open_session os ssh client = do {
     blocking \<leftarrow> syscall (os_FIONBIO os (cl_socket client) 0) (Sock \<circ> Ev_FIONBIO (cl_socket client) 0);
     if \<not> blocking then do {
       error_code \<leftarrow> last_socket_error os;
       error_text \<leftarrow> socket_error_text os error_code;
       fail_connect (''could not switch the SSH socket to blocking mode: '' @ error_text) client
     }
     else do {
       session \<leftarrow> syscall (ls_session_init ssh) (Ssh \<circ> Ev_session_init);
       case session of
         None \<Rightarrow> fail_connect ''could not create SSH session'' (client\<lparr>cl_session := None\<rparr>)
       | Some s \<Rightarrow> start_session os ssh s (client\<lparr>cl_session := Some s\<rparr>)
     }
   }"

definition connect_and_authenticate :: "os \<Rightarrow> libssh2 \<Rightarrow> SshClient \<Rightarrow> (bool \<times> SshClient) io" where
  "connect_and_authenticate os ssh client = do {
     ready \<leftarrow> ensure_libssh2_initialised ssh;
     if \<not> ready then return (False, client\<lparr>cl_last_error := ''libssh2 initialisation failed''\<rparr>)
     else do {
       (result, handle) \<leftarrow> tcp_connect os (cfg_host (cl_config client)) (cfg_port (cl_config client))
         (cfg_connect_timeout (cl_config client));
       if result \<noteq> Connected
       then return (False, client\<lparr>cl_last_error := ''SSH connection failed ('' @ connect_result_text result @ '')''\<rparr>)
       else open_session os ssh (client\<lparr>cl_socket := handle\<rparr>)
     }
   }"

section \<open>Running a command\<close>

text \<open>
  One of the two read loops. It ends at the first answer that delivers no bytes; a server that
  never stops sending keeps it running: \<open>None\<close>.
\<close>

partial_function (option) read_loop ::
  "libssh2 \<Rightarrow> channel \<Rightarrow> bool \<Rightarrow> string \<Rightarrow> trace \<Rightarrow> (string \<times> trace) option" where
  "read_loop ssh ch from_stderr data t =
     (let (answer, t') = run_state (syscall (ls_channel_read ssh ch from_stderr)
            (Chan \<circ> Ev_channel_read ch from_stderr)) t
      in case answer of
           None \<Rightarrow> Some (data, t')
         | Some bytes \<Rightarrow> if bytes = [] then Some (data, t')
                         else read_loop ssh ch from_stderr (data @ bytes) t')"

declare read_loop.simps [code]

text \<open>From the channel on which the command runs to the result.\<close>

definition collect_output :: "libssh2 \<Rightarrow> channel \<Rightarrow> trace \<Rightarrow> (CommandResult \<times> trace) option" where
  "collect_output ssh ch t = do {
     (out, t1) \<leftarrow> read_loop ssh ch False [] t;
     (err, t2) \<leftarrow> read_loop ssh ch True [] t1;
     let (_, t3) = run_state (call (Chan (Ev_channel_close ch))) t2;
     let (status, t4) = run_state (syscall (ls_channel_exit_status ssh ch) (Chan \<circ> Ev_channel_exit_status ch)) t3;
     let (_, t5) = run_state (call (Chan (Ev_channel_free ch))) t4;
     Some (\<lparr>cmd_ok = True, cmd_exit_code = status, cmd_stdout_data = out, cmd_stderr_data = err,
            cmd_error = []\<rparr>, t5)
   }"

text \<open>
  Opening the channel and starting the command: the failures end with their result (\<open>Inl\<close>);
  otherwise the channel is handed to the read loops.
\<close>

definition start_command :: "libssh2 \<Rightarrow> SshClient \<Rightarrow> string \<Rightarrow> (CommandResult + channel) io" where
  "start_command ssh client command =
     (case cl_session client of
        None \<Rightarrow> return (Inl (fresh_command\<lparr>cmd_error := ''no authenticated SSH session''\<rparr>))
      | Some s \<Rightarrow> do {
          _ \<leftarrow> call (Ssh (Ev_session_set_timeout s (long_of (cfg_command_timeout (cl_config client)))));
          channel \<leftarrow> syscall (ls_channel_open ssh s) (Chan \<circ> Ev_channel_open s);
          case channel of
            None \<Rightarrow> do {
              message \<leftarrow> libssh2_error_text ssh (Some s) ''could not open SSH channel'';
              return (Inl (fresh_command\<lparr>cmd_error := message\<rparr>))
            }
          | Some ch \<Rightarrow> do {
              rc \<leftarrow> syscall (ls_channel_exec ssh ch (c_str command)) (Chan \<circ> Ev_channel_exec ch (c_str command));
              if rc \<noteq> 0 then do {
                message \<leftarrow> libssh2_error_text ssh (Some s) ''remote command execution failed'';
                _ \<leftarrow> call (Chan (Ev_channel_free ch));
                return (Inl (fresh_command\<lparr>cmd_error := message\<rparr>))
              }
              else return (Inr ch)
            }
        })"

definition execute :: "libssh2 \<Rightarrow> SshClient \<Rightarrow> string \<Rightarrow> trace \<Rightarrow> (CommandResult \<times> trace) option" where
  "execute ssh client command t =
     (case run_state (start_command ssh client command) t of
        (Inl result, t') \<Rightarrow> Some (result, t')
      | (Inr ch, t') \<Rightarrow> collect_output ssh ch t')"

section \<open>Resources\<close>

datatype ssh_resource = Open_session session | Open_channel channel | Known_hosts session

definition held_step :: "ssh_resource multiset \<Rightarrow> event \<Rightarrow> ssh_resource multiset" where
  "held_step M e = (case e of
      Ssh (Ev_session_init (Some s)) \<Rightarrow> add_mset (Open_session s) M
    | Ssh (Ev_session_free s) \<Rightarrow> M - {#Open_session s#}
    | Ssh (Ev_knownhost_init s True) \<Rightarrow> add_mset (Known_hosts s) M
    | Ssh (Ev_knownhost_free s) \<Rightarrow> M - {#Known_hosts s#}
    | Chan (Ev_channel_open s (Some ch)) \<Rightarrow> add_mset (Open_channel ch) M
    | Chan (Ev_channel_free ch) \<Rightarrow> M - {#Open_channel ch#}
    | _ \<Rightarrow> M)"

definition held :: "trace \<Rightarrow> ssh_resource multiset" where
  "held t = foldl held_step {#} t"

lemma held_append [trace_simps]: "held (t @ es) = foldl held_step (held t) es"
  by (simp add: held_def)

lemma held_step_sock [simp]: "held_step M (Sock e) = M" "held_step M (Proc e') = M"
  by (simp_all add: held_step_def)

lemma live_step_ssh [simp]: "live_step M (Ssh e) = M" "live_step M (Chan e') = M" "live_step M (Proc e'') = M"
  by (simp_all add: live_step_def)

definition owned_session :: "session option \<Rightarrow> ssh_resource multiset" where
  "owned_session s = (case s of None \<Rightarrow> {#} | Some s \<Rightarrow> {#Open_session s#})"

lemma keeps_held_tcp_connect: "keeps held (tcp_connect os ip port timeout)"
  by (auto simp: tcp_connect_def ensure_winsock_initialised_def set_non_blocking_def last_socket_error_def
      await_connection_def wait_for_socket_def close_socket_def held_append split_beta
      intro!: keeps_bind keeps_syscall split: option.split)

section \<open>Disconnecting\<close>

definition disconnect_events :: "SshClient \<Rightarrow> event list" where
  "disconnect_events client =
     (case cl_session client of None \<Rightarrow> []
      | Some s \<Rightarrow> [Ssh (Ev_session_disconnect s), Ssh (Ev_session_free s)])
     @ (if cl_socket client = kInvalidSocket then [] else [Sock (Ev_closesocket (cl_socket client))])"

lemma call_run [simp]: "run_state (call e) t = ((), t @ [e])"
  by (simp add: call_def)

lemma disconnect_run:
  "run_state (disconnect client) t =
     (client\<lparr>cl_session := None, cl_socket := kInvalidSocket\<rparr>, t @ disconnect_events client)"
  by (simp add: disconnect_def disconnect_events_def close_socket_def call_def split: option.split)

lemma fail_connect_run:
  "run_state (fail_connect message client) t =
     ((False, client\<lparr>cl_last_error := message, cl_session := None, cl_socket := kInvalidSocket\<rparr>),
      t @ disconnect_events client)"
  by (simp add: fail_connect_def disconnect_run disconnect_events_def)

lemma disconnect_live:
  "foldl live_step M (disconnect_events client) = M - owned (cl_socket client)"
  by (auto simp: disconnect_events_def owned_def live_step_def split: option.split)

lemma disconnect_held:
  "foldl held_step M (disconnect_events client) = M - owned_session (cl_session client)"
  by (auto simp: disconnect_events_def owned_session_def held_step_def split: option.split)

section \<open>Order of events\<close>

fun preceded :: "(event \<Rightarrow> bool) \<Rightarrow> (event \<Rightarrow> bool) \<Rightarrow> event list \<Rightarrow> bool" where
  "preceded P Q [] = True"
| "preceded P Q (e # es) = (P e \<or> \<not> Q e \<and> preceded P Q es)"

lemma preceded_append: "preceded P Q (xs @ ys) \<longleftrightarrow> preceded P Q xs \<and> (list_ex P xs \<or> preceded P Q ys)"
  by (induction xs) auto

lemma preceded_none: "list_all (\<lambda>e. \<not> Q e) es \<Longrightarrow> preceded P Q es"
  by (induction es) auto

definition sends_password :: "event \<Rightarrow> bool" where
  "sends_password e = (case e of Ssh (Ev_userauth_password s user password rc) \<Rightarrow> True | _ \<Rightarrow> False)"

definition key_matched :: "session \<Rightarrow> string \<Rightarrow> u16 \<Rightarrow> event \<Rightarrow> bool" where
  "key_matched s host port e = (case e of
      Ssh (Ev_knownhost_checkp s' host' port' key rsa check) \<Rightarrow>
        s' = s \<and> host' = host \<and> port' = port \<and> check = Check_match
    | _ \<Rightarrow> False)"

definition shook_hands :: "session \<Rightarrow> socket_t \<Rightarrow> event \<Rightarrow> bool" where
  "shook_hands s h e \<longleftrightarrow> e = Ssh (Ev_handshake s h 0)"

text \<open>Events that do not send a password.\<close>

definition discreet :: "event list \<Rightarrow> bool" where
  "discreet es = list_all (\<lambda>e. \<not> sends_password e) es"

lemma discreet_simps [simp]:
  "discreet []" "discreet (xs @ ys) \<longleftrightarrow> discreet xs \<and> discreet ys"
  "discreet (Sock e # xs) = discreet xs" "discreet (Proc e' # xs) = discreet xs"
  "discreet (Chan e'' # xs) = discreet xs" "discreet (Ssh (Ev_session_init x) # xs) = discreet xs"
  by (simp_all add: discreet_def sends_password_def)

lemma discreet_disconnect [simp]: "discreet (disconnect_events client)"
  by (auto simp: disconnect_events_def discreet_def sends_password_def split: option.split)

lemma discreet_filter: "discreet es \<Longrightarrow> filter sends_password es = []"
  by (simp add: discreet_def filter_empty_conv list_all_iff)

lemma preceded_discreet: "discreet es \<Longrightarrow> preceded P sends_password es"
  by (auto simp: discreet_def intro: preceded_none)

definition no_resources :: "event list \<Rightarrow> bool" where
  "no_resources es \<longleftrightarrow> (\<forall>M. foldl live_step M es = M) \<and> (\<forall>M. foldl held_step M es = M)"

lemma verify_host_key_spec:
  assumes "run_state (verify_host_key os ssh config s) t = (status, t')"
  shows "\<exists>es. t' = t @ es \<and> discreet es \<and> no_resources es
    \<and> (status = ''match'' \<longrightarrow> list_ex (key_matched s (c_str (cfg_host config)) (cfg_port config)) es)"
proof -
  have path: "\<exists>es. t1 = t @ es \<and> discreet es \<and> no_resources es"
    if "run_state (if cfg_known_hosts_path config = [] then default_known_hosts_path os
        else return (cfg_known_hosts_path config)) t = (p, t1)" for p t1
    using that by (auto simp: default_known_hosts_path_def getenv_def no_resources_def split: if_splits option.splits)
  have match: "check_text c = ''match'' \<Longrightarrow> c = Check_match" for c by (cases c) auto
  obtain p t1 where p: "run_state (if cfg_known_hosts_path config = [] then default_known_hosts_path os
        else return (cfg_known_hosts_path config)) t = (p, t1)" by force
  from path [OF this] obtain es1 where es1: "t1 = t @ es1" "discreet es1" "no_resources es1" by blast
  have "\<exists>es. t' = t1 @ es \<and> discreet es \<and> no_resources es
    \<and> (status = ''match'' \<longrightarrow> list_ex (key_matched s (c_str (cfg_host config)) (cfg_port config)) es)"
    using assms p match
    by (auto simp: verify_host_key_def Let_def no_resources_def discreet_def sends_password_def held_step_def
        key_matched_def split: option.splits if_splits)
  with es1 show ?thesis by (fastforce simp: no_resources_def)
qed

lemma authenticate_cases:
  assumes "run_state (authenticate ssh s client) t = ((ok, client'), t')"
  obtains (refused) message where "\<not> ok" "cfg_host_key_policy (cl_config client) = Strict"
      "cl_host_key_status client \<noteq> ''match''" "t' = t @ disconnect_events client"
      "client' = client\<lparr>cl_last_error := message, cl_session := None, cl_socket := kInvalidSocket\<rparr>"
      "message = ''SSH host key verification failed (status: '' @ cl_host_key_status client
        @ ''); add the key to known_hosts or run without --strict-host-key''"
    | (sent) rc where "cfg_host_key_policy (cl_config client) = Strict \<longrightarrow> cl_host_key_status client = ''match''"
      "rc = ls_userauth_password ssh s (c_str (cfg_username (cl_config client))) (c_str (cfg_password (cl_config client))) t"
      "ok \<longleftrightarrow> rc = 0"
      "t' = t @ Ssh (Ev_userauth_password s (c_str (cfg_username (cl_config client)))
         (c_str (cfg_password (cl_config client))) rc) # (if ok then [] else disconnect_events client)"
      "client' = (if ok then client else client\<lparr>cl_last_error :=
         ''SSH authentication failed for user '' @ CHR 0x27 # cfg_username (cl_config client) @ [CHR 0x27],
         cl_session := None, cl_socket := kInvalidSocket\<rparr>)"
proof -
  consider "cfg_host_key_policy (cl_config client) = Strict \<and> cl_host_key_status client \<noteq> ''match''"
    | "\<not> (cfg_host_key_policy (cl_config client) = Strict \<and> cl_host_key_status client \<noteq> ''match'')" by blast
  then show thesis
  proof cases
    case 1
    with assms have "\<not> ok" "t' = t @ disconnect_events client"
      "client' = client\<lparr>cl_last_error := ''SSH host key verification failed (status: '' @ cl_host_key_status client
        @ ''); add the key to known_hosts or run without --strict-host-key'', cl_session := None, cl_socket := kInvalidSocket\<rparr>"
      by (simp_all add: authenticate_def Let_def fail_connect_run)
    with 1 show thesis by (intro refused) simp_all
  next
    case 2
    let ?rc = "ls_userauth_password ssh s (c_str (cfg_username (cl_config client))) (c_str (cfg_password (cl_config client))) t"
    have "ok \<longleftrightarrow> ?rc = 0"
      using 2 assms unfolding authenticate_def Let_def by (auto simp: fail_connect_run split: if_splits)
    with 2 assms show thesis
      unfolding authenticate_def Let_def by (intro sent [of ?rc]) (auto simp: fail_connect_run split: if_splits)
  qed
qed

text \<open>
  The run of \<open>connect_and_authenticate\<close> in two cases: it fails before the authentication, or it
  reaches it with a connected socket, a session that shook hands, and the verified status.
\<close>

definition uneventful :: "event \<Rightarrow> bool" where
  "uneventful e \<longleftrightarrow> \<not> sends_password e \<and> (\<forall>M. live_step M e = M) \<and> (\<forall>M. held_step M e = M)"

lemma uneventful_list: "list_all uneventful es \<Longrightarrow> discreet es \<and> no_resources es"
  by (induction es) (auto simp: uneventful_def discreet_def no_resources_def)

lemma emits_texts:
  "emits uneventful (do { error_code \<leftarrow> last_socket_error os; socket_error_text os error_code })"
  "emits uneventful (libssh2_error_text ssh session fallback)"
  by (auto simp: last_socket_error_def socket_error_text_def libssh2_error_text_def uneventful_def
      sends_password_def live_step_def held_step_def intro!: emits_intros split: option.split)

definition is_sock :: "event \<Rightarrow> bool" where
  "is_sock e = (case e of Sock s \<Rightarrow> True | _ \<Rightarrow> False)"

lemma emits_tcp_connect: "emits is_sock (tcp_connect os ip port timeout)"
  by (auto simp: tcp_connect_def set_non_blocking_def last_socket_error_def
      await_connection_def wait_for_socket_def close_socket_def is_sock_def split_beta
      intro!: emits_intros emits_ensure split: option.split)

lemma is_sock_list: "list_all is_sock es \<Longrightarrow> discreet es \<and> foldl held_step M es = M"
  by (induction es arbitrary: M) (auto simp: is_sock_def discreet_def sends_password_def split: event.splits)

lemma fail_after:
  assumes "emits uneventful msg" and "run_state (msg \<bind> (\<lambda>m. fail_connect (f m) client)) t = ((ok, client'), t')"
  obtains message es where "\<not> ok" "t' = t @ es @ disconnect_events client" "discreet es" "no_resources es"
    "client' = client\<lparr>cl_last_error := message, cl_session := None, cl_socket := kInvalidSocket\<rparr>"
proof -
  obtain m t1 where run: "run_state msg t = (m, t1)" by force
  from adds_events [OF emits_run [OF assms(1) this]] obtain es where "t1 = t @ es" "list_all uneventful es" by blast
  with assms(2) run that uneventful_list show thesis by (auto simp: fail_connect_run)
qed

definition at_authentication :: "SshClient \<Rightarrow> session \<Rightarrow> socket_t \<Rightarrow> string \<Rightarrow> event list \<Rightarrow> bool" where
  "at_authentication client s h status es \<longleftrightarrow> discreet es \<and> list_ex (shook_hands s h) es
   \<and> (status = ''match'' \<longrightarrow>
       list_ex (key_matched s (c_str (cfg_host (cl_config client))) (cfg_port (cl_config client))) es)"

lemma start_session_cases:
  assumes "run_state (start_session os ssh s client) t = ((ok, client'), t')" and "cl_session client = Some s"
  obtains (early) message es where "\<not> ok" "t' = t @ es" "discreet es"
      "client' = client\<lparr>cl_last_error := message, cl_session := None, cl_socket := kInvalidSocket\<rparr>"
      "live_sockets t' = live_sockets t - owned (cl_socket client)" "held t' = held t - {#Open_session s#}"
    | (reached) status es where "at_authentication client s (cl_socket client) status es" "no_resources es"
      "run_state (authenticate ssh s (client\<lparr>cl_host_key_status := status\<rparr>)) (t @ es) = ((ok, client'), t')"
proof -
  define h where "h = cl_socket client"
  define es1 where "es1 = [Ssh (Ev_session_set_blocking s),
      Ssh (Ev_session_set_timeout s (long_of (cfg_auth_timeout (cl_config client))))]"
  define rc where "rc = ls_handshake ssh s h (t @ es1)"
  define es2 where "es2 = es1 @ [Ssh (Ev_handshake s h rc)]"
  have run: "run_state (start_session os ssh s client) t =
      (if rc \<noteq> 0 then run_state (do { message \<leftarrow> libssh2_error_text ssh (Some s) ''SSH handshake failed'';
             fail_connect message client }) (t @ es2)
       else run_state (do { status \<leftarrow> verify_host_key os ssh (cl_config client) s;
             authenticate ssh s (client\<lparr>cl_host_key_status := status\<rparr>) }) (t @ es2))"
    by (simp add: start_session_def rc_def es1_def es2_def h_def)
  have es2: "discreet es2" "no_resources es2" "rc = 0 \<longrightarrow> list_ex (shook_hands s h) es2"
    by (simp_all add: es2_def es1_def discreet_def sends_password_def shook_hands_def no_resources_def held_step_def)
  show thesis
  proof (cases "rc = 0")
    case True
    obtain status t3 where v: "run_state (verify_host_key os ssh (cl_config client) s) (t @ es2) = (status, t3)" by force
    from verify_host_key_spec [OF this] obtain es3 where es3: "t3 = (t @ es2) @ es3" "discreet es3" "no_resources es3"
      "status = ''match'' \<longrightarrow> list_ex (key_matched s (c_str (cfg_host (cl_config client))) (cfg_port (cl_config client))) es3"
      by blast
    show thesis
    proof (rule reached)
      show "at_authentication client s (cl_socket client) status (es2 @ es3)"
        using es2 es3 True by (auto simp: at_authentication_def h_def)
      show "no_resources (es2 @ es3)" using es2 es3 by (simp add: no_resources_def)
      show "run_state (authenticate ssh s (client\<lparr>cl_host_key_status := status\<rparr>)) (t @ es2 @ es3) = ((ok, client'), t')"
        using assms(1) True v es3(1) by (simp add: run)
    qed
  next
    case False
    with assms(1) run have
      "run_state (libssh2_error_text ssh (Some s) ''SSH handshake failed'' \<bind> (\<lambda>m. fail_connect m client)) (t @ es2)
        = ((ok, client'), t')" by simp
    from fail_after [OF emits_texts(2) this] obtain message es where
      f: "\<not> ok" "t' = (t @ es2) @ es @ disconnect_events client" "discreet es" "no_resources es"
      "client' = client\<lparr>cl_last_error := message, cl_session := None, cl_socket := kInvalidSocket\<rparr>" .
    show thesis
      by (rule early [OF f(1) _ _ f(5), of "es2 @ es @ disconnect_events client"])
        (use f es2 assms(2) in \<open>simp_all add: trace_simps no_resources_def disconnect_live
          disconnect_held owned_session_def\<close>)
  qed
qed

text \<open>The two failures before there is a session.\<close>

lemma open_session_fails:
  fixes msg :: "string io"
  assumes "run_state (open_session os ssh client) t = ((ok, client'), t')" and "cl_session client = None"
    and "run_state (open_session os ssh client) t = run_state (msg \<bind> (\<lambda>m. fail_connect (f m) client)) (t @ es0)"
    and "emits uneventful msg" "discreet es0" "no_resources es0"
  obtains message es where "\<not> ok" "t' = t @ es" "discreet es"
      "client' = client\<lparr>cl_last_error := message, cl_session := None, cl_socket := kInvalidSocket\<rparr>"
      "live_sockets t' = live_sockets t - owned (cl_socket client)" "held t' = held t"
proof -
  have "run_state (msg \<bind> (\<lambda>m. fail_connect (f m) client)) (t @ es0) = ((ok, client'), t')"
    using assms(1) by (simp only: assms(3))
  from fail_after [OF assms(4) this] obtain message es where
    f: "\<not> ok" "t' = (t @ es0) @ es @ disconnect_events client" "discreet es" "no_resources es"
    "client' = client\<lparr>cl_last_error := message, cl_session := None, cl_socket := kInvalidSocket\<rparr>" .
  show thesis
    by (rule that [OF f(1) _ _ f(5), of "es0 @ es @ disconnect_events client"])
      (use f assms(2,5,6) in \<open>simp_all add: trace_simps no_resources_def disconnect_live
        disconnect_held owned_session_def\<close>)
qed

lemma open_session_cases:
  assumes "run_state (open_session os ssh client) t = ((ok, client'), t')" and "cl_session client = None"
  obtains (early) message es where "\<not> ok" "t' = t @ es" "discreet es"
      "client' = client\<lparr>cl_last_error := message, cl_session := None, cl_socket := kInvalidSocket\<rparr>"
      "live_sockets t' = live_sockets t - owned (cl_socket client)" "held t' = held t"
    | (reached) s status es where "at_authentication client s (cl_socket client) status es"
      "live_sockets (t @ es) = live_sockets t" "held (t @ es) = add_mset (Open_session s) (held t)"
      "run_state (authenticate ssh s (client\<lparr>cl_session := Some s, cl_host_key_status := status\<rparr>)) (t @ es)
         = ((ok, client'), t')"
proof -
  define h where "h = cl_socket client"
  consider (blocking) "\<not> os_FIONBIO os h 0 t"
    | (session) "os_FIONBIO os h 0 t" "ls_session_init ssh (t @ [Sock (Ev_FIONBIO h 0 True)]) = None"
    | (open_it) s where "os_FIONBIO os h 0 t" "ls_session_init ssh (t @ [Sock (Ev_FIONBIO h 0 True)]) = Some s"
    by auto
  then show thesis
  proof cases
    case blocking
    then have run: "run_state (open_session os ssh client) t
      = run_state (do { error_code \<leftarrow> last_socket_error os; socket_error_text os error_code }
          \<bind> (\<lambda>m. fail_connect (''could not switch the SSH socket to blocking mode: '' @ m) client))
          (t @ [Sock (Ev_FIONBIO h 0 False)])"
      by (simp add: open_session_def h_def [symmetric] split_beta)
    show thesis
      by (rule open_session_fails [OF assms run emits_texts(1)])
        (simp, simp add: no_resources_def live_step_def, rule early)
  next
    case session
    have "client\<lparr>cl_session := None\<rparr> = client" using assms(2) by simp
    with session have run: "run_state (open_session os ssh client) t
      = run_state (return ''could not create SSH session'' \<bind> (\<lambda>m. fail_connect m client))
          (t @ [Sock (Ev_FIONBIO h 0 True), Ssh (Ev_session_init None)])"
      by (simp add: open_session_def h_def [symmetric])
    show thesis
      by (rule open_session_fails [OF assms run emits_return])
        (simp add: discreet_def sends_password_def, simp add: no_resources_def live_step_def held_step_def, rule early)
  next
    case (open_it s)
    let ?c = "client\<lparr>cl_session := Some s\<rparr>" and ?es0 = "[Sock (Ev_FIONBIO h 0 True), Ssh (Ev_session_init (Some s))]"
    have l: "live_sockets (t @ ?es0) = live_sockets t" "held (t @ ?es0) = add_mset (Open_session s) (held t)" "discreet ?es0"
      by (simp_all add: trace_simps live_step_def held_step_def discreet_def sends_password_def)
    have "run_state (start_session os ssh s ?c) (t @ ?es0) = ((ok, client'), t')" "cl_session ?c = Some s"
      using open_it assms(1) by (simp_all add: open_session_def h_def [symmetric])
    then show thesis
    proof (cases rule: start_session_cases)
      case (early message es)
      then show thesis using l
        by (intro that(1) [of "?es0 @ es" message]) simp_all
    next
      case (reached status es)
      have "live_sockets (t @ ?es0 @ es) = live_sockets t" "held (t @ ?es0 @ es) = add_mset (Open_session s) (held t)"
        using reached(2) l by (simp_all add: live_sockets_append [of "t @ ?es0" es, simplified]
          held_append [of "t @ ?es0" es, simplified] no_resources_def)
      with reached l show thesis
        by (intro that(2) [of s status "?es0 @ es"]) (simp_all add: at_authentication_def)
    qed
  qed
qed

definition fresh_client :: "SshClient \<Rightarrow> bool" where
  "fresh_client client \<longleftrightarrow> cl_session client = None \<and> cl_socket client = kInvalidSocket"

lemma fresh_ssh_client [simp]: "fresh_client (ssh_client config)"
  by (simp add: fresh_client_def ssh_client_def)

text \<open>Up to the TCP connection: it fails, or hands a connected socket to \<open>open_session\<close>.\<close>

lemma connect_start:
  assumes "run_state (connect_and_authenticate os ssh client) t = ((ok, client'), t')"
  obtains (stopped) message es where "\<not> ok" "t' = t @ es" "discreet es" "client' = client\<lparr>cl_last_error := message\<rparr>"
      "live_sockets t' = live_sockets t" "held t' = held t"
    | (connected) h es where "discreet es" "live_sockets (t @ es) = live_sockets t + owned h" "held (t @ es) = held t"
      "reports_errors os \<longrightarrow> connected_to os (cfg_host (cl_config client)) (cfg_port (cl_config client)) h es"
      "run_state (open_session os ssh (client\<lparr>cl_socket := h\<rparr>)) (t @ es) = ((ok, client'), t')"
proof -
  let ?host = "cfg_host (cl_config client)" and ?port = "cfg_port (cl_config client)"
  obtain ready t1 where r: "run_state (ensure_libssh2_initialised ssh) t = (ready, t1)" by force
  have "emits uneventful (ensure_libssh2_initialised ssh)"
    by (auto simp: ensure_libssh2_initialised_def uneventful_def sends_password_def held_step_def
        intro!: emits_intros split: option.split)
  from adds_events [OF emits_run [OF this r]] obtain es1 where t1: "t1 = t @ es1" and es1: "discreet es1" "no_resources es1"
    using uneventful_list by blast
  obtain result h t2 where c: "run_state (tcp_connect os ?host ?port (cfg_connect_timeout (cl_config client))) t1
      = ((result, h), t2)" by (metis surj_pair)
  from adds_events [OF emits_run [OF emits_tcp_connect c]] obtain es2 where t2: "t2 = t1 @ es2" and es2: "list_all is_sock es2" by blast
  have live: "live_sockets t2 = live_sockets t + owned h" and h: "result \<noteq> Connected \<Longrightarrow> h = kInvalidSocket"
    using tcp_connect_cases [OF c] es1 by (auto simp: t1 live_sockets_append no_resources_def owned_def)
  have held: "held t2 = held t"
    using es1 is_sock_list [OF es2] by (simp add: t1 t2 held_append no_resources_def)
  have disc: "discreet (es1 @ es2)" and eq: "t2 = t @ (es1 @ es2)" using es1 is_sock_list [OF es2] by (simp_all add: t1 t2)
  have run: "run_state (connect_and_authenticate os ssh client) t =
      (if \<not> ready then ((False, client\<lparr>cl_last_error := ''libssh2 initialisation failed''\<rparr>), t1)
       else if result \<noteq> Connected
       then ((False, client\<lparr>cl_last_error := ''SSH connection failed ('' @ connect_result_text result @ '')''\<rparr>), t2)
       else run_state (open_session os ssh (client\<lparr>cl_socket := h\<rparr>)) t2)"
    using r c by (simp add: connect_and_authenticate_def)
  consider "\<not> ready" | "ready" "result \<noteq> Connected" | "ready" "result = Connected" by blast
  then show thesis
  proof cases
    case 1
    with assms have f: "\<not> ok" "t' = t @ es1" "client' = client\<lparr>cl_last_error := ''libssh2 initialisation failed''\<rparr>"
      by (simp_all add: run t1)
    show thesis
      by (rule stopped [OF f(1,2) es1(1) f(3)])
        (use f es1 in \<open>simp_all add: trace_simps no_resources_def\<close>)
  next
    case 2
    with assms have f: "\<not> ok" "t' = t @ (es1 @ es2)"
      "client' = client\<lparr>cl_last_error := ''SSH connection failed ('' @ connect_result_text result @ '')''\<rparr>"
      by (simp_all add: run eq)
    show thesis
      by (rule stopped [OF f(1,2) disc f(3)]) (use f 2 live held h in \<open>simp_all add: eq owned_def\<close>)
  next
    case 3
    have "connected_to os ?host ?port h (es1 @ es2)" if "reports_errors os"
    proof -
      have "h \<noteq> kInvalidSocket" using tcp_connect_cases [OF c] that 3 by blast
      from tcp_connect_events [OF c this] show ?thesis by (auto simp: t2 connected_to_def)
    qed
    with assms 3 live held disc show thesis by (intro connected [of "es1 @ es2" h]) (simp_all add: run eq)
  qed
qed

lemma connect_cases:
  assumes "run_state (connect_and_authenticate os ssh client) t = ((ok, client'), t')" and "fresh_client client"
  obtains (early) message es where "\<not> ok" "t' = t @ es" "discreet es"
      "client' = client\<lparr>cl_last_error := message, cl_session := None, cl_socket := kInvalidSocket\<rparr>"
      "live_sockets t' = live_sockets t" "held t' = held t"
    | (reached) s h status es where "at_authentication client s h status es"
      "reports_errors os \<longrightarrow> connected_to os (cfg_host (cl_config client)) (cfg_port (cl_config client)) h es"
      "live_sockets (t @ es) = live_sockets t + owned h" "held (t @ es) = add_mset (Open_session s) (held t)"
      "run_state (authenticate ssh s (client\<lparr>cl_socket := h, cl_session := Some s, cl_host_key_status := status\<rparr>)) (t @ es)
         = ((ok, client'), t')"
  using assms(1)
proof (cases rule: connect_start)
  case (stopped message es)
  have "client' = client\<lparr>cl_last_error := message, cl_session := None, cl_socket := kInvalidSocket\<rparr>"
    using stopped(4) assms(2) by (simp add: fresh_client_def)
  with stopped show thesis by (intro early)
next
  case (connected h es1)
  note grown = connected_to_append [where xs = "[]"]
  show thesis
  proof (rule open_session_cases [OF connected(5)])
    show "cl_session (client\<lparr>cl_socket := h\<rparr>) = None" using assms(2) by (simp add: fresh_client_def)
  next
    fix message es
    assume "\<not> ok" "t' = (t @ es1) @ es" "discreet es"
      "client' = client\<lparr>cl_socket := h, cl_last_error := message, cl_session := None, cl_socket := kInvalidSocket\<rparr>"
      "live_sockets t' = live_sockets (t @ es1) - owned (cl_socket (client\<lparr>cl_socket := h\<rparr>))" "held t' = held (t @ es1)"
    with connected show thesis by (intro early [of "es1 @ es"]) simp_all
  next
    fix s status es
    assume "at_authentication (client\<lparr>cl_socket := h\<rparr>) s (cl_socket (client\<lparr>cl_socket := h\<rparr>)) status es"
      "live_sockets ((t @ es1) @ es) = live_sockets (t @ es1)" "held ((t @ es1) @ es) = add_mset (Open_session s) (held (t @ es1))"
      "run_state (authenticate ssh s (client\<lparr>cl_socket := h, cl_session := Some s, cl_host_key_status := status\<rparr>)) ((t @ es1) @ es)
       = ((ok, client'), t')"
    with connected show thesis
      by (intro reached [of s h status "es1 @ es"]) (auto simp: at_authentication_def dest: grown)
  qed
qed

lemma connect_resources:
  assumes "run_state (connect_and_authenticate os ssh client) t = ((ok, client'), t')" and "fresh_client client"
  shows "live_sockets t' = live_sockets t + owned (cl_socket client')
    \<and> held t' = held t + owned_session (cl_session client')
    \<and> (if ok then cl_session client' \<noteq> None else fresh_client client')
    \<and> cl_config client' = cl_config client"
  using assms
proof (cases rule: connect_cases)
  case (early message es)
  then show ?thesis by (simp add: fresh_client_def owned_def owned_session_def)
next
  case (reached s h status es)
  note l = live_sockets_append [of "t @ es"] held_append [of "t @ es"]
  from reached(5) show ?thesis
  proof (cases rule: authenticate_cases)
    case (refused message)
    then show ?thesis
      by (simp only: refused(4) l reached(3,4))
        (simp add: refused fresh_client_def disconnect_live disconnect_held owned_def owned_session_def)
  next
    case (sent rc)
    then show ?thesis
      by (simp only: sent(4) l reached(3,4))
        (simp add: sent(5) fresh_client_def disconnect_live disconnect_held owned_def owned_session_def
          held_step_def)
  qed
qed

text \<open>A failed connection leaves no socket and no SSH session behind, and a successful one exactly the
socket and the session that the client holds; known-hosts objects are always released.\<close>

theorem connect_owns_what_it_holds:
  assumes "run_state (connect_and_authenticate os ssh client) t = ((ok, client'), t')" and "fresh_client client"
  shows "live_sockets t' = live_sockets t + owned (cl_socket client')
    \<and> held t' = held t + owned_session (cl_session client')
    \<and> (ok \<longrightarrow> cl_session client' \<noteq> None) \<and> (\<not> ok \<longrightarrow> fresh_client client')"
  using connect_resources [OF assms] by (simp split: if_splits)

lemma password_spec:
  assumes "run_state (connect_and_authenticate os ssh client) t = ((ok, client'), t')" and "fresh_client client"
  defines "config \<equiv> cl_config client"
  shows "\<exists>es s h rc. t' = t @ es
    \<and> filter sends_password es \<in> {[],
        [Ssh (Ev_userauth_password s (c_str (cfg_username config)) (c_str (cfg_password config)) rc)]}
    \<and> (ok \<longrightarrow> rc = 0 \<and> filter sends_password es \<noteq> [])
    \<and> preceded (shook_hands s h) sends_password es
    \<and> (filter sends_password es \<noteq> [] \<longrightarrow> reports_errors os \<longrightarrow> connected_to os (cfg_host config) (cfg_port config) h es)
    \<and> (cfg_host_key_policy config = Strict \<longrightarrow>
         preceded (key_matched s (c_str (cfg_host config)) (cfg_port config)) sends_password es
         \<and> (ok \<longrightarrow> cl_host_key_status client' = ''match''))"
  using assms(1,2)
proof (cases rule: connect_cases)
  case (early message es)
  then show ?thesis
    by (intro exI [of _ es]) (simp add: discreet_filter preceded_discreet)
next
  case (reached s h status es)
  from reached(5) show ?thesis
  proof (cases rule: authenticate_cases)
    case (refused message)
    then show ?thesis using reached(1)
      by (intro exI [of _ "es @ disconnect_events (client\<lparr>cl_socket := h, cl_session := Some s, cl_host_key_status := status\<rparr>)"])
        (simp add: at_authentication_def discreet_filter preceded_discreet)
  next
    case (sent rc)
    let ?attempt = "Ssh (Ev_userauth_password s (c_str (cfg_username config)) (c_str (cfg_password config)) rc)"
    let ?rest = "if ok then [] else disconnect_events (client\<lparr>cl_socket := h, cl_session := Some s, cl_host_key_status := status\<rparr>)"
    define es' where "es' = es @ ?attempt # ?rest"
    have "t' = t @ es'" using sent(4) by (simp add: config_def es'_def)
    moreover have "filter sends_password es' = [?attempt]"
      using reached(1) by (auto simp: es'_def at_authentication_def discreet_filter sends_password_def)
    moreover have "preceded (shook_hands s h) sends_password es'"
      using reached(1) by (simp add: es'_def at_authentication_def preceded_append preceded_discreet)
    moreover have "reports_errors os \<longrightarrow> connected_to os (cfg_host config) (cfg_port config) h es'"
      using reached(2) connected_to_append [where xs = "[]"] by (auto simp: es'_def config_def)
    moreover have "preceded (key_matched s (c_str (cfg_host config)) (cfg_port config)) sends_password es'"
      if "cfg_host_key_policy config = Strict"
      using reached(1) sent(1) that
      by (simp add: es'_def at_authentication_def preceded_append preceded_discreet config_def)
    moreover have "ok \<longrightarrow> rc = 0" "cfg_host_key_policy config = Strict \<longrightarrow> ok \<longrightarrow> cl_host_key_status client' = ''match''"
      using sent(1,3,5) by (simp_all add: config_def)
    ultimately show ?thesis
      by (intro exI [of _ es'] exI [of _ s] exI [of _ h] exI [of _ rc]) simp
  qed
qed

text \<open>C13: The password leaves the program at most once per connection, for the configured user, on a
session that completed its handshake over a socket connected to the configured host and port; under
the strict policy only after the host key was checked to match for this host and port. A success means
that this one attempt was accepted.\<close>

theorem password_follows_verification:
  assumes "run_state (connect_and_authenticate os ssh client) t = ((ok, client'), t')" and "fresh_client client"
  defines "config \<equiv> cl_config client"
  shows "\<exists>es s h rc. t' = t @ es
    \<and> filter sends_password es \<in> {[],
        [Ssh (Ev_userauth_password s (c_str (cfg_username config)) (c_str (cfg_password config)) rc)]}
    \<and> (ok \<longrightarrow> rc = 0 \<and> filter sends_password es \<noteq> [])
    \<and> preceded (shook_hands s h) sends_password es
    \<and> (filter sends_password es \<noteq> [] \<longrightarrow> reports_errors os \<longrightarrow> connected_to os (cfg_host config) (cfg_port config) h es)
    \<and> (cfg_host_key_policy config = Strict \<longrightarrow>
         preceded (key_matched s (c_str (cfg_host config)) (cfg_port config)) sends_password es
         \<and> (ok \<longrightarrow> cl_host_key_status client' = ''match''))"
  unfolding config_def by (rule password_spec [OF assms(1,2)])

section \<open>The password and what can be observed\<close>

text \<open>A trace without the password, and without the code of a rejection.\<close>

definition hide :: "event \<Rightarrow> event" where
  "hide e = (case e of
      Ssh (Ev_userauth_password s user password rc) \<Rightarrow> Ssh (Ev_userauth_password s user [] (if rc = 0 then 0 else 1))
    | _ \<Rightarrow> e)"

definition with_password :: "string \<Rightarrow> SshClient \<Rightarrow> SshClient" where
  "with_password password client = client\<lparr>cl_config := (cl_config client)\<lparr>cfg_password := password\<rparr>\<rparr>"

lemma verify_host_key_password:
  "verify_host_key os ssh (config\<lparr>cfg_password := password\<rparr>) s = verify_host_key os ssh config s"
proof -
  have same: "cfg_host (config\<lparr>cfg_password := password\<rparr>) = cfg_host config"
    "cfg_port (config\<lparr>cfg_password := password\<rparr>) = cfg_port config"
    "cfg_known_hosts_path (config\<lparr>cfg_password := password\<rparr>) = cfg_known_hosts_path config" by simp_all
  show ?thesis unfolding verify_host_key_def same by (rule refl)
qed

text \<open>
  Two runs agree: same client but for the password, same trace but for what \<open>hide\<close> drops. They
  agree always when the server treats the passwords alike, and otherwise when the answer is the same.
\<close>

definition alike :: "libssh2 \<Rightarrow> string \<Rightarrow> string \<Rightarrow> bool" where
  "alike ssh password password' \<longleftrightarrow> (\<forall>s user t.
     ls_userauth_password ssh s user (c_str password) t = 0 \<longleftrightarrow> ls_userauth_password ssh s user (c_str password') t = 0)"

definition agree :: "bool \<Rightarrow> (bool \<times> SshClient) \<times> trace \<Rightarrow> (bool \<times> SshClient) \<times> trace \<Rightarrow> bool" where
  "agree always r r' \<longleftrightarrow> (always \<longrightarrow> fst (fst r) = fst (fst r')) \<and> (fst (fst r) = fst (fst r') \<longrightarrow>
     with_password [] (snd (fst r)) = with_password [] (snd (fst r')) \<and> map hide (snd r) = map hide (snd r'))"

lemma disconnect_events_password:
  "disconnect_events (with_password password client) = disconnect_events client"
  by (simp add: disconnect_events_def with_password_def)

lemma fail_connect_agree:
  "agree always (run_state (fail_connect message client) t) (run_state (fail_connect message (with_password password client)) t)"
  by (simp add: agree_def fail_connect_run disconnect_events_password) (simp add: with_password_def)

lemma authenticate_agree:
  assumes "always \<Longrightarrow> alike ssh (cfg_password (cl_config client)) password"
  shows "agree always (run_state (authenticate ssh s client) t) (run_state (authenticate ssh s (with_password password client)) t)"
proof (cases "cfg_host_key_policy (cl_config client) = Strict \<and> cl_host_key_status client \<noteq> ''match''")
  case True
  then show ?thesis
    using fail_connect_agree unfolding authenticate_def Let_def by (simp add: with_password_def)
next
  case False
  let ?rc = "\<lambda>pw. ls_userauth_password ssh s (c_str (cfg_username (cl_config client))) (c_str pw) t"
  define message where
    "message = ''SSH authentication failed for user '' @ CHR 0x27 # cfg_username (cl_config client) @ [CHR 0x27]"
  have m: "run_state (authenticate ssh s client') t =
    (let rc = ls_userauth_password ssh s (c_str (cfg_username (cl_config client))) (c_str (cfg_password (cl_config client'))) t;
         t1 = t @ [Ssh (Ev_userauth_password s (c_str (cfg_username (cl_config client))) (c_str (cfg_password (cl_config client'))) rc)]
     in if rc \<noteq> 0 then run_state (fail_connect message client') t1 else ((True, client'), t1))"
    if "client' = client \<or> client' = with_password password client" for client'
  proof -
    have same: "cfg_username (cl_config client') = cfg_username (cl_config client)"
      "cfg_host_key_policy (cl_config client') = cfg_host_key_policy (cl_config client)"
      "cl_host_key_status client' = cl_host_key_status client"
      using that by (auto simp: with_password_def)
    show ?thesis unfolding authenticate_def Let_def same message_def if_not_P [OF False] by simp
  qed
  show ?thesis
    using m [of client] m [of "with_password password client"] assms [unfolded alike_def]
    by (auto simp: agree_def Let_def fail_connect_run disconnect_events_password hide_def)
      (auto simp: with_password_def)
qed

lemma agree_bind:
  "(\<And>x t. agree always (run_state (k x) t) (run_state (k' x) t)) \<Longrightarrow> agree always (run_state (m \<bind> k) t) (run_state (m \<bind> k') t)"
  by (simp add: split_beta)

lemma agree_if:
  "(b \<Longrightarrow> agree always (run_state m t) (run_state m' t)) \<Longrightarrow> (\<not> b \<Longrightarrow> agree always (run_state k t) (run_state k' t)) \<Longrightarrow>
     agree always (run_state (if b then m else k) t) (run_state (if b then m' else k') t)"
  by simp

lemma with_password_simps:
  "cl_socket (with_password password client) = cl_socket client"
  "cl_session (with_password password client) = cl_session client"
  "cl_config (with_password password client) = (cl_config client)\<lparr>cfg_password := password\<rparr>"
  "(with_password password client)\<lparr>cl_session := session\<rparr> = with_password password (client\<lparr>cl_session := session\<rparr>)"
  "(with_password password client)\<lparr>cl_socket := h\<rparr> = with_password password (client\<lparr>cl_socket := h\<rparr>)"
  "(with_password password client)\<lparr>cl_host_key_status := status\<rparr> = with_password password (client\<lparr>cl_host_key_status := status\<rparr>)"
  "(with_password password client)\<lparr>cl_last_error := message\<rparr> = with_password password (client\<lparr>cl_last_error := message\<rparr>)"
  "cfg_host (config\<lparr>cfg_password := password\<rparr>) = cfg_host config"
  "cfg_port (config\<lparr>cfg_password := password\<rparr>) = cfg_port config"
  "cfg_connect_timeout (config\<lparr>cfg_password := password\<rparr>) = cfg_connect_timeout config"
  "cfg_auth_timeout (config\<lparr>cfg_password := password\<rparr>) = cfg_auth_timeout config"
  by (simp_all add: with_password_def)

lemma open_session_agree:
  assumes "always \<Longrightarrow> alike ssh (cfg_password (cl_config client)) password"
  shows "agree always (run_state (open_session os ssh client) t) (run_state (open_session os ssh (with_password password client)) t)"
  unfolding open_session_def start_session_def Let_def with_password_simps verify_host_key_password
  by (intro agree_bind agree_if fail_connect_agree authenticate_agree)
    (auto intro!: agree_bind agree_if fail_connect_agree authenticate_agree simp: assms split: option.split prod.split)

lemma agree_return_password:
  "agree always ((ok, client), t) ((ok, with_password password client), t)"
  by (simp add: agree_def with_password_def)

lemma connect_agree:
  assumes "always \<Longrightarrow> alike ssh (cfg_password (cl_config client)) password"
  shows "agree always (run_state (connect_and_authenticate os ssh client) t)
     (run_state (connect_and_authenticate os ssh (with_password password client)) t)"
  unfolding connect_and_authenticate_def with_password_simps
  by (intro agree_bind agree_if)
    (auto intro!: agree_if open_session_agree agree_return_password simp: assms split: prod.split)

text \<open>Two connections that differ in the password only and end alike (both accepted, or both refused)
cannot be told apart: the same error text and host key status, and the same calls with the same
arguments, the password argument and the rejection code apart. In particular no message depends on
the password.\<close>

theorem password_noninterference:
  assumes "run_state (connect_and_authenticate os ssh client) t = ((ok, client1), t1)"
    and "run_state (connect_and_authenticate os ssh (with_password password client)) t = ((ok, client2), t2)"
  shows "cl_last_error client1 = cl_last_error client2 \<and> cl_host_key_status client1 = cl_host_key_status client2
    \<and> map hide t1 = map hide t2"
proof -
  have eq: "with_password [] client1 = with_password [] client2" "map hide t1 = map hide t2"
    using connect_agree [of False ssh client password os t] assms by (simp_all add: agree_def)
  have sel: "cl_last_error c = cl_last_error (with_password [] c)" "cl_host_key_status c = cl_host_key_status (with_password [] c)"
    for c by (simp_all add: with_password_def)
  show ?thesis using sel [of client1] sel [of client2] eq by simp
qed

section \<open>Commands\<close>

text \<open>The bytes delivered on one stream of a channel, and the events that deliver some.\<close>

definition delivery :: "channel \<Rightarrow> bool \<Rightarrow> event \<Rightarrow> string" where
  "delivery ch from_stderr e = (case e of
      Chan (Ev_channel_read ch' from_stderr' (Some bytes)) \<Rightarrow>
        if ch' = ch \<and> from_stderr' = from_stderr then bytes else []
    | _ \<Rightarrow> [])"

definition delivered :: "channel \<Rightarrow> bool \<Rightarrow> event list \<Rightarrow> string" where
  "delivered ch from_stderr es = concat (map (delivery ch from_stderr) es)"

lemma delivered_append [simp]: "delivered ch e (xs @ ys) = delivered ch e xs @ delivered ch e ys"
  by (simp add: delivered_def)

lemma read_loop_step:
  "read_loop ssh ch e data t =
     (let answer = ls_channel_read ssh ch e t; t' = t @ [Chan (Ev_channel_read ch e answer)]
      in case answer of None \<Rightarrow> Some (data, t')
           | Some bytes \<Rightarrow> if bytes = [] then Some (data, t') else read_loop ssh ch e (data @ bytes) t')"
  by (subst read_loop.simps) (simp add: Let_def)

definition reads_of :: "channel \<Rightarrow> bool \<Rightarrow> event \<Rightarrow> bool" where
  "reads_of ch from_stderr ev \<longleftrightarrow> (\<exists>answer. ev = Chan (Ev_channel_read ch from_stderr answer))"

definition loop_effect :: "channel \<Rightarrow> bool \<Rightarrow> string \<Rightarrow> trace \<Rightarrow> string \<times> trace \<Rightarrow> bool" where
  "loop_effect ch e data t r \<longleftrightarrow>
     (\<exists>es. snd r = t @ es \<and> list_all (reads_of ch e) es \<and> fst r = data @ delivered ch e es)"

lemma loop_effect_last:
  "answer = None \<or> answer = Some [] \<Longrightarrow>
     loop_effect ch e data t (data, t @ [Chan (Ev_channel_read ch e answer)])"
  unfolding loop_effect_def
  by (intro exI [of _ "[Chan (Ev_channel_read ch e answer)]"]) (auto simp: reads_of_def delivered_def delivery_def)

lemma loop_effect_more:
  "loop_effect ch e (data @ bytes) (t @ [Chan (Ev_channel_read ch e (Some bytes))]) r \<Longrightarrow> loop_effect ch e data t r"
  unfolding loop_effect_def
  by (elim exE, rule_tac x = "Chan (Ev_channel_read ch e (Some bytes)) # es" in exI)
    (auto simp: reads_of_def delivered_def delivery_def)

lemma read_loop_effect:
  assumes "read_loop ssh ch e data t = Some r"
  shows "loop_effect ch e data t r"
proof (rule read_loop.raw_induct [where P = "\<lambda>ssh ch e data t r. loop_effect ch e data t r", OF _ assms], goal_cases)
  case (1 loop ssh ch e data t r)
  show ?case
  proof (cases "\<exists>bytes. ls_channel_read ssh ch e t = Some bytes \<and> bytes \<noteq> []")
    case True
    then obtain bytes where b: "ls_channel_read ssh ch e t = Some bytes" "bytes \<noteq> []" by blast
    with 1(2) have "loop ssh ch e (data @ bytes) (t @ [Chan (Ev_channel_read ch e (Some bytes))]) = Some r" by simp
    from 1(1) [OF this] show ?thesis by (rule loop_effect_more)
  next
    case False
    with 1(2) show ?thesis by (auto intro: loop_effect_last split: option.splits if_splits)
  qed
qed

text \<open>
  A bound on what a server sends: after \<open>n\<close> non-empty answers on a stream of a channel no more
  bytes come.
\<close>

definition delivers :: "channel \<Rightarrow> bool \<Rightarrow> event \<Rightarrow> bool" where
  "delivers ch from_stderr e \<longleftrightarrow> delivery ch from_stderr e \<noteq> []"

definition sends_at_most :: "nat \<Rightarrow> libssh2 \<Rightarrow> bool" where
  "sends_at_most n ssh \<longleftrightarrow> (\<forall>ch e t. n \<le> length (filter (delivers ch e) t) \<longrightarrow>
     ls_channel_read ssh ch e t \<in> {None, Some []})"

lemma read_loop_terminates:
  assumes "sends_at_most n ssh"
  shows "\<exists>r. read_loop ssh ch e data t = Some r"
proof (induction "n - length (filter (delivers ch e) t)" arbitrary: data t rule: less_induct)
  case less
  show ?case
  proof (cases "ls_channel_read ssh ch e t \<in> {None, Some []}")
    case True
    then show ?thesis by (subst read_loop_step) (auto simp: Let_def)
  next
    case False
    then obtain bytes where b: "ls_channel_read ssh ch e t = Some bytes" "bytes \<noteq> []" by auto
    let ?t = "t @ [Chan (Ev_channel_read ch e (Some bytes))]"
    have "length (filter (delivers ch e) ?t) = Suc (length (filter (delivers ch e) t))"
      using b by (simp add: delivers_def delivery_def)
    moreover have "length (filter (delivers ch e) t) < n"
      using False assms by (meson not_le sends_at_most_def)
    ultimately have "\<exists>r. read_loop ssh ch e (data @ bytes) ?t = Some r"
      by (intro less.hyps) simp
    then show ?thesis by (subst read_loop_step) (simp add: Let_def b)
  qed
qed

lemma error_text_run:
  obtains message es where "run_state (libssh2_error_text ssh (Some s) (c # fallback)) u = (message, u @ es)"
    "message \<noteq> []" "no_resources es" "\<forall>ch e. list_all (\<lambda>ev. \<not> reads_of ch e ev) es"
proof -
  have "\<exists>message es. run_state (libssh2_error_text ssh (Some s) (c # fallback)) u = (message, u @ es) \<and> message \<noteq> []
      \<and> list_all uneventful es \<and> (\<forall>ch e. list_all (\<lambda>ev. \<not> reads_of ch e ev) es)"
    by (auto simp: libssh2_error_text_def uneventful_def sends_password_def held_step_def reads_of_def
        split: prod.split option.split)
  with that uneventful_list show thesis by metis
qed

lemma start_command_cases:
  assumes "run_state (start_command ssh client command) t = (r, t')"
  obtains (failed) message es where "message \<noteq> []" "r = Inl (fresh_command\<lparr>cmd_error := message\<rparr>)" "t' = t @ es"
      "held t' = held t" "live_sockets t' = live_sockets t" "\<And>ch e. list_all (\<lambda>ev. \<not> reads_of ch e ev) es"
    | (started) s ch where "cl_session client = Some s" "r = Inr ch"
      "t' = t @ [Ssh (Ev_session_set_timeout s (long_of (cfg_command_timeout (cl_config client)))),
         Chan (Ev_channel_open s (Some ch)), Chan (Ev_channel_exec ch (c_str command) 0)]"
proof (cases "cl_session client")
  case None
  with assms show thesis
    by (intro failed [of "''no authenticated SSH session''" "[]"]) (simp_all add: start_command_def)
next
  case (Some s)
  let ?timeout = "Ssh (Ev_session_set_timeout s (long_of (cfg_command_timeout (cl_config client))))"
  let ?t1 = "t @ [?timeout]"
  let ?t2 = "?t1 @ [Chan (Ev_channel_open s (ls_channel_open ssh s ?t1))]"
  show thesis
  proof (cases "ls_channel_open ssh s ?t1")
    case None
    obtain message es where e: "run_state (libssh2_error_text ssh (Some s) ''could not open SSH channel'')
        (?t1 @ [Chan (Ev_channel_open s None)]) = (message, (?t1 @ [Chan (Ev_channel_open s None)]) @ es)"
      "message \<noteq> []" "no_resources es" "\<forall>ch e. list_all (\<lambda>ev. \<not> reads_of ch e ev) es"
      by (rule error_text_run)
    have f: "r = Inl (fresh_command\<lparr>cmd_error := message\<rparr>)" "t' = ?t1 @ [Chan (Ev_channel_open s None)] @ es"
      using assms Some None e(1) by (simp_all add: start_command_def)
    show thesis
      by (rule failed [OF e(2) f(1), of "[?timeout, Chan (Ev_channel_open s None)] @ es"])
        (use e f in \<open>simp_all add: trace_simps held_step_def no_resources_def reads_of_def\<close>)
  next
    case ch: (Some ch)
    define rc where "rc = ls_channel_exec ssh ch (c_str command) (?t1 @ [Chan (Ev_channel_open s (Some ch))])"
    define t3 where "t3 = ?t1 @ [Chan (Ev_channel_open s (Some ch)), Chan (Ev_channel_exec ch (c_str command) rc)]"
    have run: "run_state (start_command ssh client command) t =
      (if rc \<noteq> 0 then run_state (do { message \<leftarrow> libssh2_error_text ssh (Some s) ''remote command execution failed'';
            _ \<leftarrow> call (Chan (Ev_channel_free ch));
            return (Inl (fresh_command\<lparr>cmd_error := message\<rparr>)) }) t3
       else (Inr ch, t3))"
      using Some ch by (simp add: start_command_def rc_def t3_def)
    show thesis
    proof (cases "rc = 0")
      case True
      with assms run Some show thesis by (intro started [of s ch]) (simp_all add: t3_def)
    next
      case False
      obtain message es where e: "run_state (libssh2_error_text ssh (Some s) ''remote command execution failed'') t3
          = (message, t3 @ es)"
        "message \<noteq> []" "no_resources es" "\<forall>ch e. list_all (\<lambda>ev. \<not> reads_of ch e ev) es"
        by (rule error_text_run)
      have f: "r = Inl (fresh_command\<lparr>cmd_error := message\<rparr>)" "t' = t3 @ es @ [Chan (Ev_channel_free ch)]"
        using assms False e(1) by (simp_all add: run)
      show thesis
        by (rule failed [OF e(2) f(1), of "[?timeout, Chan (Ev_channel_open s (Some ch)),
            Chan (Ev_channel_exec ch (c_str command) rc)] @ es @ [Chan (Ev_channel_free ch)]"])
          (use e f in \<open>simp_all add: t3_def trace_simps held_step_def no_resources_def reads_of_def\<close>)
    qed
  qed
qed

lemma reads_of_list:
  "list_all (reads_of ch e) es \<Longrightarrow> foldl held_step M es = M \<and> foldl live_step M' es = M'
     \<and> (e \<noteq> e' \<longrightarrow> delivered ch e' es = [])"
  by (induction es) (auto simp: reads_of_def held_step_def live_step_def delivered_def delivery_def split: option.splits)

lemma collect_output_cases:
  assumes "collect_output ssh ch t = Some (r, t')"
  obtains es status where "t' = t @ es" "cmd_ok r" "cmd_exit_code r = status" "cmd_error r = []"
    "Chan (Ev_channel_exit_status ch status) \<in> set es"
    "cmd_stdout_data r = delivered ch False es" "cmd_stderr_data r = delivered ch True es"
    "held t' = held t - {#Open_channel ch#}" "live_sockets t' = live_sockets t"
proof -
  obtain out t1 where o: "read_loop ssh ch False [] t = Some (out, t1)"
    using assms by (cases "read_loop ssh ch False [] t") (auto simp: collect_output_def)
  obtain err t2 where e: "read_loop ssh ch True [] t1 = Some (err, t2)"
    using assms o by (cases "read_loop ssh ch True [] t1") (auto simp: collect_output_def)
  obtain es1 where es1: "t1 = t @ es1" "list_all (reads_of ch False) es1" "out = delivered ch False es1"
    using read_loop_effect [OF o] by (auto simp: loop_effect_def)
  obtain es2 where es2: "t2 = t1 @ es2" "list_all (reads_of ch True) es2" "err = delivered ch True es2"
    using read_loop_effect [OF e] by (auto simp: loop_effect_def)
  define status where "status = ls_channel_exit_status ssh ch (t2 @ [Chan (Ev_channel_close ch)])"
  let ?tail = "[Chan (Ev_channel_close ch), Chan (Ev_channel_exit_status ch status), Chan (Ev_channel_free ch)]"
  have r: "r = \<lparr>cmd_ok = True, cmd_exit_code = status, cmd_stdout_data = out, cmd_stderr_data = err, cmd_error = []\<rparr>"
    and t': "t' = t2 @ ?tail"
    using assms o e by (simp_all add: collect_output_def Let_def status_def)
  have "delivered ch b ?tail = []" for b by (simp add: delivered_def delivery_def)
  moreover have "delivered ch True es1 = []" "delivered ch False es2 = []"
    using reads_of_list [OF es1(2), where e' = True] reads_of_list [OF es2(2), where e' = False] by auto
  ultimately have "cmd_stdout_data r = delivered ch False (es1 @ es2 @ ?tail)"
    "cmd_stderr_data r = delivered ch True (es1 @ es2 @ ?tail)"
    using r es1(3) es2(3) by (simp_all only: delivered_append) simp_all
  moreover have "held t' = held t - {#Open_channel ch#}" "live_sockets t' = live_sockets t"
    using reads_of_list [OF es1(2)] reads_of_list [OF es2(2)]
    by (simp_all add: t' es1(1) es2(1) held_append live_sockets_append held_step_def)
  ultimately show thesis
    using that [of "es1 @ es2 @ ?tail" status] by (simp add: r t' es1(1) es2(1))
qed

lemma execute_cases:
  assumes "execute ssh client command t = Some (r, t')"
  obtains (failed) message es where "message \<noteq> []" "r = fresh_command\<lparr>cmd_error := message\<rparr>" "t' = t @ es"
      "\<And>ch e. list_all (\<lambda>ev. \<not> reads_of ch e ev) es" "held t' = held t" "live_sockets t' = live_sockets t"
    | (finished) s ch es where "cl_session client = Some s" "t' = t @ es" "cmd_ok r" "cmd_error r = []"
      "Chan (Ev_channel_open s (Some ch)) \<in> set es" "Chan (Ev_channel_exec ch (c_str command) 0) \<in> set es"
      "Chan (Ev_channel_exit_status ch (cmd_exit_code r)) \<in> set es"
      "cmd_stdout_data r = delivered ch False es" "cmd_stderr_data r = delivered ch True es"
      "held t' = held t" "live_sockets t' = live_sockets t"
proof -
  obtain x t1 where run: "run_state (start_command ssh client command) t = (x, t1)" by force
  then show thesis
  proof (cases rule: start_command_cases)
    case (failed message es)
    with assms run have "r = fresh_command\<lparr>cmd_error := message\<rparr>" "t' = t1" by (auto simp: execute_def)
    with failed show thesis by (intro that(1)) simp_all
  next
    case (started s ch)
    let ?es = "[Ssh (Ev_session_set_timeout s (long_of (cfg_command_timeout (cl_config client)))),
         Chan (Ev_channel_open s (Some ch)), Chan (Ev_channel_exec ch (c_str command) 0)]"
    from assms run started(2) have "collect_output ssh ch t1 = Some (r, t')" by (simp add: execute_def)
    then obtain es status where c: "t' = t1 @ es" "cmd_ok r" "cmd_exit_code r = status" "cmd_error r = []"
      "Chan (Ev_channel_exit_status ch status) \<in> set es"
      "cmd_stdout_data r = delivered ch False es" "cmd_stderr_data r = delivered ch True es"
      "held t' = held t1 - {#Open_channel ch#}" "live_sockets t' = live_sockets t1"
      by (rule collect_output_cases)
    have "delivered ch b ?es = []" for b by (simp add: delivered_def delivery_def)
    then have d: "delivered ch b es = delivered ch b (?es @ es)" for b by (simp only: delivered_append append_Nil)
    have "held t1 = add_mset (Open_channel ch) (held t)" "live_sockets t1 = live_sockets t"
      by (simp_all add: started(3) held_append live_sockets_append held_step_def)
    with c started(1) show thesis
      by (intro that(2) [of s "?es @ es" ch]) (simp_all only: d, simp_all add: started(3))
  qed
qed

text \<open>C15: \<open>execute\<close> reports a command as run only if it was started on a channel of the session, and then
the output it returns is exactly what was read from the two streams of that channel and the exit code
is the one asked for after closing it; a failure carries a text, no output and exit code -1. The
channel is released on every path.\<close>

theorem execute_result:
  assumes "execute ssh client command t = Some (r, t')"
  shows "\<exists>es. t' = t @ es
    \<and> (if cmd_ok r
       then \<exists>s ch. cl_session client = Some s
         \<and> {Chan (Ev_channel_open s (Some ch)), Chan (Ev_channel_exec ch (c_str command) 0),
            Chan (Ev_channel_exit_status ch (cmd_exit_code r))} \<subseteq> set es
         \<and> cmd_stdout_data r = delivered ch False es \<and> cmd_stderr_data r = delivered ch True es
         \<and> cmd_error r = []
       else cmd_error r \<noteq> [] \<and> cmd_stdout_data r = [] \<and> cmd_stderr_data r = [] \<and> cmd_exit_code r = - 1)
    \<and> held t' = held t \<and> live_sockets t' = live_sockets t"
  using assms
proof (cases rule: execute_cases)
  case (failed message es)
  then show ?thesis by (intro exI [of _ es]) (simp add: fresh_command_def)
next
  case (finished s ch es)
  then show ?thesis by (intro exI [of _ es]) (auto intro!: exI [of _ s] exI [of _ ch])
qed

lemma execute_total:
  assumes "sends_at_most n ssh"
  shows "\<exists>r t'. execute ssh client command t = Some (r, t')"
proof -
  have "\<exists>r. collect_output ssh ch u = Some r" for ch u
  proof -
    obtain out t1 where o: "read_loop ssh ch False [] u = Some (out, t1)"
      using read_loop_terminates [OF assms] by fastforce
    obtain err t2 where "read_loop ssh ch True [] t1 = Some (err, t2)"
      using read_loop_terminates [OF assms] by fastforce
    with o show ?thesis by (simp add: collect_output_def Let_def)
  qed
  then show ?thesis by (auto simp: execute_def split: prod.split sum.split)
qed

text \<open>A command returns when the server stops sending: if no stream delivers more than \<open>n\<close> times, both
read loops end.\<close>

theorem execute_returns:
  assumes "sends_at_most n ssh"
  shows "\<exists>r t'. execute ssh client command t = Some (r, t')"
  by (rule execute_total [OF assms])

text \<open>C39: A failed read is taken for the end of the output: once a read happened, whatever its answers,
the command counts as run, with no error, and the bytes before the failure as its output.\<close>

theorem read_error_taken_for_end:
  assumes "execute ssh client command t = Some (r, t @ es)" and "Chan (Ev_channel_read ch from_stderr None) \<in> set es"
  shows "cmd_ok r \<and> cmd_error r = [] \<and> (\<exists>ch'. cmd_stdout_data r = delivered ch' False es)"
  using assms(1)
proof (cases rule: execute_cases)
  case (failed message es')
  then have "\<not> reads_of ch from_stderr ev" if "ev \<in> set es" for ev
    using that by (simp add: list_all_iff)
  with assms(2) show ?thesis by (auto simp: reads_of_def)
next
  case (finished s ch' es')
  then show ?thesis by auto
qed

section \<open>The interface of a session\<close>

locale remote_session =
  fixes connect :: "'c \<Rightarrow> (bool \<times> 'c) io" and run_command :: "'c \<Rightarrow> string \<Rightarrow> trace \<Rightarrow> ('r \<times> trace) option"
    and hang_up :: "'c \<Rightarrow> 'c io" and idle :: "'c \<Rightarrow> bool"
    and sockets :: "'c \<Rightarrow> socket_t multiset" and resources :: "'c \<Rightarrow> ssh_resource multiset"
  assumes connect_takes: "idle c \<Longrightarrow> run_state (connect c) t = ((ok, c'), t') \<Longrightarrow>
      live_sockets t' = live_sockets t + sockets c' \<and> held t' = held t + resources c' \<and> (\<not> ok \<longrightarrow> idle c')"
    and command_keeps: "run_command c command t = Some (r, t') \<Longrightarrow> live_sockets t' = live_sockets t \<and> held t' = held t"
    and hang_up_releases: "run_state (hang_up c) t = (c', t') \<Longrightarrow>
      live_sockets t' = live_sockets t - sockets c \<and> held t' = held t - resources c \<and> idle c'"
    and idle_owns: "idle c \<Longrightarrow> sockets c = {#} \<and> resources c = {#}"
begin

lemma failed_connect:
  assumes "idle c" and "run_state (connect c) t = ((False, c'), t')"
  shows "live_sockets t' = live_sockets t \<and> held t' = held t \<and> idle c'"
  using connect_takes [OF assms] idle_owns [of c'] by simp

lemma hang_up_idle:
  assumes "idle c" and "run_state (hang_up c) t = (c', t')"
  shows "live_sockets t' = live_sockets t \<and> held t' = held t \<and> idle c'"
  using hang_up_releases [OF assms(2)] idle_owns [OF assms(1)] by simp

lemma hang_up_after_connect:
  assumes "idle c" and "run_state (connect c) t = ((ok, c1), t1)"
    and "live_sockets t2 = live_sockets t1" "held t2 = held t1"
    and "run_state (hang_up c1) t2 = (c2, t3)"
  shows "live_sockets t3 = live_sockets t \<and> held t3 = held t \<and> idle c2"
  using connect_takes [OF assms(1,2)] hang_up_releases [OF assms(5)] assms(3,4) by simp

end

interpretation session: remote_session "connect_and_authenticate os ssh" "execute ssh" disconnect fresh_client
    "\<lambda>c. owned (cl_socket c)" "\<lambda>c. owned_session (cl_session c)" for os ssh
proof (unfold_locales, goal_cases)
  case (1 c t ok c' t')
  then show ?case using connect_resources by fastforce
next
  case (2 c command t r t')
  then show ?case by (rule execute_cases) simp_all
next
  case (3 c t c' t')
  then show ?case
    by (auto simp: disconnect_run trace_simps disconnect_live disconnect_held fresh_client_def)
next
  case (4 c)
  then show ?case by (simp add: fresh_client_def owned_def owned_session_def)
qed

section \<open>Witnesses\<close>

text \<open>
  A server that accepts one password, whose key is known, and that answers every command with one
  line; and one whose connection breaks after that line.
\<close>

definition sample_ssh :: libssh2 where
  "sample_ssh = \<lparr>
     ls_init = \<lambda>_. True,
     ls_session_init = \<lambda>_. Some 1,
     ls_handshake = \<lambda>_ _ _. 0,
     ls_hostkey = \<lambda>_ _. Some (''key'', Hostkey_rsa),
     ls_knownhost_init = \<lambda>_ _. True,
     ls_knownhost_checkp = \<lambda>_ _ _ _ _ _. Check_match,
     ls_userauth_password = \<lambda>_ _ password _. if password = ''secret'' then 0 else - 18,
     ls_last_error = \<lambda>_ _. (- 1, None),
     ls_channel_open = \<lambda>_ _. Some 5,
     ls_channel_exec = \<lambda>_ _ _. 0,
     ls_channel_read = \<lambda>ch from_stderr t.
       if filter (delivers ch from_stderr) t = [] then Some ''eth0'' else Some [],
     ls_channel_exit_status = \<lambda>_ _. 0\<rparr>"

definition flaky_ssh :: libssh2 where
  "flaky_ssh = sample_ssh\<lparr>ls_channel_read := \<lambda>ch from_stderr t.
     if filter (delivers ch from_stderr) t = [] then Some ''eth0'' else None\<rparr>"

definition sample_client :: "string \<Rightarrow> SshClient" where
  "sample_client password = ssh_client (default_config\<lparr>cfg_host := ''10.0.0.7'', cfg_password := password,
     cfg_host_key_policy := Strict, cfg_known_hosts_path := ''known_hosts''\<rparr>)"

lemma sample_client_fresh: "fresh_client (sample_client password)"
  by (simp add: sample_client_def)

lemma sample_sends_at_most: "sends_at_most 1 sample_ssh" "sends_at_most 1 flaky_ssh"
  by (auto simp: sends_at_most_def sample_ssh_def flaky_ssh_def)

theorem connect_owns_what_it_holds_witness:
  "\<exists>ok client' t'. run_state (connect_and_authenticate sample_os sample_ssh (sample_client ''wrong'')) [] = ((ok, client'), t')
     \<and> \<not> ok \<and> live_sockets t' = {#} \<and> held t' = {#}"
proof -
  obtain ok client' t' where run:
    "run_state (connect_and_authenticate sample_os sample_ssh (sample_client ''wrong'')) [] = ((ok, client'), t')"
    by (metis surj_pair)
  have "\<not> fst (fst (run_state (connect_and_authenticate sample_os sample_ssh (sample_client ''wrong'')) []))"
    by code_simp
  with connect_owns_what_it_holds [OF run sample_client_fresh] run show ?thesis
    by (auto simp: fresh_client_def owned_def owned_session_def held_def)
qed

theorem password_follows_verification_witness:
  "\<exists>es s. snd (run_state (connect_and_authenticate sample_os sample_ssh (sample_client ''secret'')) []) = es
     \<and> filter sends_password es \<noteq> [] \<and> preceded (key_matched s ''10.0.0.7'' 22) sends_password es"
proof -
  obtain ok client' t' where run:
    "run_state (connect_and_authenticate sample_os sample_ssh (sample_client ''secret'')) [] = ((ok, client'), t')"
    by (metis surj_pair)
  have "fst (fst (run_state (connect_and_authenticate sample_os sample_ssh (sample_client ''secret'')) []))"
    by code_simp
  moreover have "cfg_host_key_policy (cl_config (sample_client ''secret'')) = Strict"
    "c_str (cfg_host (cl_config (sample_client ''secret''))) = ''10.0.0.7''"
    "cfg_port (cl_config (sample_client ''secret'')) = 22" by code_simp+
  ultimately show ?thesis
    using password_follows_verification [OF run sample_client_fresh] run by auto
qed

theorem password_noninterference_witness:
  "cl_last_error (snd (fst (run_state (connect_and_authenticate sample_os sample_ssh (sample_client ''wrong'')) [])))
   = cl_last_error (snd (fst (run_state (connect_and_authenticate sample_os sample_ssh
       (with_password ''other'' (sample_client ''wrong''))) [])))"
proof -
  obtain ok client1 t1 where run1:
    "run_state (connect_and_authenticate sample_os sample_ssh (sample_client ''wrong'')) [] = ((ok, client1), t1)"
    by (metis surj_pair)
  obtain ok' client2 t2 where run2:
    "run_state (connect_and_authenticate sample_os sample_ssh (with_password ''other'' (sample_client ''wrong''))) []
       = ((ok', client2), t2)"
    by (metis surj_pair)
  have "\<not> fst (fst (run_state (connect_and_authenticate sample_os sample_ssh (sample_client ''wrong'')) []))"
    "\<not> fst (fst (run_state (connect_and_authenticate sample_os sample_ssh
       (with_password ''other'' (sample_client ''wrong''))) []))" by code_simp+
  with run1 run2 have ok: "ok' = ok" by simp
  from password_noninterference [OF run1 run2 [unfolded ok]] run1 run2 show ?thesis by simp
qed

lemma sample_session: "cl_session ((sample_client ''secret'')\<lparr>cl_session := Some 1\<rparr>) = Some 1"
  by simp

lemma execute_starts:
  assumes "cl_session client = Some s" "\<And>t. ls_channel_open ssh s t = Some ch" "\<And>t. ls_channel_exec ssh ch (c_str command) t = 0"
    and "execute ssh client command t = Some (r, t')"
  shows "cmd_ok r"
proof -
  have "execute ssh client command t = collect_output ssh ch (t @ [Ssh (Ev_session_set_timeout s (long_of (cfg_command_timeout (cl_config client)))),
         Chan (Ev_channel_open s (Some ch)), Chan (Ev_channel_exec ch (c_str command) 0)])"
    using assms(1-3) by (simp add: execute_def start_command_def)
  with assms(4) show ?thesis by (metis collect_output_cases)
qed

theorem execute_result_witness:
  "\<exists>r es. execute sample_ssh ((sample_client ''secret'')\<lparr>cl_session := Some 1\<rparr>) ''ifconfig'' [] = Some (r, es)
     \<and> cmd_error r = [] \<and> (\<exists>ch. cmd_stdout_data r = delivered ch False es)"
proof -
  obtain r t' where e: "execute sample_ssh ((sample_client ''secret'')\<lparr>cl_session := Some 1\<rparr>) ''ifconfig'' [] = Some (r, t')"
    using execute_total [OF sample_sends_at_most(1)] by blast
  have "cmd_ok r" by (rule execute_starts [OF sample_session _ _ e]) (simp_all add: sample_ssh_def)
  with execute_result [OF e] e show ?thesis by auto
qed

theorem execute_returns_witness:
  "\<exists>r t'. execute sample_ssh ((sample_client ''secret'')\<lparr>cl_session := Some 1\<rparr>) ''ifconfig'' [] = Some (r, t')"
  by (rule execute_returns [OF sample_sends_at_most(1)])

lemma flaky_loop:
  assumes "filter (delivers ch e) t = []"
  shows "read_loop flaky_ssh ch e [] t = Some (''eth0'',
    t @ [Chan (Ev_channel_read ch e (Some ''eth0'')), Chan (Ev_channel_read ch e None)])"
  using assms by (simp add: read_loop_step [of flaky_ssh] flaky_ssh_def [THEN arg_cong [of _ _ ls_channel_read]]
      delivers_def delivery_def)

lemma read_token_delivers: "\<not> delivers ch False (Chan (Ev_channel_read ch' True answer))"
  by (simp add: delivers_def delivery_def split: option.split)

theorem read_error_taken_for_end_witness:
  "\<exists>r es. execute flaky_ssh ((sample_client ''secret'')\<lparr>cl_session := Some 1\<rparr>) ''ifconfig'' [] = Some (r, es)
     \<and> Chan (Ev_channel_read 5 False None) \<in> set es \<and> cmd_ok r"
proof -
  let ?client = "(sample_client ''secret'')\<lparr>cl_session := Some 1\<rparr>"
  define t0 where "t0 = [Ssh (Ev_session_set_timeout 1 (long_of (cfg_command_timeout (cl_config ?client)))),
         Chan (Ev_channel_open 1 (Some 5)), Chan (Ev_channel_exec 5 (c_str ''ifconfig'') 0)]"
  have start: "execute flaky_ssh ?client ''ifconfig'' [] = collect_output flaky_ssh 5 t0"
    by (simp add: execute_def start_command_def t0_def flaky_ssh_def sample_ssh_def)
  define t1 where "t1 = t0 @ [Chan (Ev_channel_read 5 False (Some ''eth0'')), Chan (Ev_channel_read 5 False None)]"
  have l1: "read_loop flaky_ssh 5 False [] t0 = Some (''eth0'', t1)"
    unfolding t1_def by (rule flaky_loop) (simp add: t0_def delivers_def delivery_def)
  have l2: "read_loop flaky_ssh 5 True [] t1 = Some (''eth0'',
      t1 @ [Chan (Ev_channel_read 5 True (Some ''eth0'')), Chan (Ev_channel_read 5 True None)])"
    by (rule flaky_loop) (simp add: t1_def t0_def delivers_def delivery_def)
  obtain r es where e: "execute flaky_ssh ?client ''ifconfig'' [] = Some (r, es)"
    and none: "Chan (Ev_channel_read 5 False None) \<in> set es"
    using l1 l2 unfolding start by (auto simp: collect_output_def Let_def t1_def)
  have "execute flaky_ssh ?client ''ifconfig'' [] = Some (r, [] @ es)" using e by simp
  from read_error_taken_for_end [OF this none] e none show ?thesis by auto
qed

end
