(* ===== verification/Device_Discovery.thy ===== *)
theory Device_Discovery
  imports Command_Line Subnet_Hosts Ifconfig_Formats Report_Json Arp_Discovery Subnet_Sweep Ssh_Client
begin

text \<open>
  The program of \<open>src/src/main.cpp\<close>: the mock mode, the choice of the interface, the two
  discovery stages, the choice of the device, the SSH dialogue, the report and \<open>main\<close>. Output is
  one event per message: consecutive insertions into the same stream are joined.
\<close>

section \<open>The surroundings of a run\<close>

text \<open>
  The environment and the libraries, and the schedule of the worker threads: for every sweep what the
  workers do between two submissions and between two \<open>get\<close>s, and what they do during
  \<open>shutdown\<close>. \<open>w_thread_failure\<close> is the exception of a worker thread that cannot be started. \<open>w_file\<close> is the bytes of a file that can be opened.
\<close>

record world =
  w_os :: os
  w_ssh :: libssh2
  w_table :: net_table
  w_wide :: wide_conversion
  w_adapters :: "nat \<Rightarrow> u32 \<Rightarrow> adapters_answer"
  w_file :: "string \<Rightarrow> string option"
  w_starts :: "nat \<Rightarrow> string \<Rightarrow> trace option"
  w_thread_failure :: "nat \<Rightarrow> string option"
  w_submit_gaps :: "nat \<Rightarrow> probe schedule"
  w_get_gaps :: "nat \<Rightarrow> probe schedule"
  w_stop_steps :: "probe action list"

type_synonym devices_pool = "(probe, SshProbeResult) pool"

definition put_err :: "string \<Rightarrow> unit io" where
  "put_err message = call (Proc (Ev_stderr message))"

definition put_out :: "string \<Rightarrow> unit io" where
  "put_out message = call (Proc (Ev_stdout message))"

definition put_log :: "Options \<Rightarrow> string \<Rightarrow> unit io" where
  "put_log options message =
     (if opt_verbose options then put_err (put_line (''[device-discovery] '' @ message)) else return ())"

definition emit :: "Options \<Rightarrow> DiscoveryReport \<Rightarrow> unit io" where
  "emit options report = put_out (if opt_json options then format_json report else format_text report)"

definition size_text :: "'a list \<Rightarrow> string" where
  "size_text xs = dec_of_nat (length xs)"

section \<open>Mock mode\<close>

text \<open>The shared end of \<open>run_mock_mode\<close> and \<open>run\<close>: the warning, the report and the exit code.\<close>

definition finish_report :: "Options \<Rightarrow> DiscoveryReport \<Rightarrow> ExitCode io" where
  "finish_report options report = do {
     let interfaces = rep_interfaces report;
     let report = (if length interfaces \<noteq> 2
       then report\<lparr>rep_warnings := rep_warnings report @
              [''expected two network interfaces but found '' @ size_text interfaces]\<rparr>
       else report);
     _ \<leftarrow> emit options report;
     return (if length interfaces = 2 then kSuccess else kUnexpectedInterfaceCount)
   }"

definition empty_report :: DiscoveryReport where
  "empty_report = \<lparr>rep_interface_name = [], rep_ssh_ip = [], rep_ssh_banner = [], rep_host_key_status = [],
     rep_discovery_stage = [], rep_interfaces = [], rep_warnings = []\<rparr>"

definition mock_interfaces :: "inet_api \<Rightarrow> string \<Rightarrow> RemoteInterface list" where
  "mock_interfaces api contents =
     (let interfaces = parse_ifconfig_output api contents
      in if interfaces = [] then parse_ip_addr_output api contents else interfaces)"

definition read_file :: "world \<Rightarrow> string \<Rightarrow> string option" where
  "read_file w path = map_option text_mode (w_file w (c_str path))"

definition run_mock_mode :: "world \<Rightarrow> Options \<Rightarrow> ExitCode io" where
  "run_mock_mode w options =
     (case read_file w (opt_mock_ifconfig_file options) of
        None \<Rightarrow> do {
          _ \<leftarrow> put_err (put_line (''Error: could not read '' @ opt_mock_ifconfig_file options));
          return kUsageError
        }
      | Some contents \<Rightarrow>
          let interfaces = mock_interfaces (os_inet (w_os w)) contents in
          if interfaces = [] then do {
            _ \<leftarrow> put_err (put_line (''Error: could not parse network interfaces from '' @ opt_mock_ifconfig_file options));
            return kParseFailed
          }
          else finish_report options (empty_report\<lparr>rep_discovery_stage := ''mock'', rep_interfaces := interfaces\<rparr>))"

section \<open>The interface\<close>

text \<open>\<open>error.what()\<close> of the exceptions that \<open>query_adapter_addresses\<close> throws.\<close>

definition query_what :: "os \<Rightarrow> query_error \<Rightarrow> string io" where
  "query_what os err =
     (case err of
        Query_failed rc \<Rightarrow> do {
          message \<leftarrow> socket_error_text os rc;
          return (''GetAdaptersAddresses() failed: '' @ message)
        }
      | Query_kept_overflowing \<Rightarrow> return ''GetAdaptersAddresses() kept reporting ERROR_BUFFER_OVERFLOW'')"

definition link_text :: "NetworkInterface \<Rightarrow> string" where
  "link_text iface = ni_ipv4 iface @ CHR ''/'' # dec_of_nat (prefix_length iface)"

text \<open>An exception (\<open>Inl (Inl what)\<close>), an exit code (\<open>Inl (Inr code)\<close>) or the interface.\<close>

definition select_interface :: "world \<Rightarrow> Options \<Rightarrow> ((string + ExitCode) + NetworkInterface) io" where
  "select_interface w options =
     (case discover_candidate_interfaces (os_inet (w_os w)) (w_wide w) (w_adapters w) of
        Inl err \<Rightarrow> do { message \<leftarrow> query_what (w_os w) err; return (Inl (Inl message)) }
      | Inr all \<Rightarrow>
          let candidates = (if opt_interface_hint options \<noteq> []
                then filter (\<lambda>iface. \<not> ni_name iface \<noteq> opt_interface_hint options) all else all) in
          if candidates = [] then do {
            _ \<leftarrow> put_err (put_line ''Error: No suitable network interface found.''
              @ put_line ''       Looked for an adapter that is connected, non-loopback,''
              @ put_line ''       non-virtual and carrying an IPv4 address.'');
            return (Inl (Inr kNoInterface))
          }
          else if length candidates > 1 then do {
            _ \<leftarrow> put_err (put_line ''Error: Multiple candidate interfaces found; refusing to guess.''
              @ concat (map (\<lambda>iface. put_line (''       '' @ ni_name iface @ '' '' @ link_text iface)) candidates)
              @ put_line ''       Disconnect the unrelated links or pass --interface NAME.'');
            return (Inl (Inr kMultipleInterfaces))
          }
          else return (Inr (hd candidates)))"

section \<open>Discovery\<close>

text \<open>
  From here on a step may not return (\<open>None\<close>): a sweep whose futures never become ready under the
  given schedule, a capture loop or a read loop that never ends.
\<close>

definition lift :: "'a io \<Rightarrow> trace \<Rightarrow> ('a \<times> trace) option" where
  "lift m t = Some (run_state m t)"

definition sweep :: "world \<Rightarrow> Options \<Rightarrow> nat \<Rightarrow> string list \<Rightarrow> devices_pool
    \<Rightarrow> (SshProbeResult list \<times> devices_pool) option" where
  "sweep w options k addresses pool =
     sweep_for_ssh (w_os w) (w_starts w) k (w_submit_gaps w k) (w_get_gaps w k) pool addresses kSshPort
       (opt_connect_timeout options) (opt_banner_timeout options)"

definition stage_a_subnet_scan :: "world \<Rightarrow> Options \<Rightarrow> NetworkInterface \<Rightarrow> devices_pool \<Rightarrow> trace
    \<Rightarrow> ((SshProbeResult list \<times> devices_pool) \<times> trace) option" where
  "stage_a_subnet_scan w options iface pool t =
     (let hosts = enumerate_subnet_hosts (os_inet (w_os w)) iface kMinimumScanPrefix in
      if hosts = [] then do {
        (_, t1) \<leftarrow> lift (put_log options (''stage A skipped: subnet of '' @ ni_name iface @ '' is larger than /''
          @ dec_of_int kMinimumScanPrefix)) t;
        Some (([], pool), t1)
      }
      else do {
        (_, t1) \<leftarrow> lift (put_log options (''stage A: probing '' @ size_text hosts @ '' addresses of '' @ link_text iface)) t;
        result \<leftarrow> sweep w options 0 hosts pool;
        Some (result, t1)
      })"

definition observation_text :: "L2Observation \<Rightarrow> string" where
  "observation_text observation = ''layer-2 observation: '' @ obs_ip observation @ '' ('' @ obs_mac observation @ '', ''
     @ observation_source_text (obs_source observation) @ '')''"

fun log_observations :: "Options \<Rightarrow> L2Observation list \<Rightarrow> unit io" where
  "log_observations options [] = return ()"
| "log_observations options (observation # observations) = do {
     _ \<leftarrow> put_log options (observation_text observation);
     log_observations options observations
   }"

definition unreachable_text :: "NetworkInterface \<Rightarrow> L2Observation list \<Rightarrow> string" where
  "unreachable_text iface observations =
     ''the directly connected device was seen on the link but no SSH server could be reached at:''
     @ concat (map (\<lambda>observation. newline # ''         '' @ obs_ip observation @ '' ('' @ obs_mac observation @ '')'') observations)
     @ newline # ''       If the address is outside '' @ link_text iface
     @ '' the PC has no route to it; add a temporary address on the device'' @ CHR 0x27 # ''s''
     @ newline # ''       subnet, e.g. netsh interface ipv4 add address '' @ quoted (ni_name iface)
     @ '' <free-ip> <netmask>''"

text \<open>The third component of the result is the diagnostic, unchanged when a device was found.\<close>

definition stage_b_layer2 :: "world \<Rightarrow> Options \<Rightarrow> NetworkInterface \<Rightarrow> devices_pool \<Rightarrow> string \<Rightarrow> trace
    \<Rightarrow> ((SshProbeResult list \<times> devices_pool \<times> string) \<times> trace) option" where
  "stage_b_layer2 w options iface pool diagnostic t = do {
     (_, t1) \<leftarrow> lift (put_log options (''stage A found nothing, starting layer-2 discovery on '' @ ni_name iface)) t;
     (elevated, t2) \<leftarrow> lift (is_process_elevated (w_os w)) t1;
     (_, t3) \<leftarrow> lift (if \<not> elevated
       then put_log options ''not running elevated: promiscuous capture will most likely be refused by Windows''
       else return ()) t2;
     (l2, t4) \<leftarrow> discover_link_layer_hosts (w_os w) (w_table w) iface (opt_layer2_window options) t3;
     if l2_observations l2 = []
     then Some (([], pool, if l2_error l2 = [] then ''layer-2 discovery observed no station'' else l2_error l2), t4)
     else do {
       (_, t5) \<leftarrow> lift (log_observations options (l2_observations l2)) t4;
       (found, pool') \<leftarrow> sweep w options 1 (map obs_ip (l2_observations l2)) pool;
       Some ((found, pool', if found = [] then unreachable_text iface (l2_observations l2) else diagnostic), t5)
     }
   }"

text \<open>
  \<open>pool.shutdown()\<close>: the workers run on as the schedule says until the last of them is joined.
\<close>

definition shutdown :: "world \<Rightarrow> Options \<Rightarrow> devices_pool \<Rightarrow> devices_pool option" where
  "shutdown w options pool =
     (case run_actions (probe_task (w_os w) kSshPort (opt_connect_timeout options) (opt_banner_timeout options) (w_starts w))
         (Begin_shutdown # w_stop_steps w) pool of
        None \<Rightarrow> None
      | Some pool' \<Rightarrow> if phase pool' = Joined then Some pool' else None)"

text \<open>Both stages: the devices, the name of the stage and the diagnostic.\<close>

definition find_devices :: "world \<Rightarrow> Options \<Rightarrow> NetworkInterface \<Rightarrow> devices_pool \<Rightarrow> trace
    \<Rightarrow> ((SshProbeResult list \<times> string \<times> string) \<times> trace) option" where
  "find_devices w options iface pool t = do {
     ((found_a, pool_a), t1) \<leftarrow> stage_a_subnet_scan w options iface pool t;
     ((devices, pool_b, stage, diagnostic), t2) \<leftarrow>
       (if found_a = [] then do {
          ((found_b, pool_b, diagnostic), t2) \<leftarrow> stage_b_layer2 w options iface pool_a [] t1;
          Some ((found_b, pool_b, ''layer2'', diagnostic), t2)
        }
        else Some ((found_a, pool_a, ''subnet-scan'', []), t1));
     _ \<leftarrow> shutdown w options pool_b;
     Some ((devices, stage, diagnostic), t2)
   }"

section \<open>The device\<close>

definition choose_device :: "Options \<Rightarrow> NetworkInterface \<Rightarrow> SshProbeResult list \<Rightarrow> string
    \<Rightarrow> (ExitCode + SshProbeResult) io" where
  "choose_device options iface devices diagnostic =
     (if devices = [] then do {
        _ \<leftarrow> put_err (put_line (''Error: No device discovered on '' @ ni_name iface @ ''.''));
        _ \<leftarrow> (if diagnostic \<noteq> [] then put_err (put_line (''       '' @ diagnostic)) else return ());
        return (Inl kNoDevice)
      }
      else if length devices > 1 then
        (if opt_select_candidate options \<noteq> [] then
           (case List.find (\<lambda>r. pr_ip r = opt_select_candidate options) devices of
              None \<Rightarrow> do {
                _ \<leftarrow> put_err (put_line (''Error: --select '' @ opt_select_candidate options
                  @ '' does not match any discovered device.''));
                return (Inl kUsageError)
              }
            | Some device \<Rightarrow> return (Inr device))
         else do {
           _ \<leftarrow> put_err (put_line ''WARNING: multiple SSH devices discovered''
             @ concat (map (\<lambda>device. put_line (''  '' @ pr_ip device @ ''  '' @ pr_banner device)) devices)
             @ put_line ''Refusing to authenticate automatically; re-run with --select IP.'');
           return (Inl kMultipleDevices)
         })
      else return (Inr (hd devices)))"

section \<open>The SSH dialogue\<close>

definition ssh_config_for :: "Options \<Rightarrow> string \<Rightarrow> SshProbeResult \<Rightarrow> SshConfig" where
  "ssh_config_for options password device = default_config\<lparr>
     cfg_host := pr_ip device,
     cfg_port := kSshPort,
     cfg_username := opt_ssh_user options,
     cfg_password := password,
     cfg_host_key_policy := (if opt_strict_host_key options then Strict else Warn),
     cfg_connect_timeout := opt_auth_timeout options,
     cfg_auth_timeout := opt_auth_timeout options,
     cfg_command_timeout := opt_command_timeout options,
     cfg_verbose := opt_verbose options\<rparr>"

definition usable :: "CommandResult \<Rightarrow> bool" where
  "usable command \<longleftrightarrow> cmd_ok command \<and> cmd_exit_code command = 0 \<and> cmd_stdout_data command \<noteq> []"

definition ip_addr_quoted :: string where
  "ip_addr_quoted = CHR 0x27 # ''ip -4 addr'' @ [CHR 0x27]"

definition command_failure_text :: "CommandResult \<Rightarrow> string" where
  "command_failure_text command = ''Error: ifconfig execution failed on the target''
     @ (if cmd_error command \<noteq> [] then '' ('' @ cmd_error command @ '')''
        else if cmd_stderr_data command \<noteq> [] then '' ('' @ cmd_stderr_data command @ '')'' else [])
     @ put_line ('' and the '' @ ip_addr_quoted @ '' fallback failed as well.'')"

text \<open>The command whose output is used, and the output; \<open>None\<close> when both commands failed.\<close>

definition fetch_listing :: "world \<Rightarrow> Options \<Rightarrow> SshClient \<Rightarrow> trace
    \<Rightarrow> ((string \<times> string) option \<times> trace) option" where
  "fetch_listing w options client t = do {
     (command, t1) \<leftarrow> execute (w_ssh w) client ''ifconfig'' t;
     if usable command then Some (Some (''ifconfig'', cmd_stdout_data command), t1)
     else do {
       (_, t2) \<leftarrow> lift (put_log options (''ifconfig unavailable or failed, falling back to '' @ ip_addr_quoted)) t1;
       (fallback, t3) \<leftarrow> execute (w_ssh w) client ''ip -4 addr'' t2;
       if usable fallback then Some (Some (''ip -4 addr'', cmd_stdout_data fallback), t3)
       else do {
         (_, t4) \<leftarrow> lift (put_err (command_failure_text command)) t3;
         Some (None, t4)
       }
     }
   }"

definition parse_listing :: "inet_api \<Rightarrow> string \<Rightarrow> string \<Rightarrow> RemoteInterface list" where
  "parse_listing api source_command output =
     (if source_command = ''ifconfig'' then parse_ifconfig_output api output else parse_ip_addr_output api output)"

text \<open>
  From the connection to the exit code. Every path ends with \<open>disconnect\<close>: explicitly after the
  commands, and once more by the destructor of the client.
\<close>

definition device_report :: "NetworkInterface \<Rightarrow> string \<Rightarrow> SshProbeResult \<Rightarrow> SshClient
    \<Rightarrow> RemoteInterface list \<Rightarrow> DiscoveryReport" where
  "device_report iface stage device client interfaces = \<lparr>
     rep_interface_name = ni_name iface, rep_ssh_ip = pr_ip device, rep_ssh_banner = pr_banner device,
     rep_host_key_status = cl_host_key_status client, rep_discovery_stage = stage,
     rep_interfaces = interfaces, rep_warnings = []\<rparr>"

definition query_device :: "world \<Rightarrow> Options \<Rightarrow> NetworkInterface \<Rightarrow> string \<Rightarrow> SshProbeResult \<Rightarrow> SshClient \<Rightarrow> trace
    \<Rightarrow> ((ExitCode \<times> SshClient) \<times> trace) option" where
  "query_device w options iface stage device client t = do {
     (_, t1) \<leftarrow> lift (if cl_host_key_status client \<noteq> ''match'' \<and> \<not> opt_strict_host_key options
       then put_err (put_line (''WARNING: SSH host key not verified (status: '' @ cl_host_key_status client
         @ ''); the link is trusted because it is a direct connection.''))
       else return ()) t;
     (listing, t2) \<leftarrow> fetch_listing w options client t1;
     (client', t3) \<leftarrow> lift (disconnect client) t2;
     case listing of
       None \<Rightarrow> Some ((kRemoteCommandFailed, client'), t3)
     | Some (source_command, output) \<Rightarrow>
         let interfaces = parse_listing (os_inet (w_os w)) source_command output in
         if interfaces = [] then do {
           (_, t4) \<leftarrow> lift (put_err (put_line (''Error: Could not parse network interfaces from '' @ CHR 0x27 # source_command
             @ CHR 0x27 # '' output.''))) t3;
           Some ((kParseFailed, client'), t4)
         }
         else do {
           (exit_code, t4) \<leftarrow> lift (finish_report options (device_report iface stage device client interfaces)) t3;
           Some ((exit_code, client'), t4)
         }
   }"

definition talk_to_device :: "world \<Rightarrow> Options \<Rightarrow> NetworkInterface \<Rightarrow> string \<Rightarrow> string \<Rightarrow> SshProbeResult \<Rightarrow> trace
    \<Rightarrow> (ExitCode \<times> trace) option" where
  "talk_to_device w options iface stage password device t = do {
     (_, t1) \<leftarrow> lift (put_log options (''SSH server confirmed at '' @ pr_ip device @ '' ('' @ pr_banner device @ '')'')) t;
     let client = ssh_client (ssh_config_for options password device);
     ((ok, client1), t2) \<leftarrow> lift (connect_and_authenticate (w_os w) (w_ssh w) client) t1;
     ((exit_code, client2), t3) \<leftarrow>
       (if \<not> ok then do {
          (_, t3) \<leftarrow> lift (put_err (put_line (''Error: '' @ cl_last_error client1))) t2;
          Some ((if contains ''authentication'' (cl_last_error client1) then kSshAuthFailed else kSshConnectionFailed,
                 client1), t3)
        }
        else query_device w options iface stage device client1 t2);
     (_, t4) \<leftarrow> lift (disconnect client2) t3;
     Some (exit_code, t4)
   }"

section \<open>The program\<close>

definition resolve_password :: "world \<Rightarrow> Options \<Rightarrow> (ExitCode + string) io" where
  "resolve_password w options =
     (if opt_password_from_cli options then
        (if opt_ssh_password options = [] then do {
           _ \<leftarrow> put_err (put_line ''Error: --ssh-password requires a non-empty value.'');
           return (Inl kUsageError)
         }
         else return (Inr (opt_ssh_password options)))
      else do {
        password_env \<leftarrow> getenv (w_os w) (c_str (opt_password_env options));
        if password_env = None \<or> password_env = Some [] then do {
          _ \<leftarrow> put_err (put_line ''Error: SSH password not configured.''
            @ put_line (''       Pass --ssh-password, or set the environment variable '' @ opt_password_env options
              @ '' (see --ssh-password-env).''));
          return (Inl kUsageError)
        }
        else return (Inr (the password_env))
      })"

definition run_with_pool :: "world \<Rightarrow> Options \<Rightarrow> string \<Rightarrow> NetworkInterface \<Rightarrow> devices_pool \<Rightarrow> trace \<Rightarrow> (ExitCode \<times> trace) option" where
  "run_with_pool w options password iface pool t = do {
     ((devices, stage, diagnostic), t1) \<leftarrow> find_devices w options iface pool t;
     (chosen, t2) \<leftarrow> lift (choose_device options iface devices diagnostic) t1;
     case chosen of
       Inl exit_code \<Rightarrow> Some (exit_code, t2)
     | Inr device \<Rightarrow> talk_to_device w options iface stage password device t2
   }"

text \<open>
  \<open>Inl\<close> is an exception that leaves \<open>run\<close>, with its text. When a later thread cannot be started,
  the process is terminated and nothing returns.
\<close>

definition run_discovery :: "world \<Rightarrow> Options \<Rightarrow> string \<Rightarrow> NetworkInterface \<Rightarrow> trace
    \<Rightarrow> ((string + ExitCode) \<times> trace) option" where
  "run_discovery w options password iface t = do {
     (_, t1) \<leftarrow> lift (put_log options (''using interface '' @ ni_name iface @ '' ('' @ link_text iface @ '')'')) t;
     case construct_pool (w_thread_failure w) (unat (opt_threads options)) of
       Terminates \<Rightarrow> None
     | Throws what \<Rightarrow> Some (Inl what, t1)
     | Constructed pool \<Rightarrow> do {
         (exit_code, t2) \<leftarrow> run_with_pool w options password iface pool t1;
         Some (Inr exit_code, t2)
       }
   }"

definition run :: "world \<Rightarrow> Options \<Rightarrow> trace \<Rightarrow> ((string + ExitCode) \<times> trace) option" where
  "run w options t =
     (if opt_mock_ifconfig_file options \<noteq> [] then lift (run_mock_mode w options \<bind> (\<lambda>exit_code. return (Inr exit_code))) t
      else do {
        (password, t1) \<leftarrow> lift (resolve_password w options) t;
        case password of
          Inl exit_code \<Rightarrow> Some (Inr exit_code, t1)
        | Inr password \<Rightarrow> do {
            (selected, t2) \<leftarrow> lift (select_interface w options) t1;
            case selected of
              Inl (Inl what) \<Rightarrow> Some (Inl what, t2)
            | Inl (Inr exit_code) \<Rightarrow> Some (Inr exit_code, t2)
            | Inr iface \<Rightarrow> run_discovery w options password iface t2
          }
      })"

fun put_all :: "proc_event list \<Rightarrow> unit io" where
  "put_all [] = return ()"
| "put_all (e # es) = do { _ \<leftarrow> call (Proc e); put_all es }"

definition main :: "world \<Rightarrow> string list \<Rightarrow> trace \<Rightarrow> (ExitCode \<times> trace) option" where
  "main w args t = do {
     (initialised, t1) \<leftarrow> lift (ensure_winsock_initialised (w_os w)) t;
     if \<not> initialised then do {
       (_, t2) \<leftarrow> lift (put_err (put_line ''Error: Winsock could not be initialised.'')) t1;
       Some (kUsageError, t2)
     }
     else case parse_options args default_options of
       Inl (output, exit_code) \<Rightarrow> do { (_, t2) \<leftarrow> lift (put_all output) t1; Some (exit_code, t2) }
     | Inr options \<Rightarrow> do {
         (result, t2) \<leftarrow> run w options t1;
         case result of
           Inl what \<Rightarrow> do {
             (_, t3) \<leftarrow> lift (put_err (put_line (''Error: '' @ what))) t2;
             Some (kNoDevice, t3)
           }
         | Inr exit_code \<Rightarrow> Some (exit_code, t2)
       }
   }"

text \<open>The process: \<open>main\<close>, and the destructor of the Winsock runtime at exit.\<close>

definition run_process :: "world \<Rightarrow> string list \<Rightarrow> trace \<Rightarrow> (ExitCode \<times> trace) option" where
  "run_process w args t = do {
     (exit_code, t1) \<leftarrow> main w args t;
     (_, t2) \<leftarrow> lift release_winsock t1;
     Some (exit_code, t2)
   }"

end
