(* ===== verification/Run_Events.thy ===== *)
theory Run_Events
  imports Device_Discovery
begin

text \<open>
  What the steps of \<open>src/src/main.cpp\<close> add to the trace. An action \<open>emits\<close> events of a class;
  \<open>adds\<close> is the same for a step that may not return; a \<open>quiet\<close> step sends no password, writes
  nothing to standard output and leaves the open sockets and SSH resources as they were.
\<close>

section \<open>Classes of events\<close>

definition writes_out :: "event \<Rightarrow> bool" where
  "writes_out e = (case e of Proc (Ev_stdout s) \<Rightarrow> True | _ \<Rightarrow> False)"

definition is_proc :: "event \<Rightarrow> bool" where
  "is_proc e = (case e of Proc p \<Rightarrow> \<not> writes_out e | _ \<Rightarrow> False)"

definition plain :: "event \<Rightarrow> bool" where
  "plain e = (case e of Proc p \<Rightarrow> \<not> writes_out e | Sock s \<Rightarrow> True | _ \<Rightarrow> False)"

lemma is_proc_list: "list_all is_proc es \<Longrightarrow> discreet es \<and> no_resources es \<and> list_all plain es"
  by (induction es) (auto simp: is_proc_def plain_def discreet_def sends_password_def no_resources_def
      split: event.splits)

lemma plain_list: "list_all plain es \<Longrightarrow> discreet es \<and> foldl held_step M es = M"
  by (induction es arbitrary: M) (auto simp: plain_def discreet_def sends_password_def split: event.splits)

lemma put_runs [simp]:
  "run_state (put_err message) t = ((), t @ [Proc (Ev_stderr message)])"
  "run_state (put_out message) t = ((), t @ [Proc (Ev_stdout message)])"
  by (simp_all add: put_err_def put_out_def)

lemma emits_call: "P e \<Longrightarrow> steady e \<Longrightarrow> emits P (call e)"
  by (simp add: call_def emits_syscall)

lemma emits_put [intro]: "emits is_proc (put_err message)" "emits is_proc (put_log options message)"
  by (auto simp: put_err_def put_log_def is_proc_def writes_out_def intro!: emits_call emits_return)

lemma emits_log_observations [intro]: "emits is_proc (log_observations options observations)"
  by (induction observations) (auto intro!: emits_return emits_bind)

lemma emits_choose_device: "emits is_proc (choose_device options iface devices diagnostic)"
  by (auto simp: choose_device_def intro!: emits_return emits_bind split: option.split)

lemma emits_password: "emits is_proc (resolve_password w options)"
  by (auto simp: resolve_password_def getenv_def is_proc_def writes_out_def intro!: emits_return emits_bind emits_syscall)

lemma emits_interface: "emits is_proc (select_interface w options)"
  by (auto simp: select_interface_def query_what_def socket_error_text_def Let_def is_proc_def writes_out_def
      intro!: emits_return emits_bind emits_syscall split: sum.split query_error.split option.split)

lemma emits_elevated: "emits is_proc (is_process_elevated os)"
  by (auto simp: is_process_elevated_def is_proc_def writes_out_def intro!: emits_return emits_bind emits_syscall)

lemma adds_proc_plain: "adds is_proc t t' \<Longrightarrow> adds plain t t'"
  by (erule adds_mono) (auto simp: is_proc_def plain_def split: event.splits)

lemma adds_proc_live: "adds is_proc t t' \<Longrightarrow> live_sockets t' = live_sockets t \<and> held t' = held t"
  by (auto simp: adds_def trace_simps no_resources_def dest!: is_proc_list)

lemma emits_capture_round: "emits plain (capture_round os own h deadline obs)"
  by (auto simp: capture_round_def wait_for_socket_def last_socket_error_def plain_def writes_out_def Let_def
      intro!: emits_return emits_bind emits_syscall split: recv_result.split)

lemma capture_loop_plain:
  assumes "capture_loop os own h deadline obs t = Some r"
  shows "adds plain t (snd r)"
proof (rule capture_loop.raw_induct [where P = "\<lambda>os own h deadline obs t r. adds plain t (snd r)", OF _ assms], goal_cases)
  case (1 loop os own h deadline obs t r)
  obtain obs1 go t1 where run: "run_state (capture_round os own h deadline obs) t = ((obs1, go), t1)"
    by (metis surj_pair)
  have a: "adds plain t t1" by (rule emits_run [OF emits_capture_round run])
  show ?case
  proof (cases go)
    case True
    with 1(2) have "loop os own h deadline obs1 t1 = Some r" by (simp add: run)
    from 1(1) [OF this] a show ?thesis by (rule adds_trans [rotated])
  next
    case False
    with 1(2) a show ?thesis by (auto simp: run)
  qed
qed

lemma emits_open_capture: "emits plain (open_capture os iface result)"
  by (auto simp: open_capture_def last_socket_error_def socket_error_text_def
      is_process_elevated_def close_socket_def plain_def writes_out_def Let_def
      intro!: emits_intros emits_ensure split: option.split)

lemma emits_neighbour_cache: "emits plain (read_neighbour_cache os table if_index)"
  by (auto simp: read_neighbour_cache_def plain_def writes_out_def intro!: emits_return emits_bind emits_syscall split: option.split)

lemma capture_plain:
  assumes "capture_link_traffic os iface listen_window result t = Some (r, t')"
  shows "adds plain t t'"
proof -
  obtain x t1 where o: "run_state (open_capture os iface result) t = (x, t1)" by force
  note a = emits_run [OF emits_open_capture o]
  show ?thesis
  proof (cases x)
    case (Inl f)
    with assms o a show ?thesis by (simp add: capture_link_traffic_def)
  next
    case (Inr h)
    let ?now = "os_now os t1"
    obtain obs t2 where l: "capture_loop os (ni_ipv4 iface) h (?now + listen_window * kNanosPerMilli)
        (l2_observations result) (t1 @ [Proc (Ev_now ?now)]) = Some (obs, t2)"
      using assms o Inr by (auto simp: capture_link_traffic_def split: option.splits)
    obtain x3 t3 where c: "run_state (close_socket h) t2 = (x3, t3)" by force
    have "emits plain (close_socket h)"
      by (auto simp: close_socket_def plain_def writes_out_def intro!: emits_return emits_bind emits_syscall)
    then have "adds plain t2 t3" using c by (rule emits_run)
    moreover have "adds plain t1 (t1 @ [Proc (Ev_now ?now)])" by (simp add: adds_def plain_def writes_out_def)
    moreover have "t' = t3" using assms o Inr l c by (auto simp: capture_link_traffic_def)
    ultimately show ?thesis using a capture_loop_plain [OF l] by (auto intro: adds_trans)
  qed
qed

lemma discovery_plain:
  assumes "discover_link_layer_hosts os table iface listen_window t = Some (result, t')"
  shows "adds plain t t'"
proof -
  obtain cached t1 where c: "run_state (read_neighbour_cache os table (ni_if_index iface)) t = (cached, t1)" by force
  define r0 where "r0 = \<lparr>l2_observations = add_cached (os_inet os) iface [] cached, l2_permission_denied = False, l2_error = []\<rparr>"
  from assms c obtain r1 t2 where l: "capture_link_traffic os iface listen_window r0 t1 = Some (r1, t2)"
    by (auto simp: discover_link_layer_hosts_def r0_def split_beta split: option.splits)
  obtain cached' t3 where c': "run_state (read_neighbour_cache os table (ni_if_index iface)) t2 = (cached', t3)" by force
  have "t' = t3"
    using assms c c' l by (auto simp: discover_link_layer_hosts_def r0_def split_beta)
  with emits_run [OF emits_neighbour_cache c] emits_run [OF emits_neighbour_cache c'] capture_plain [OF l]
  show ?thesis by (auto intro: adds_trans)
qed

text \<open>The commands send no password.\<close>

abbreviation silent :: "event \<Rightarrow> bool" where
  "silent e \<equiv> \<not> sends_password e \<and> \<not> writes_out e"

lemma adds_plain_silent: "adds plain t t' \<Longrightarrow> adds silent t t'"
  by (erule adds_mono) (auto simp: plain_def sends_password_def writes_out_def split: event.splits)

lemma disconnect_silent: "run_state (disconnect client) t = (client', t') \<Longrightarrow> adds silent t t'"
  by (auto simp: disconnect_run disconnect_events_def adds_def sends_password_def writes_out_def split: option.split)

lemma reads_silent: "reads_of ch e ev \<Longrightarrow> silent ev \<and> steady ev"
  by (auto simp: reads_of_def sends_password_def writes_out_def)

lemma read_loop_silent:
  assumes "read_loop ssh ch e [] t = Some (data, t')"
  shows "adds silent t t'"
proof -
  obtain es where "t' = t @ es" "list_all (reads_of ch e) es"
    using read_loop_effect [OF assms] by (auto simp: loop_effect_def)
  with reads_silent show ?thesis by (auto simp: adds_def list_all_iff)
qed

lemma execute_silent:
  assumes "execute ssh client command t = Some (r, t')"
  shows "adds silent t t'"
proof -
  obtain x t1 where run: "run_state (start_command ssh client command) t = (x, t1)" by force
  have "emits silent (start_command ssh client command)"
    by (auto simp: start_command_def libssh2_error_text_def sends_password_def writes_out_def Let_def
        intro!: emits_intros emits_call split: option.split)
  note a = emits_run [OF this run]
  show ?thesis
  proof (cases x)
    case (Inl f)
    with assms run a show ?thesis by (simp add: execute_def)
  next
    case (Inr ch)
    with assms run have c: "collect_output ssh ch t1 = Some (r, t')" by (simp add: execute_def)
    then obtain out t2 err t3 where l: "read_loop ssh ch False [] t1 = Some (out, t2)" "read_loop ssh ch True [] t2 = Some (err, t3)"
      and t': "t' = t3 @ [Chan (Ev_channel_close ch),
        Chan (Ev_channel_exit_status ch (ls_channel_exit_status ssh ch (t3 @ [Chan (Ev_channel_close ch)]))),
        Chan (Ev_channel_free ch)]"
      by (auto simp: collect_output_def Let_def Option.bind_eq_Some_conv)
    from read_loop_silent [OF l(1)] read_loop_silent [OF l(2)] have "adds silent t1 t3" by (rule adds_trans)
    moreover have "adds silent t3 t'" by (simp add: t' adds_def sends_password_def writes_out_def)
    ultimately show ?thesis using a by (auto intro: adds_trans)
  qed
qed

section \<open>Quiet steps\<close>

lemma lift_run [simp]: "lift m t = Some (run_state m t)"
  by (simp add: lift_def)

text \<open>Neither a password nor a change of the resources.\<close>

definition quiet :: "trace \<Rightarrow> trace \<Rightarrow> bool" where
  "quiet t t' \<longleftrightarrow> adds silent t t' \<and> live_sockets t' = live_sockets t \<and> held t' = held t"

lemma quiet_trans: "quiet t t1 \<Longrightarrow> quiet t1 t2 \<Longrightarrow> quiet t t2"
  by (auto simp: quiet_def intro: adds_trans)

lemma quiet_proc: "adds is_proc t t' \<Longrightarrow> quiet t t'"
  by (simp add: quiet_def adds_plain_silent adds_proc_plain adds_proc_live)

lemma quiet_execute:
  assumes "execute ssh client command t = Some (r, t')"
  shows "quiet t t'"
  using session.command_keeps [OF assms] execute_silent [OF assms] by (simp add: quiet_def)

lemma adds_plain_held: "adds plain t t' \<Longrightarrow> held t' = held t"
  by (auto simp: adds_def held_append dest: plain_list)

text \<open>The steps before the SSH dialogue make no SSH call.\<close>

definition offline :: "trace \<Rightarrow> trace \<Rightarrow> bool" where
  "offline t t' \<longleftrightarrow> adds plain t t' \<and> live_sockets t' = live_sockets t"

lemma offline_quiet: "offline t t' \<Longrightarrow> quiet t t'"
  by (simp add: offline_def quiet_def adds_plain_silent adds_plain_held)

lemma offline_trans: "offline t t1 \<Longrightarrow> offline t1 t2 \<Longrightarrow> offline t t2"
  by (auto simp: offline_def intro: adds_trans)

lemma offline_proc: "adds is_proc t t' \<Longrightarrow> offline t t'"
  by (simp add: offline_def adds_proc_plain adds_proc_live)

lemma offline_run: "emits is_proc m \<Longrightarrow> run_state m t = (x, t') \<Longrightarrow> offline t t'"
  by (rule offline_proc) (rule emits_run)

lemma offline_snd: "emits is_proc m \<Longrightarrow> offline t (snd (run_state m t))"
  by (rule offline_run [OF _ surjective_pairing])

lemma offline_discovery:
  assumes "discover_link_layer_hosts os table iface listen_window t = Some (result, t')"
  shows "offline t t'"
  using discovery_plain [OF assms] discovery_sound [OF assms] by (simp add: offline_def)

lemma quiet_run: "emits is_proc m \<Longrightarrow> run_state m t = (x, t') \<Longrightarrow> quiet t t'"
  by (rule quiet_proc) (rule emits_run)

lemma quiet_snd: "emits is_proc m \<Longrightarrow> quiet t (snd (run_state m t))"
  by (rule quiet_run [OF _ surjective_pairing])

lemma fetch_listing_quiet:
  assumes "fetch_listing w options client t = Some (listing, t')"
  shows "quiet t t'"
proof -
  obtain command t1 where e1: "execute (w_ssh w) client ''ifconfig'' t = Some (command, t1)"
    using assms by (auto simp: fetch_listing_def Option.bind_eq_Some_conv)
  show ?thesis
  proof (cases "usable command")
    case True
    with assms e1 show ?thesis by (auto simp: fetch_listing_def intro: quiet_execute)
  next
    case False
    define t2 where "t2 = snd (run_state (put_log options (''ifconfig unavailable or failed, falling back to '' @ ip_addr_quoted)) t1)"
    from assms False e1 obtain fallback t3 where e2: "execute (w_ssh w) client ''ip -4 addr'' t2 = Some (fallback, t3)"
      and t': "t' = t3 \<or> (\<exists>m. t' = snd (run_state (put_err m) t3))"
      unfolding t2_def by (auto simp: fetch_listing_def Option.bind_eq_Some_conv split_beta split: if_splits)
    have "quiet t3 t'" using t' quiet_snd [OF emits_put(1)] by (auto intro: quiet_proc adds_refl)
    moreover have "quiet t1 t2" unfolding t2_def by (rule quiet_snd [OF emits_put(2)])
    ultimately show ?thesis using quiet_execute [OF e1] quiet_execute [OF e2] by (blast intro: quiet_trans)
  qed
qed

end
