(* ===== verification/Sequential_Discovery.thy ===== *)
theory Sequential_Discovery
  imports Run_Events
begin

text \<open>
  Discovery as a specification without threads: both stages probe their addresses one after the other
  (\<open>find_sequential\<close>). The model with the pool refines it, so that a run does not depend on the
  schedule, and under some schedule every step returns.
\<close>

section \<open>Discovery without a pool\<close>

text \<open>
  The specification of both stages: the addresses are probed one after the other. \<open>devices_at\<close>
  is what a sweep has to find.
\<close>

definition devices_at :: "world \<Rightarrow> Options \<Rightarrow> nat \<Rightarrow> string list \<Rightarrow> SshProbeResult list" where
  "devices_at w options k addresses = concat (map (\<lambda>address. case w_starts w k address of None \<Rightarrow> []
      | Some t \<Rightarrow> filter is_ssh [fst (run_state (probe_ssh (w_os w) address kSshPort
          (opt_connect_timeout options) (opt_banner_timeout options)) t)]) addresses)"

definition stage_a_sequential :: "world \<Rightarrow> Options \<Rightarrow> NetworkInterface \<Rightarrow> trace \<Rightarrow> SshProbeResult list \<times> trace" where
  "stage_a_sequential w options iface t =
     (let hosts = enumerate_subnet_hosts (os_inet (w_os w)) iface kMinimumScanPrefix in
      (devices_at w options 0 hosts,
       snd (run_state (put_log options
         (if hosts = [] then ''stage A skipped: subnet of '' @ ni_name iface @ '' is larger than /'' @ dec_of_int kMinimumScanPrefix
          else ''stage A: probing '' @ size_text hosts @ '' addresses of '' @ link_text iface)) t)))"

definition stage_b_start :: "world \<Rightarrow> Options \<Rightarrow> NetworkInterface \<Rightarrow> unit io" where
  "stage_b_start w options iface = do {
     _ \<leftarrow> put_log options (''stage A found nothing, starting layer-2 discovery on '' @ ni_name iface);
     elevated \<leftarrow> is_process_elevated (w_os w);
     if \<not> elevated
       then put_log options ''not running elevated: promiscuous capture will most likely be refused by Windows''
       else return ()
   }"

definition stage_b_sequential :: "world \<Rightarrow> Options \<Rightarrow> NetworkInterface \<Rightarrow> trace
    \<Rightarrow> ((SshProbeResult list \<times> string) \<times> trace) option" where
  "stage_b_sequential w options iface t = do {
     (l2, t1) \<leftarrow> discover_link_layer_hosts (w_os w) (w_table w) iface (opt_layer2_window options)
       (snd (run_state (stage_b_start w options iface) t));
     let found = devices_at w options 1 (map obs_ip (l2_observations l2));
     Some ((found,
       if l2_observations l2 = [] then (if l2_error l2 = [] then ''layer-2 discovery observed no station'' else l2_error l2)
       else if found = [] then unreachable_text iface (l2_observations l2) else []),
       snd (run_state (log_observations options (l2_observations l2)) t1))
   }"

definition find_sequential :: "world \<Rightarrow> Options \<Rightarrow> NetworkInterface \<Rightarrow> trace
    \<Rightarrow> ((SshProbeResult list \<times> string \<times> string) \<times> trace) option" where
  "find_sequential w options iface t =
     (let (found_a, t1) = stage_a_sequential w options iface t in
      if found_a = [] then do {
        ((found_b, diagnostic), t2) \<leftarrow> stage_b_sequential w options iface t1;
        Some ((found_b, ''layer2'', diagnostic), t2)
      }
      else Some ((found_a, ''subnet-scan'', []), t1))"

abbreviation device_task :: "world \<Rightarrow> Options \<Rightarrow> probe \<Rightarrow> SshProbeResult outcome" where
  "device_task w options \<equiv> probe_task (w_os w) kSshPort (opt_connect_timeout options) (opt_banner_timeout options) (w_starts w)"

lemma devices_at_Nil [simp]: "devices_at w options k [] = []"
  by (simp add: devices_at_def)

lemma sweep_devices:
  assumes "reachable (device_task w options) n pool" and "sweep w options k addresses pool = Some (found, pool')"
  shows "found = devices_at w options k addresses \<and> reachable (device_task w options) n pool'"
  using sweep_found [OF assms(1) assms(2) [unfolded sweep_def]] by (simp add: devices_at_def)

lemma stage_a_refines:
  assumes "stage_a_subnet_scan w options iface pool t = Some ((found, pool'), t')"
    and "reachable (device_task w options) n pool"
  shows "stage_a_sequential w options iface t = (found, t') \<and> reachable (device_task w options) n pool'"
proof (cases "enumerate_subnet_hosts (os_inet (w_os w)) iface kMinimumScanPrefix = []")
  case True
  with assms show ?thesis
    by (auto simp: stage_a_subnet_scan_def stage_a_sequential_def Let_def Option.bind_eq_Some_conv split_beta)
next
  case False
  with assms(1) obtain "sweep w options 0 (enumerate_subnet_hosts (os_inet (w_os w)) iface kMinimumScanPrefix) pool = Some (found, pool')"
    "t' = snd (run_state (put_log options (''stage A: probing ''
      @ size_text (enumerate_subnet_hosts (os_inet (w_os w)) iface kMinimumScanPrefix) @ '' addresses of '' @ link_text iface)) t)"
    by (auto simp: stage_a_subnet_scan_def Let_def Option.bind_eq_Some_conv split_beta)
  with False sweep_devices [OF assms(2)] show ?thesis by (simp add: stage_a_sequential_def Let_def)
qed

lemma stage_b_run:
  "stage_b_layer2 w options iface pool diagnostic t = do {
     (l2, t4) \<leftarrow> discover_link_layer_hosts (w_os w) (w_table w) iface (opt_layer2_window options)
       (snd (run_state (stage_b_start w options iface) t));
     if l2_observations l2 = []
     then Some (([], pool, if l2_error l2 = [] then ''layer-2 discovery observed no station'' else l2_error l2), t4)
     else do {
       (found, pool') \<leftarrow> sweep w options 1 (map obs_ip (l2_observations l2)) pool;
       Some ((found, pool', if found = [] then unreachable_text iface (l2_observations l2) else diagnostic),
         snd (run_state (log_observations options (l2_observations l2)) t4))
     }
   }"
  by (simp add: stage_b_layer2_def stage_b_start_def split_beta cong: if_cong)

lemma stage_b_refines:
  assumes "stage_b_layer2 w options iface pool [] t = Some ((found, pool', diagnostic), t')"
    and "reachable (device_task w options) n pool"
  shows "stage_b_sequential w options iface t = Some ((found, diagnostic), t') \<and> reachable (device_task w options) n pool'"
proof -
  obtain l2 t4 where l2: "discover_link_layer_hosts (w_os w) (w_table w) iface (opt_layer2_window options)
       (snd (run_state (stage_b_start w options iface) t)) = Some (l2, t4)"
    using assms(1) by (auto simp: stage_b_run Option.bind_eq_Some_conv)
  show ?thesis
  proof (cases "l2_observations l2 = []")
    case True
    with assms show ?thesis by (auto simp: stage_b_run stage_b_sequential_def l2)
  next
    case False
    with assms(1) obtain "sweep w options 1 (map obs_ip (l2_observations l2)) pool = Some (found, pool')"
      "diagnostic = (if found = [] then unreachable_text iface (l2_observations l2) else [])"
      "t' = snd (run_state (log_observations options (l2_observations l2)) t4)"
      by (auto simp: stage_b_run l2 Option.bind_eq_Some_conv)
    with False sweep_devices [OF assms(2)] show ?thesis by (simp add: stage_b_sequential_def l2)
  qed
qed

abbreviation full_pool :: "Options \<Rightarrow> devices_pool" where
  "full_pool options \<equiv> thread_pool (unat (opt_threads options))"

lemma find_devices_refines:
  assumes "find_devices w options iface (full_pool options) t = Some r"
  shows "find_sequential w options iface t = Some r"
proof -
  have start: "reachable (device_task w options) (unat (opt_threads options)) (full_pool options)"
    by (rule reachable.start)
  obtain found_a pool_a t1 where a: "stage_a_subnet_scan w options iface (full_pool options) t
      = Some ((found_a, pool_a), t1)"
    using assms by (auto simp: find_devices_def Option.bind_eq_Some_conv)
  note a' = stage_a_refines [OF a start]
  show ?thesis
  proof (cases "found_a = []")
    case True
    with assms a obtain found_b pool_b diagnostic t2 where
      b: "stage_b_layer2 w options iface pool_a [] t1 = Some ((found_b, pool_b, diagnostic), t2)"
      and r: "r = ((found_b, ''layer2'', diagnostic), t2)"
      by (auto simp: find_devices_def Option.bind_eq_Some_conv)
    with a' True stage_b_refines [OF b] show ?thesis by (auto simp: find_sequential_def)
  next
    case False
    with assms a a' show ?thesis by (auto simp: find_devices_def find_sequential_def Option.bind_eq_Some_conv)
  qed
qed

section \<open>Schedules\<close>

definition rescheduled :: "(nat \<Rightarrow> probe schedule) \<Rightarrow> (nat \<Rightarrow> probe schedule) \<Rightarrow> probe action list \<Rightarrow> world \<Rightarrow> world" where
  "rescheduled submit_gaps get_gaps stop_steps w =
     w\<lparr>w_submit_gaps := submit_gaps, w_get_gaps := get_gaps, w_stop_steps := stop_steps\<rparr>"

lemma rescheduled_simps [simp]:
  "w_os (rescheduled sg gg st w) = w_os w" "w_ssh (rescheduled sg gg st w) = w_ssh w"
  "w_table (rescheduled sg gg st w) = w_table w" "w_wide (rescheduled sg gg st w) = w_wide w"
  "w_adapters (rescheduled sg gg st w) = w_adapters w" "read_file (rescheduled sg gg st w) = read_file w"
  "w_starts (rescheduled sg gg st w) = w_starts w" "w_thread_failure (rescheduled sg gg st w) = w_thread_failure w"
  "w_submit_gaps (rescheduled sg gg st w) = sg"
  "w_get_gaps (rescheduled sg gg st w) = gg" "w_stop_steps (rescheduled sg gg st w) = st"
  by (simp_all add: rescheduled_def read_file_def [abs_def])

lemma devices_at_rescheduled: "devices_at (rescheduled sg gg st w) = devices_at w"
  unfolding devices_at_def fun_eq_iff rescheduled_simps by simp

lemma find_sequential_rescheduled: "find_sequential (rescheduled sg gg st w) options iface t = find_sequential w options iface t"
  unfolding find_sequential_def stage_a_sequential_def stage_b_sequential_def stage_b_start_def
    devices_at_rescheduled rescheduled_simps by (rule refl)

lemma run_mock_mode_rescheduled: "run_mock_mode (rescheduled sg gg st w) options = run_mock_mode w options"
  unfolding run_mock_mode_def rescheduled_simps by (rule refl)

lemma talk_to_device_rescheduled:
  "talk_to_device (rescheduled sg gg st w) options iface stage password device t
     = talk_to_device w options iface stage password device t"
  unfolding talk_to_device_def query_device_def fetch_listing_def rescheduled_simps by (rule refl)

lemma resolve_password_rescheduled: "resolve_password (rescheduled sg gg st w) options = resolve_password w options"
  unfolding resolve_password_def rescheduled_simps by (rule refl)

lemma select_interface_rescheduled: "select_interface (rescheduled sg gg st w) options = select_interface w options"
  unfolding select_interface_def rescheduled_simps by (rule refl)

lemmas rescheduling = run_mock_mode_rescheduled talk_to_device_rescheduled resolve_password_rescheduled
  select_interface_rescheduled

text \<open>Two results that agree when both exist.\<close>

definition compatible :: "'a option \<Rightarrow> 'a option \<Rightarrow> bool" where
  "compatible x y \<longleftrightarrow> (\<forall>a b. x = Some a \<longrightarrow> y = Some b \<longrightarrow> a = b)"

lemma compatible_refl: "compatible x x"
  by (simp add: compatible_def)

lemma compatible_bind: "compatible m m' \<Longrightarrow> (\<And>x. compatible (k x) (k' x)) \<Longrightarrow> compatible (m \<bind> k) (m' \<bind> k')"
  by (fastforce simp: compatible_def Option.bind_eq_Some_conv)

lemma compatible_find:
  "compatible (find_devices w options iface (full_pool options) t)
     (find_devices (rescheduled sg gg st w) options iface (full_pool options) t)"
  using find_devices_refines [of w options iface t] find_devices_refines [of "rescheduled sg gg st w" options iface t]
  by (auto simp: compatible_def find_sequential_rescheduled)

lemma compatible_with_pool:
  "compatible (run_with_pool w options password iface (full_pool options) t)
     (run_with_pool (rescheduled sg gg st w) options password iface (full_pool options) t)"
  unfolding run_with_pool_def
  by (intro compatible_bind) (auto intro!: compatible_bind compatible_refl compatible_find simp: rescheduling split: prod.split sum.split)

lemma compatible_discovery:
  "compatible (run_discovery w options password iface t) (run_discovery (rescheduled sg gg st w) options password iface t)"
proof (cases "construct_pool (w_thread_failure w) (unat (opt_threads options)) :: devices_pool construction")
  case (Constructed pool)
  then have "pool = full_pool options" by (rule construct_pool_Constructed)
  with Constructed show ?thesis
    by (auto simp: run_discovery_def split_beta intro!: compatible_bind compatible_refl compatible_with_pool)
qed (simp_all add: run_discovery_def split_beta compatible_refl)

lemma compatible_run: "compatible (run w options t) (run (rescheduled sg gg st w) options t)"
  unfolding run_def rescheduling
  by (auto intro!: compatible_bind compatible_refl compatible_discovery split: prod.split sum.split)

text \<open>Every step that waits for the workers returns under some schedule.\<close>

lemma sweep_exists:
  assumes "reachable (device_task w options) n pool" and "\<not> stopping pool"
  obtains steps found pool' where "\<not> stopping pool'" "reachable (device_task w options) n pool'"
    "\<And>sg gg st. sg k = [] \<Longrightarrow> gg k = [steps] \<Longrightarrow> sweep (rescheduled sg gg st w) options k addresses pool = Some (found, pool')"
proof -
  obtain steps found pool' where s: "sweep_for_ssh (w_os w) (w_starts w) k [] [steps] pool addresses kSshPort
      (opt_connect_timeout options) (opt_banner_timeout options) = Some (found, pool')" "\<not> stopping pool'"
    using sweep_total [OF assms] by blast
  with sweep_found [OF assms(1) s(1)] show thesis
    by (intro that [of pool' steps found]) (simp_all add: sweep_def)
qed

lemma stage_a_exists:
  assumes "reachable (device_task w options) n pool" and "\<not> stopping pool"
  obtains steps found pool' t' where "\<not> stopping pool'" "reachable (device_task w options) n pool'"
    "\<And>sg gg st. sg 0 = [] \<Longrightarrow> gg 0 = [steps] \<Longrightarrow>
      stage_a_subnet_scan (rescheduled sg gg st w) options iface pool t = Some ((found, pool'), t')"
proof -
  let ?hosts = "enumerate_subnet_hosts (os_inet (w_os w)) iface kMinimumScanPrefix"
  obtain steps found pool' where s: "\<not> stopping pool'" "reachable (device_task w options) n pool'"
    "\<And>sg gg st. sg 0 = [] \<Longrightarrow> gg 0 = [steps] \<Longrightarrow> sweep (rescheduled sg gg st w) options 0 ?hosts pool = Some (found, pool')"
    using sweep_exists [OF assms, where k = 0 and addresses = ?hosts] by metis
  show thesis
  proof (cases "?hosts = []")
    case True
    with assms show thesis
      by (intro that [of pool _ "[]" "snd (stage_a_sequential w options iface t)"])
        (simp_all add: stage_a_subnet_scan_def stage_a_sequential_def Let_def split_beta)
  next
    case False
    with s show thesis
      by (intro that [of pool' steps found "snd (stage_a_sequential w options iface t)"])
        (simp_all add: stage_a_subnet_scan_def stage_a_sequential_def Let_def split_beta)
  qed
qed

lemma stage_b_exists:
  assumes "reachable (device_task w options) n pool" and "\<not> stopping pool" and "ticking m (w_os w)"
  obtains steps found pool' diagnostic' t' where "\<not> stopping pool'" "reachable (device_task w options) n pool'"
    "\<And>sg gg st. sg 1 = [] \<Longrightarrow> gg 1 = [steps] \<Longrightarrow>
      stage_b_layer2 (rescheduled sg gg st w) options iface pool diagnostic t = Some ((found, pool', diagnostic'), t')"
proof -
  obtain l2 t4 where l2: "discover_link_layer_hosts (w_os w) (w_table w) iface (opt_layer2_window options)
       (snd (run_state (stage_b_start w options iface) t)) = Some (l2, t4)"
    using discovery_total [OF assms(3)] by blast
  obtain steps found pool' where s: "\<not> stopping pool'" "reachable (device_task w options) n pool'"
    "\<And>sg gg st. sg 1 = [] \<Longrightarrow> gg 1 = [steps] \<Longrightarrow>
      sweep (rescheduled sg gg st w) options 1 (map obs_ip (l2_observations l2)) pool = Some (found, pool')"
    using sweep_exists [OF assms(1,2), where k = 1 and addresses = "map obs_ip (l2_observations l2)"] by metis
  have start: "stage_b_start (rescheduled sg gg st w) options iface = stage_b_start w options iface" for sg gg st
    by (simp add: stage_b_start_def)
  show thesis
  proof (cases "l2_observations l2 = []")
    case True
    with assms show thesis
      by (intro that [of pool _ "[]" "if l2_error l2 = [] then ''layer-2 discovery observed no station'' else l2_error l2" t4])
        (simp_all add: stage_b_run start l2)
  next
    case False
    with s show thesis
      by (intro that [of pool' steps found "if found = [] then unreachable_text iface (l2_observations l2) else diagnostic"
            "snd (run_state (log_observations options (l2_observations l2)) t4)"])
        (simp_all add: stage_b_run start l2)
  qed
qed

lemma shutdown_exists:
  assumes "reachable (device_task w options) n pool" and "\<not> stopping pool"
  obtains st pool' where "\<And>sg gg. shutdown (rescheduled sg gg st w) options pool = Some pool'"
proof -
  let ?s = "begin_shutdown pool"
  have "reachable (device_task w options) n ?s" using reachable.step [OF assms(1), of Begin_shutdown] by simp
  moreover have "stopping ?s" using assms(2) by (simp add: begin_shutdown_def)
  ultimately obtain st pool' where "run_actions (device_task w options) st ?s = Some pool'" "phase pool' = Joined"
    using drain_shutdown [OF reachable_invariant] by blast
  then show thesis by (intro that [of st pool']) (simp add: shutdown_def)
qed

lemma find_devices_exists:
  assumes "ticking m (w_os w)"
  shows "\<exists>sg gg st r. find_devices (rescheduled sg gg st w) options iface (full_pool options) t = Some r"
proof -
  let ?pool = "full_pool options"
  have start: "reachable (device_task w options) (unat (opt_threads options)) ?pool" by (rule reachable.start)
  have going: "\<not> stopping ?pool" by (simp add: thread_pool_def)
  obtain steps_a found_a pool_a t1 where
    a: "\<not> stopping pool_a" "reachable (device_task w options) (unat (opt_threads options)) pool_a"
    "\<And>sg gg st. sg 0 = [] \<Longrightarrow> gg 0 = [steps_a] \<Longrightarrow>
      stage_a_subnet_scan (rescheduled sg gg st w) options iface ?pool t = Some ((found_a, pool_a), t1)"
    using stage_a_exists [OF start going] by metis
  show ?thesis
  proof (cases "found_a = []")
    case True
    obtain steps_b found_b pool_b diagnostic t2 where
      b: "\<not> stopping pool_b" "reachable (device_task w options) (unat (opt_threads options)) pool_b"
      "\<And>sg gg st. sg 1 = [] \<Longrightarrow> gg 1 = [steps_b] \<Longrightarrow>
        stage_b_layer2 (rescheduled sg gg st w) options iface pool_a [] t1 = Some ((found_b, pool_b, diagnostic), t2)"
      using stage_b_exists [OF a(2,1) assms] by metis
    obtain st pool_c where "\<And>sg gg. shutdown (rescheduled sg gg st w) options pool_b = Some pool_c"
      using shutdown_exists [OF b(2,1)] by metis
    with True a(3) b(3) show ?thesis
      by (intro exI [of _ "\<lambda>_. []"] exI [of _ "\<lambda>k. if k = 0 then [steps_a] else [steps_b]"] exI [of _ st])
        (simp add: find_devices_def)
  next
    case False
    obtain st pool_c where "\<And>sg gg. shutdown (rescheduled sg gg st w) options pool_a = Some pool_c"
      using shutdown_exists [OF a(2,1)] by metis
    with False a(3) show ?thesis
      by (intro exI [of _ "\<lambda>_. []"] exI [of _ "\<lambda>k. [steps_a]"] exI [of _ st]) (simp add: find_devices_def)
  qed
qed

lemma fetch_listing_total:
  assumes "sends_at_most n (w_ssh w)"
  shows "\<exists>r. fetch_listing w options client u = Some r"
proof -
  obtain c1 u1 where "execute (w_ssh w) client ''ifconfig'' u = Some (c1, u1)"
    using execute_total [OF assms] by blast
  moreover obtain c2 u2 where "execute (w_ssh w) client ''ip -4 addr''
      (snd (run_state (put_log options (''ifconfig unavailable or failed, falling back to '' @ ip_addr_quoted)) u1)) = Some (c2, u2)"
    using execute_total [OF assms] by blast
  ultimately show ?thesis by (simp add: fetch_listing_def split_beta)
qed

lemma query_device_total:
  assumes "sends_at_most n (w_ssh w)"
  shows "\<exists>r. query_device w options iface stage device client u = Some r"
proof -
  obtain listing u2 where f: "fetch_listing w options client (snd (run_state
     (if cl_host_key_status client \<noteq> ''match'' \<and> \<not> opt_strict_host_key options
     then put_err (put_line (''WARNING: SSH host key not verified (status: '' @ cl_host_key_status client
       @ ''); the link is trusted because it is a direct connection.''))
     else return ()) u)) = Some (listing, u2)"
    using fetch_listing_total [OF assms] by fastforce
  then show ?thesis
    by (cases listing) (simp_all add: query_device_def split_beta Let_def del: put_runs)
qed

lemma talk_to_device_total:
  assumes "sends_at_most n (w_ssh w)"
  shows "\<exists>r. talk_to_device w options iface stage password device t = Some r"
proof -
  obtain t1 where step: "talk_to_device w options iface stage password device t =
     (let client = ssh_client (ssh_config_for options password device) in do {
       ((ok, client1), t2) \<leftarrow> lift (connect_and_authenticate (w_os w) (w_ssh w) client) t1;
       ((exit_code, client2), t3) \<leftarrow>
         (if \<not> ok then do {
            (_, t3) \<leftarrow> lift (put_err (put_line (''Error: '' @ cl_last_error client1))) t2;
            Some ((if contains ''authentication'' (cl_last_error client1) then kSshAuthFailed else kSshConnectionFailed,
                   client1), t3)
          }
          else query_device w options iface stage device client1 t2);
       (_, t4) \<leftarrow> lift (disconnect client2) t3;
       Some (exit_code, t4)
     })"
    unfolding talk_to_device_def lift_run split_beta Option.bind.simps by blast
  obtain ok client1 t2 where c: "run_state (connect_and_authenticate (w_os w) (w_ssh w)
      (ssh_client (ssh_config_for options password device))) t1 = ((ok, client1), t2)" by (metis surj_pair)
  obtain exit_code client2 t3 where "query_device w options iface stage device client1 t2 = Some ((exit_code, client2), t3)"
    using query_device_total [OF assms] by (metis surj_pair)
  then show ?thesis by (cases ok) (simp_all add: step c Let_def split_beta del: put_runs)
qed

text \<open>The system can start all the threads that the options ask for.\<close>

definition workers_start :: "world \<Rightarrow> Options \<Rightarrow> bool" where
  "workers_start w options \<longleftrightarrow> (\<forall>i<max 1 (unat (opt_threads options)). w_thread_failure w i = None)"

lemma workers_start_pool:
  "workers_start w options \<Longrightarrow> construct_pool (w_thread_failure w) (unat (opt_threads options)) = Constructed (full_pool options)"
  unfolding workers_start_def construct_pool_result by simp

lemma run_with_pool_exists:
  assumes "ticking m (w_os w)" and "sends_at_most n (w_ssh w)"
  shows "\<exists>sg gg st r. run_with_pool (rescheduled sg gg st w) options password iface (full_pool options) u = Some r"
proof -
  have ssh: "\<exists>r. talk_to_device w options iface stage password device u = Some r" for iface stage password device u
    using assms(2) by (rule talk_to_device_total)
  obtain sg gg st devices stage diagnostic u2 where
    f: "find_devices (rescheduled sg gg st w) options iface (full_pool options) u = Some ((devices, stage, diagnostic), u2)"
    using find_devices_exists [OF assms(1)] by (metis surj_pair)
  obtain chosen u3 where c: "run_state (choose_device options iface devices diagnostic) u2 = (chosen, u3)" by force
  have "\<exists>r. run_with_pool (rescheduled sg gg st w) options password iface (full_pool options) u = Some r"
  proof (cases chosen)
    case (Inr device)
    obtain r where "talk_to_device w options iface stage password device u3 = Some r" using ssh by blast
    with Inr show ?thesis by (simp add: run_with_pool_def rescheduling f c)
  qed (simp add: run_with_pool_def f c)
  then show ?thesis by blast
qed

lemma run_discovery_exists:
  assumes "ticking m (w_os w)" and "sends_at_most n (w_ssh w)" and "workers_start w options"
  shows "\<exists>sg gg st r. run_discovery (rescheduled sg gg st w) options password iface u = Some r"
proof -
  let ?u = "snd (run_state (put_log options (''using interface '' @ ni_name iface @ '' ('' @ link_text iface @ '')'')) u)"
  obtain sg gg st r where "run_with_pool (rescheduled sg gg st w) options password iface (full_pool options) ?u = Some r"
    using run_with_pool_exists [OF assms(1,2)] by blast
  with workers_start_pool [OF assms(3)] have
    "run_discovery (rescheduled sg gg st w) options password iface u = Some (Inr (fst r), snd r)"
    by (simp add: run_discovery_def split_beta)
  then show ?thesis by blast
qed

lemma run_exists:
  assumes "ticking m (w_os w)" and "sends_at_most n (w_ssh w)" and "workers_start w options"
  shows "\<exists>sg gg st r. run (rescheduled sg gg st w) options t = Some r"
proof -
  obtain p u1 where p: "run_state (resolve_password w options) t = (p, u1)" by force
  obtain sel u2 where s: "run_state (select_interface w options) u1 = (sel, u2)" by force
  consider "opt_mock_ifconfig_file options \<noteq> []" | e where "opt_mock_ifconfig_file options = []" "p = Inl e"
    | e password where "opt_mock_ifconfig_file options = []" "p = Inr password" "sel = Inl e"
    | password iface where "opt_mock_ifconfig_file options = []" "p = Inr password" "sel = Inr iface"
    by (cases p; cases sel) blast+
  then show ?thesis
  proof cases
    case (4 password iface)
    obtain sg gg st r where "run_discovery (rescheduled sg gg st w) options password iface u2 = Some r"
      using run_discovery_exists [OF assms] by blast
    with 4 have "run (rescheduled sg gg st w) options t = Some r"
      by (simp add: run_def rescheduling p s)
    then show ?thesis by blast
  next
    case 3
    then have "\<exists>r. run (rescheduled w_sg w_gg w_st w) options t = Some r" for w_sg w_gg w_st
      by (cases e) (simp_all add: run_def rescheduling p s)
    then show ?thesis by blast
  next
    case 1
    then have "\<exists>r. run (rescheduled w_sg w_gg w_st w) options t = Some r" for w_sg w_gg w_st
      by (simp add: run_def)
    then show ?thesis by blast
  next
    case 2
    then have "\<exists>r. run (rescheduled w_sg w_gg w_st w) options t = Some r" for w_sg w_gg w_st
      by (simp add: run_def rescheduling p)
    then show ?thesis by blast
  qed
qed

end
