(* ===== verification/Run_Correctness.thy ===== *)
theory Run_Correctness
  imports Sequential_Discovery
begin

text \<open>
  What a run of the program of \<open>src/src/main.cpp\<close> guarantees: the reports it writes, the resources
  it leaves, the device that gets the password, the life of Winsock, and the independence of the schedule.
\<close>

section \<open>Reports\<close>

text \<open>A report is written once, as the last event, and the exit code says whether it is as expected.\<close>

definition reporting :: "ExitCode \<Rightarrow> bool" where
  "reporting exit_code \<longleftrightarrow> exit_code = kSuccess \<or> exit_code = kUnexpectedInterfaceCount"

definition reported :: "inet_api \<Rightarrow> Options \<Rightarrow> ExitCode \<Rightarrow> trace \<Rightarrow> trace \<Rightarrow> bool" where
  "reported api options exit_code t t' \<longleftrightarrow> (\<exists>report.
     t' = t @ [Proc (Ev_stdout (if opt_json options then format_json report else format_text report))]
     \<and> rep_interfaces report \<noteq> [] \<and> distinct (rep_interfaces report) \<and> list_all (well_formed_interface api) (rep_interfaces report)
     \<and> exit_code = (if length (rep_interfaces report) = 2 then kSuccess else kUnexpectedInterfaceCount)
     \<and> (rep_warnings report = [] \<longleftrightarrow> length (rep_interfaces report) = 2))"

lemma finish_report_reported:
  assumes "run_state (finish_report options report) t = (exit_code, t')" and "rep_warnings report = []"
    and "rep_interfaces report \<noteq> []"
    and "rep_interfaces report \<in> {parse_ifconfig_output api listing, parse_ip_addr_output api listing}"
  shows "reported api options exit_code t t'"
proof -
  define report' where "report' = (if length (rep_interfaces report) \<noteq> 2
       then report\<lparr>rep_warnings := rep_warnings report @
              [''expected two network interfaces but found '' @ size_text (rep_interfaces report)]\<rparr>
       else report)"
  have "exit_code = (if length (rep_interfaces report) = 2 then kSuccess else kUnexpectedInterfaceCount)"
    "t' = t @ [Proc (Ev_stdout (if opt_json options then format_json report' else format_text report'))]"
    using assms(1) unfolding finish_report_def Let_def report'_def [symmetric] by (simp_all add: emit_def split: if_splits)
  moreover have "rep_interfaces report' = rep_interfaces report"
    "rep_warnings report' = [] \<longleftrightarrow> length (rep_interfaces report) = 2"
    using assms(2) by (simp_all add: report'_def)
  ultimately show ?thesis
    using parsed_well_formed [OF assms(4)] assms(3) unfolding reported_def by (intro exI [of _ report']) simp
qed

section \<open>The stages of a successful run\<close>

lemma offline_events: "offline t t' \<Longrightarrow> \<exists>es. t' = t @ es \<and> list_all plain es"
  by (auto simp: offline_def dest: adds_events)

lemma stage_a_offline: "stage_a_sequential w options iface t = (found, t') \<Longrightarrow> offline t t'"
  by (auto simp: stage_a_sequential_def Let_def intro: offline_snd [OF emits_put(2)])

lemma stage_b_start_proc: "emits is_proc (stage_b_start w options iface)"
  unfolding stage_b_start_def
  by (intro emits_bind emits_put(2) emits_elevated) (simp add: emits_if emits_put(2) emits_return)

lemma find_sequential_offline:
  assumes "find_sequential w options iface t = Some (r, t')"
  shows "offline t t'"
proof -
  obtain found_a t1 where a: "stage_a_sequential w options iface t = (found_a, t1)" by force
  then have "offline t t1" by (rule stage_a_offline)
  moreover have "offline t1 t'"
  proof (cases "found_a = []")
    case True
    with assms a obtain x where b: "stage_b_sequential w options iface t1 = Some (x, t')"
      by (auto simp: find_sequential_def Option.bind_eq_Some_conv)
    then obtain l2 t2 where l2: "discover_link_layer_hosts (w_os w) (w_table w) iface (opt_layer2_window options)
       (snd (run_state (stage_b_start w options iface) t1)) = Some (l2, t2)"
      and t': "t' = snd (run_state (log_observations options (l2_observations l2)) t2)"
      by (auto simp: stage_b_sequential_def Option.bind_eq_Some_conv Let_def)
    from offline_snd [OF stage_b_start_proc] offline_discovery [OF l2] offline_snd [OF emits_log_observations]
    show ?thesis unfolding t' by (blast intro: offline_trans)
  next
    case False
    with assms a show ?thesis by (auto simp: find_sequential_def intro: offline_proc adds_refl)
  qed
  ultimately show ?thesis by (rule offline_trans)
qed

lemma devices_at_device:
  assumes "device \<in> set (devices_at w options k addresses)"
  obtains address u where "address \<in> set addresses" "w_starts w k address = Some u" "is_ssh device"
    "device = fst (run_state (probe_ssh (w_os w) address kSshPort (opt_connect_timeout options) (opt_banner_timeout options)) u)"
proof -
  obtain address where a: "address \<in> set addresses" and d: "device \<in> set (case w_starts w k address of None \<Rightarrow> []
      | Some t \<Rightarrow> filter is_ssh [fst (run_state (probe_ssh (w_os w) address kSshPort
          (opt_connect_timeout options) (opt_banner_timeout options)) t)])"
    using assms unfolding devices_at_def set_concat set_map by blast
  show thesis
  proof (cases "w_starts w k address")
    case None
    with d show thesis by simp
  next
    case (Some u)
    with a d show thesis by (intro that [of address u]) (simp_all split: if_splits)
  qed
qed

text \<open>
  What a found device is: the result of a probe of an address of the link, a host of the interface's
  subnet or a station that layer-2 discovery saw during the events \<open>es\<close> after \<open>t\<close>.
\<close>

definition on_link :: "world \<Rightarrow> NetworkInterface \<Rightarrow> trace \<Rightarrow> event list \<Rightarrow> string \<Rightarrow> bool" where
  "on_link w iface t es address \<longleftrightarrow> address \<in> set (enumerate_subnet_hosts (os_inet (w_os w)) iface kMinimumScanPrefix)
     \<or> (unicast (os_inet (w_os w)) address \<and> address \<noteq> ni_ipv4 iface
        \<and> (\<exists>source. station_seen (os_inet (w_os w)) (w_table w) iface t es source address))"

definition probed_device :: "world \<Rightarrow> Options \<Rightarrow> NetworkInterface \<Rightarrow> trace \<Rightarrow> event list \<Rightarrow> SshProbeResult \<Rightarrow> bool" where
  "probed_device w options iface t es device \<longleftrightarrow> is_ssh device \<and> (\<exists>k address u. on_link w iface t es address
     \<and> w_starts w k address = Some u
     \<and> device = fst (run_state (probe_ssh (w_os w) address kSshPort (opt_connect_timeout options) (opt_banner_timeout options)) u))"

lemma probed_device_grow: "probed_device w options iface (t @ a) es device \<Longrightarrow> probed_device w options iface t (a @ es @ b) device"
  unfolding probed_device_def on_link_def by (blast intro: station_seen_grow)

lemma found_devices_probed:
  assumes "find_sequential w options iface t = Some ((devices, stage, diagnostic), t')"
  shows "\<exists>es. t' = t @ es \<and> list_all (probed_device w options iface t es) devices"
proof -
  let ?hosts = "enumerate_subnet_hosts (os_inet (w_os w)) iface kMinimumScanPrefix"
  obtain es where es: "t' = t @ es" using offline_events [OF find_sequential_offline [OF assms]] by blast
  obtain found_a t1 where a: "stage_a_sequential w options iface t = (found_a, t1)" by force
  then have fa: "found_a = devices_at w options 0 ?hosts" by (auto simp: stage_a_sequential_def Let_def)
  have "probed_device w options iface t es device" if d: "device \<in> set devices" for device
  proof (cases "found_a = []")
    case True
    with assms a obtain x where b: "stage_b_sequential w options iface t1 = Some ((devices, x), t')"
      by (auto simp: find_sequential_def Option.bind_eq_Some_conv)
    define t2 where "t2 = snd (run_state (stage_b_start w options iface) t1)"
    from b obtain l2 t3 where l2: "discover_link_layer_hosts (w_os w) (w_table w) iface (opt_layer2_window options) t2 = Some (l2, t3)"
      and ds: "devices = devices_at w options 1 (map obs_ip (l2_observations l2))"
      and t': "t' = snd (run_state (log_observations options (l2_observations l2)) t3)"
      by (auto simp: stage_b_sequential_def t2_def Option.bind_eq_Some_conv Let_def)
    obtain as where as: "t2 = t @ as"
      using offline_events [OF offline_trans [OF stage_a_offline [OF a] offline_snd [OF stage_b_start_proc]]]
      unfolding t2_def by blast
    obtain bs where bs: "t' = t3 @ bs"
      using offline_events [OF offline_snd [OF emits_log_observations]] unfolding t' by blast
    from discovery_seen [OF l2] obtain fs where fs: "t3 = t2 @ fs" and
      seen: "all_seen (station_seen (os_inet (w_os w)) (w_table w) iface t2 fs) (l2_observations l2)" by blast
    have e: "es = as @ fs @ bs" using es as bs fs by simp
    have seen': "all_seen (station_seen (os_inet (w_os w)) (w_table w) iface t es) (l2_observations l2)"
      unfolding e by (rule all_seen_mono [OF seen]) (simp only: as station_seen_grow)
    have on: "on_link w iface t es address" if "address \<in> set (map obs_ip (l2_observations l2))" for address
      using discovery_sound [OF l2] seen' that by (auto simp: on_link_def list_all_iff interesting_unicast)
    show ?thesis
      by (rule devices_at_device [OF d [unfolded ds]]) (use on in \<open>auto simp: probed_device_def\<close>)
  next
    case False
    with assms a d have "device \<in> set (devices_at w options 0 ?hosts)" by (auto simp: find_sequential_def fa)
    then show ?thesis by (rule devices_at_device) (auto simp: probed_device_def on_link_def)
  qed
  with es show ?thesis by (auto simp: list_all_iff)
qed

text \<open>The device a run goes on with: the only one found, or the first of several at the selected address.\<close>

definition chosen_among :: "Options \<Rightarrow> SshProbeResult list \<Rightarrow> SshProbeResult \<Rightarrow> bool" where
  "chosen_among options devices device \<longleftrightarrow> devices = [device]
     \<or> 1 < length devices \<and> opt_select_candidate options \<noteq> []
       \<and> List.find (\<lambda>d. pr_ip d = opt_select_candidate options) devices = Some device"

lemma chosen_among_set: "chosen_among options devices device \<Longrightarrow> device \<in> set devices"
  by (auto simp: chosen_among_def dest: find_Some_props)

lemma choose_device_cases:
  assumes "run_state (choose_device options iface devices diagnostic) t = (Inr device, t')"
  shows "chosen_among options devices device \<and> t' = t"
proof -
  consider "devices = []" | x where "devices = [x]" | x y zs where "devices = x # y # zs"
    by (metis list.exhaust)
  then show ?thesis
  proof cases
    case 3
    then show ?thesis using assms
      by (auto simp: choose_device_def chosen_among_def split: if_splits option.splits)
  qed (use assms in \<open>auto simp: choose_device_def chosen_among_def split: if_splits\<close>)
qed

text \<open>The candidates that the hint allows, and the interface that is used: the only one.\<close>

definition allowed_candidates :: "world \<Rightarrow> Options \<Rightarrow> query_error + NetworkInterface list" where
  "allowed_candidates w options =
     (case discover_candidate_interfaces (os_inet (w_os w)) (w_wide w) (w_adapters w) of
        Inl err \<Rightarrow> Inl err
      | Inr all \<Rightarrow> Inr (filter (\<lambda>i. opt_interface_hint options = [] \<or> ni_name i = opt_interface_hint options) all))"

definition sole_candidate :: "world \<Rightarrow> Options \<Rightarrow> NetworkInterface \<Rightarrow> bool" where
  "sole_candidate w options iface \<longleftrightarrow> allowed_candidates w options = Inr [iface]"

lemma select_interface_cases:
  assumes "run_state (select_interface w options) t = (selected, t')"
  obtains (failed) what where "selected = Inl (Inl what)"
    | (none) "selected = Inl (Inr kNoInterface)" "allowed_candidates w options = Inr []"
    | (several) all where "selected = Inl (Inr kMultipleInterfaces)" "allowed_candidates w options = Inr all" "1 < length all"
    | (one) iface where "selected = Inr iface" "sole_candidate w options iface" "t' = t"
proof (cases "discover_candidate_interfaces (os_inet (w_os w)) (w_wide w) (w_adapters w)")
  case (Inl err)
  with assms show thesis
    by (intro failed [of "fst (run_state (query_what (w_os w) err) t)"]) (auto simp: select_interface_def split_beta)
next
  case (Inr all)
  define candidates where "candidates = filter (\<lambda>i. opt_interface_hint options = [] \<or> ni_name i = opt_interface_hint options) all"
  then have c: "(if opt_interface_hint options \<noteq> [] then filter (\<lambda>iface. \<not> ni_name iface \<noteq> opt_interface_hint options) all else all) = candidates"
    by simp
  have a: "allowed_candidates w options = Inr candidates" by (simp add: allowed_candidates_def Inr candidates_def)
  note run = assms [unfolded select_interface_def Inr sum.case c Let_def]
  consider "candidates = []" | iface where "candidates = [iface]" | "1 < length candidates"
    by (metis length_greater_0_conv length_0_conv less_one linorder_neqE_nat list.size(3) One_nat_def length_Suc_conv)
  then show thesis
  proof cases
    case 1
    with run a show thesis by (intro none) auto
  next
    case (2 iface)
    with run a show thesis by (intro one [of iface]) (auto simp: sole_candidate_def)
  next
    case 3
    then have "candidates \<noteq> []" by auto
    with 3 run a show thesis by (intro several [of candidates]) auto
  qed
qed

text \<open>The password, if one is configured.\<close>

definition configured_password :: "world \<Rightarrow> Options \<Rightarrow> trace \<Rightarrow> string option" where
  "configured_password w options t =
     (let password = (if opt_password_from_cli options then Some (opt_ssh_password options)
        else os_getenv (w_os w) (c_str (opt_password_env options)) t)
      in if password = Some [] then None else password)"

lemma resolve_password_cases:
  assumes "run_state (resolve_password w options) t = (resolved, t')"
  shows "resolved = (case configured_password w options t of None \<Rightarrow> Inl kUsageError | Some password \<Rightarrow> Inr password)"
  using assms by (auto simp: resolve_password_def configured_password_def getenv_def Let_def split: if_splits option.splits)

lemma resolve_password_Inr:
  assumes "run_state (resolve_password w options) t = (Inr password, t')"
  shows "password \<noteq> [] \<and> (if opt_password_from_cli options then password = opt_ssh_password options
    else Proc (Ev_getenv (c_str (opt_password_env options)) (Some password)) \<in> set t')"
  using assms
  by (auto simp: resolve_password_def getenv_def Let_def split: if_splits)

text \<open>
  Where discovery starts: after the password and the interface are known and the interface is named in
  the log. What it finds is the result of the sequential discovery from there.
\<close>

definition interface_log :: "Options \<Rightarrow> NetworkInterface \<Rightarrow> unit io" where
  "interface_log options iface = put_log options (''using interface '' @ ni_name iface @ '' ('' @ link_text iface @ '')'')"

definition discovery_start :: "world \<Rightarrow> Options \<Rightarrow> NetworkInterface \<Rightarrow> trace \<Rightarrow> trace" where
  "discovery_start w options iface t = snd (run_state (interface_log options iface)
     (snd (run_state (select_interface w options) (snd (run_state (resolve_password w options) t)))))"

definition finds :: "world \<Rightarrow> Options \<Rightarrow> NetworkInterface \<Rightarrow> trace \<Rightarrow> SshProbeResult list \<Rightarrow> bool" where
  "finds w options iface t devices \<longleftrightarrow> (\<exists>stage diagnostic u.
     find_sequential w options iface (discovery_start w options iface t) = Some ((devices, stage, diagnostic), u))"

definition chosen_device :: "world \<Rightarrow> Options \<Rightarrow> trace \<Rightarrow> NetworkInterface \<Rightarrow> SshProbeResult \<Rightarrow> bool" where
  "chosen_device w options t iface device \<longleftrightarrow> sole_candidate w options iface
     \<and> (\<exists>devices. finds w options iface t devices \<and> chosen_among options devices device)"

definition undecided :: "Options \<Rightarrow> SshProbeResult list \<Rightarrow> ExitCode \<Rightarrow> bool" where
  "undecided options devices exit_code \<longleftrightarrow>
     exit_code = kNoDevice \<and> devices = []
   \<or> exit_code = kMultipleDevices \<and> 1 < length devices \<and> opt_select_candidate options = []
   \<or> exit_code = kUsageError \<and> 1 < length devices \<and> opt_select_candidate options \<noteq> []
       \<and> opt_select_candidate options \<notin> pr_ip ` set devices"

lemma choose_device_Inl:
  assumes "run_state (choose_device options iface devices diagnostic) t = (Inl exit_code, t')"
  shows "undecided options devices exit_code"
  using assms by (auto simp: choose_device_def undecided_def find_None_iff split: if_splits option.splits)

lemma run_with_pool_cases:
  assumes "run_with_pool w options password iface (full_pool options) t = Some (exit_code, t')"
  obtains (undecided) devices stage diagnostic t4 where "offline t t'"
      "find_sequential w options iface t = Some ((devices, stage, diagnostic), t4)" "undecided options devices exit_code"
    | (reached) devices stage diagnostic device t4 where
      "find_sequential w options iface t = Some ((devices, stage, diagnostic), t4)"
      "device \<in> set devices" "chosen_among options devices device"
      "offline t t4" "talk_to_device w options iface stage password device t4 = Some (exit_code, t')"
proof -
  from assms obtain devices stage diagnostic t4 where
    f: "find_devices w options iface (full_pool options) t = Some ((devices, stage, diagnostic), t4)"
    by (auto simp: run_with_pool_def Option.bind_eq_Some_conv)
  obtain chosen t5 where c: "run_state (choose_device options iface devices diagnostic) t4 = (chosen, t5)" by force
  note f' = find_devices_refines [OF f]
  have q4: "offline t t4" using f' by (rule find_sequential_offline)
  have rest: "case chosen of Inl e \<Rightarrow> t' = t5 \<and> exit_code = e
      | Inr device \<Rightarrow> talk_to_device w options iface stage password device t5 = Some (exit_code, t')"
    using assms by (auto simp: run_with_pool_def f c split: sum.splits)
  show thesis
  proof (cases chosen)
    case (Inl e)
    have "offline t4 t5" using emits_choose_device c by (rule offline_run)
    then have "offline t t5" by (rule offline_trans [OF q4])
    then show thesis using rest Inl f' choose_device_Inl [OF c [unfolded Inl]] by (intro undecided) auto
  next
    case (Inr device)
    note d = choose_device_cases [OF c [unfolded Inr]]
    with rest Inr f' q4 chosen_among_set show thesis by (intro reached [where devices = devices]) auto
  qed
qed

lemma run_discovery_cases:
  assumes "run_discovery w options password iface t = Some (result, t')"
  obtains (failed) what where "offline t t'" "result = Inl what"
    | (undecided) devices stage diagnostic t4 exit_code where "result = Inr exit_code" "offline t t'"
      "find_sequential w options iface (snd (run_state (interface_log options iface) t)) = Some ((devices, stage, diagnostic), t4)"
      "undecided options devices exit_code"
    | (reached) devices stage diagnostic device t3 t4 exit_code where "result = Inr exit_code"
      "find_sequential w options iface t3 = Some ((devices, stage, diagnostic), t4)"
      "device \<in> set devices" "chosen_among options devices device"
      "offline t t3" "offline t3 t4" "talk_to_device w options iface stage password device t4 = Some (exit_code, t')"
      "t3 = snd (run_state (interface_log options iface) t)"
proof -
  define t3 where "t3 = snd (run_state (interface_log options iface) t)"
  have q3: "offline t t3" unfolding t3_def interface_log_def by (rule offline_snd [OF emits_put(2)])
  note run = assms [unfolded run_discovery_def lift_run split_beta Option.bind.simps interface_log_def [symmetric] t3_def [symmetric]]
  show thesis
  proof (cases "construct_pool (w_thread_failure w) (unat (opt_threads options)) :: devices_pool construction")
    case (Throws what)
    with run q3 show thesis by (intro failed [of what]) auto
  next
    case Terminates
    with run show thesis by simp
  next
    case (Constructed pool)
    then have "pool = full_pool options" by (rule construct_pool_Constructed)
    with run Constructed obtain exit_code where res: "result = Inr exit_code"
      and r: "run_with_pool w options password iface (full_pool options) t3 = Some (exit_code, t')"
      by (auto simp: Option.bind_eq_Some_conv)
    from r show thesis
    proof (cases rule: run_with_pool_cases)
      case (undecided devices stage diagnostic t4)
      with res offline_trans [OF q3] show thesis
        by (intro that(2) [of exit_code devices stage diagnostic t4]) (simp_all only: t3_def [symmetric])
    next
      case (reached devices stage diagnostic device t4)
      with res q3 show thesis by (intro that(3) [where devices = devices and ?t3.0 = t3]) (simp_all only: t3_def)
    qed
  qed
qed

text \<open>
  The ends of a run: mock mode; no password; an exception or not exactly one interface; not exactly
  one device; or the SSH dialogue.
\<close>

lemma run_stages:
  assumes "run w options t = Some (result, t')"
  obtains (mock) exit_code where "opt_mock_ifconfig_file options \<noteq> []" "result = Inr exit_code"
      "run_state (run_mock_mode w options) t = (exit_code, t')"
    | (no_password) "offline t t'" "result = Inr kUsageError" "configured_password w options t = None"
    | (failed) what where "offline t t'" "result = Inl what"
    | (no_interface) "offline t t'" "result = Inr kNoInterface" "allowed_candidates w options = Inr []"
    | (interfaces) all where "offline t t'" "result = Inr kMultipleInterfaces" "allowed_candidates w options = Inr all" "1 < length all"
    | (undecided) iface devices exit_code where "offline t t'" "result = Inr exit_code" "sole_candidate w options iface"
      "finds w options iface t devices" "undecided options devices exit_code"
    | (reached) password t1 iface devices stage diagnostic device t3 t4 exit_code where
      "run_state (resolve_password w options) t = (Inr password, t1)" "sole_candidate w options iface"
      "find_sequential w options iface t3 = Some ((devices, stage, diagnostic), t4)"
      "device \<in> set devices" "chosen_among options devices device"
      "offline t t1" "offline t1 t3" "offline t3 t4"
      "talk_to_device w options iface stage password device t4 = Some (exit_code, t')" "result = Inr exit_code"
      "t3 = discovery_start w options iface t"
proof (cases "opt_mock_ifconfig_file options = []")
  case False
  with assms show thesis
    by (intro mock [of "fst (run_state (run_mock_mode w options) t)"]) (auto simp: run_def split_beta)
next
  case True
  obtain p t1 where p: "run_state (resolve_password w options) t = (p, t1)" by force
  have q1: "offline t t1" using emits_password p by (rule offline_run)
  show thesis
  proof (cases "configured_password w options t")
    case None
    with True assms p q1 resolve_password_cases [OF p] show thesis by (intro no_password) (auto simp: run_def)
  next
    case (Some password)
    then have Inr: "p = Inr password" using resolve_password_cases [OF p] by simp
    obtain sel t2 where s: "run_state (select_interface w options) t1 = (sel, t2)" by force
    have q2: "offline t t2" using q1 offline_run [OF emits_interface s] by (rule offline_trans)
    have run: "run w options t = (case sel of
        Inl (Inl what) \<Rightarrow> Some (Inl what, t2)
      | Inl (Inr exit_code) \<Rightarrow> Some (Inr exit_code, t2)
      | Inr iface \<Rightarrow> run_discovery w options password iface t2)"
      using True p Inr s by (simp add: run_def)
    from s show thesis
    proof (cases rule: select_interface_cases)
      case (failed what)
      with assms run q2 show thesis by (intro that(3) [of what]) simp_all
    next
      case none
      with assms run q2 show thesis by (intro no_interface) simp_all
    next
      case (several all)
      with assms run q2 show thesis by (intro interfaces [of all]) simp_all
    next
      case (one iface)
      with assms run have discovery: "run_discovery w options password iface t2 = Some (result, t')" by simp
      have start: "snd (run_state (interface_log options iface) t2) = discovery_start w options iface t"
        by (simp only: discovery_start_def p s snd_conv)
      from discovery show thesis
      proof (cases rule: run_discovery_cases)
        case (failed what)
        with offline_trans [OF q2] show thesis by (intro that(3) [of what]) simp_all
      next
        case (undecided devices stage diagnostic t4 exit_code)
        then have "finds w options iface t devices" unfolding start finds_def by blast
        with undecided one(2) offline_trans [OF q2] show thesis by (intro that(6) [of exit_code iface devices]) simp_all
      next
        case (reached devices stage diagnostic device t3 t4 exit_code)
        show thesis
          by (rule that(7) [of password t1 iface t3 devices stage diagnostic t4 device exit_code])
            (use reached p Inr one q1 start in simp_all)
      qed
    qed
  qed
qed

lemma undecided_silent: "undecided options devices exit_code \<Longrightarrow> \<not> reporting exit_code"
  by (auto simp: undecided_def reporting_def)

text \<open>A run is in mock mode, or stops before the SSH dialogue, and stays quiet, or it reaches it.\<close>

lemma run_cases:
  assumes "run w options t = Some (result, t')"
  obtains (mock) exit_code where "result = Inr exit_code" "run_state (run_mock_mode w options) t = (exit_code, t')"
    | (stopped) "quiet t t'" "\<And>e. result = Inr e \<Longrightarrow> \<not> reporting e"
    | (reached) password t1 iface devices stage diagnostic device t3 t4 exit_code where
      "run_state (resolve_password w options) t = (Inr password, t1)" "sole_candidate w options iface"
      "find_sequential w options iface t3 = Some ((devices, stage, diagnostic), t4)"
      "device \<in> set devices" "chosen_among options devices device"
      "quiet t t1" "quiet t1 t3" "quiet t3 t4" "talk_to_device w options iface stage password device t4 = Some (exit_code, t')"
      "result = Inr exit_code" "t3 = discovery_start w options iface t"
  using assms
proof (cases rule: run_stages)
  case (reached password t1 iface devices stage diagnostic device t3 t4 exit_code)
  then show thesis
    by (intro that(3) [where devices = devices and ?t1.0 = t1 and ?t3.0 = t3]) (auto intro: offline_quiet)
qed (auto intro!: mock stopped intro: offline_quiet dest: undecided_silent simp: reporting_def)

section \<open>The SSH dialogue\<close>

lemma quiet_if: "run_state (if b then put_err m else return ()) t = (x, t') \<Longrightarrow> quiet t t'"
  by (rule quiet_run [of "if b then put_err m else return ()"]) (auto intro: emits_if emits_return)

text \<open>The codes of a dialogue that ends without a report.\<close>

definition unlisted :: "ExitCode \<Rightarrow> bool" where
  "unlisted exit_code \<longleftrightarrow> exit_code = kRemoteCommandFailed \<or> exit_code = kParseFailed"

lemma unlisted_silent: "unlisted exit_code \<Longrightarrow> \<not> reporting exit_code"
  by (auto simp: unlisted_def reporting_def)

lemma query_device_steps:
  assumes "query_device w options iface stage device client t = Some ((exit_code, client'), t')"
  obtains t2 t3 where "quiet t t2" "run_state (disconnect client) t2 = (client', t3)"
    "reported (os_inet (w_os w)) options exit_code t3 t' \<or> quiet t3 t' \<and> unlisted exit_code"
proof -
  let ?api = "os_inet (w_os w)"
  let ?warn = "if cl_host_key_status client \<noteq> ''match'' \<and> \<not> opt_strict_host_key options
       then put_err (put_line (''WARNING: SSH host key not verified (status: '' @ cl_host_key_status client
         @ ''); the link is trusted because it is a direct connection.''))
       else return ()"
  obtain x1 t1 where s1: "run_state ?warn t = (x1, t1)" by force
  obtain listing t2 where s2: "fetch_listing w options client t1 = Some (listing, t2)"
    using assms unfolding query_device_def s1 lift_run by (auto simp: Option.bind_eq_Some_conv)
  obtain c3 t3 where s3: "run_state (disconnect client) t2 = (c3, t3)" by force
  note steps = query_device_def s1 s2 s3
  have q: "quiet t t2" using quiet_if [OF s1] fetch_listing_quiet [OF s2] by (rule quiet_trans)
  show thesis
  proof (cases listing)
    case None
    with assms have "c3 = client'" "t' = t3" "exit_code = kRemoteCommandFailed" by (simp_all add: steps)
    with s3 show thesis
      by (intro that [OF q, of t3]) (simp_all add: unlisted_def quiet_proc adds_refl)
  next
    case (Some l)
    then obtain sc out where l: "listing = Some (sc, out)" by (cases l) simp
    define interfaces where "interfaces = parse_listing ?api sc out"
    show thesis
    proof (cases "interfaces = []")
      case True
      with assms l have "c3 = client'" "exit_code = kParseFailed" "adds is_proc t3 t'"
        by (auto simp: steps adds_def is_proc_def writes_out_def interfaces_def)
      moreover have "unlisted kParseFailed" by (simp add: unlisted_def)
      ultimately show thesis using s3 by (intro that [OF q, of t3]) (simp_all add: quiet_proc)
    next
      case False
      obtain code t4 where f: "run_state (finish_report options (device_report iface stage device client interfaces)) t3 = (code, t4)"
        by force
      with assms l False have e: "c3 = client'" "exit_code = code" "t' = t4" by (simp_all add: steps interfaces_def)
      have r: "rep_warnings (device_report iface stage device client interfaces) = []"
        "rep_interfaces (device_report iface stage device client interfaces) = interfaces"
        by (simp_all add: device_report_def)
      have "interfaces \<in> {parse_ifconfig_output ?api out, parse_ip_addr_output ?api out}"
        by (simp add: interfaces_def parse_listing_def)
      then have "reported ?api options code t3 t4"
        by (rule finish_report_reported [OF f r(1), unfolded r(2), OF False])
      with e s3 show thesis by (intro that [OF q, of t3]) simp_all
    qed
  qed
qed

lemma talk_to_device_steps:
  assumes "talk_to_device w options iface stage password device t = Some (exit_code, t')"
  obtains (refused) t1 client1 t2 t3 c where "quiet t t1"
      "run_state (connect_and_authenticate (w_os w) (w_ssh w) (ssh_client (ssh_config_for options password device))) t1
        = ((False, client1), t2)"
      "quiet t2 t3" "run_state (disconnect client1) t3 = (c, t')"
      "exit_code = (if contains ''authentication'' (cl_last_error client1) then kSshAuthFailed else kSshConnectionFailed)"
    | (connected) t1 client1 t2 client2 t3 c where "quiet t t1"
      "run_state (connect_and_authenticate (w_os w) (w_ssh w) (ssh_client (ssh_config_for options password device))) t1
        = ((True, client1), t2)"
      "query_device w options iface stage device client1 t2 = Some ((exit_code, client2), t3)"
      "run_state (disconnect client2) t3 = (c, t')"
proof -
  define t1 where "t1 = snd (run_state (put_log options (''SSH server confirmed at '' @ pr_ip device @ '' ('' @ pr_banner device @ '')'')) t)"
  have q: "quiet t t1" unfolding t1_def by (rule quiet_snd [OF emits_put(2)])
  obtain ok client1 t2 where c: "run_state (connect_and_authenticate (w_os w) (w_ssh w)
      (ssh_client (ssh_config_for options password device))) t1 = ((ok, client1), t2)" by (metis surj_pair)
  note run = assms [unfolded talk_to_device_def lift_run split_beta Option.bind.simps t1_def [symmetric] Let_def c fst_conv snd_conv]
  show thesis
  proof (cases ok)
    case True
    with run obtain client2 t3 where "query_device w options iface stage device client1 t2 = Some ((exit_code, client2), t3)"
      "t' = snd (run_state (disconnect client2) t3)"
      by (auto simp: Option.bind_eq_Some_conv)
    with c True show thesis by (intro connected [OF q]) (simp_all add: disconnect_run)
  next
    case False
    define t3 where "t3 = snd (run_state (put_err (put_line (''Error: '' @ cl_last_error client1))) t2)"
    have "quiet t2 t3" unfolding t3_def by (rule quiet_snd [OF emits_put(1)])
    moreover have "t' = snd (run_state (disconnect client1) t3)"
      "exit_code = (if contains ''authentication'' (cl_last_error client1) then kSshAuthFailed else kSshConnectionFailed)"
      using run False unfolding t3_def by simp_all
    ultimately show thesis using c False by (intro refused [OF q]) (simp_all add: disconnect_run)
  qed
qed

section \<open>Resources, output and password of a run\<close>

lemma reported_keeps: "reported api options exit_code t t' \<Longrightarrow> live_sockets t' = live_sockets t \<and> held t' = held t"
  by (auto simp: reported_def trace_simps)

lemma run_mock_mode_cases:
  assumes "run_state (run_mock_mode w options) t = (exit_code, t')"
  shows "reported (os_inet (w_os w)) options exit_code t t' \<or> quiet t t' \<and> \<not> reporting exit_code"
proof (cases "read_file w (opt_mock_ifconfig_file options)")
  case None
  with assms show ?thesis
    by (auto simp: run_mock_mode_def reporting_def adds_def is_proc_def writes_out_def intro!: quiet_proc)
next
  case (Some contents)
  define interfaces where "interfaces = mock_interfaces (os_inet (w_os w)) contents"
  note run = assms [unfolded run_mock_mode_def Some option.case Let_def, folded interfaces_def]
  show ?thesis
  proof (cases "interfaces = []")
    case True
    with run show ?thesis
      by (auto simp: reporting_def adds_def is_proc_def writes_out_def intro!: quiet_proc)
  next
    case False
    let ?report = "empty_report\<lparr>rep_discovery_stage := ''mock'', rep_interfaces := interfaces\<rparr>"
    have f: "run_state (finish_report options ?report) t = (exit_code, t')"
      using run unfolding if_not_P [OF False] .
    have r: "rep_warnings ?report = []" "rep_interfaces ?report = interfaces" by (simp_all add: empty_report_def)
    have "interfaces \<in> {parse_ifconfig_output (os_inet (w_os w)) contents, parse_ip_addr_output (os_inet (w_os w)) contents}"
      by (simp add: interfaces_def mock_interfaces_def Let_def)
    then show ?thesis
      using finish_report_reported [OF f r(1), unfolded r(2), OF False] by blast
  qed
qed

lemma talk_to_device_resources:
  assumes "talk_to_device w options iface stage password device t = Some (exit_code, t')"
  shows "live_sockets t' = live_sockets t \<and> held t' = held t"
  using assms
proof (cases rule: talk_to_device_steps)
  case (refused t1 client1 t2 t3 c)
  note f = session.failed_connect [OF fresh_ssh_client refused(2)]
  show ?thesis
    using refused(1,3) f session.hang_up_idle [OF _ refused(4)] by (simp add: quiet_def)
next
  case (connected t1 client1 t2 client2 t3 c)
  from connected(3) obtain u2 u3 where q: "quiet t2 u2" "run_state (disconnect client1) u2 = (client2, u3)"
    "reported (os_inet (w_os w)) options exit_code u3 t3 \<or> quiet u3 t3 \<and> unlisted exit_code"
    by (rule query_device_steps)
  have l: "live_sockets u2 = live_sockets t2" "held u2 = held t2" using q(1) by (simp_all add: quiet_def)
  have "live_sockets t3 = live_sockets u3 \<and> held t3 = held u3"
    using q(3) by (auto simp: quiet_def dest: reported_keeps)
  with connected(1) session.hang_up_after_connect [OF fresh_ssh_client connected(2) l q(2)]
    session.hang_up_idle [OF _ connected(4)]
  show ?thesis by (simp add: quiet_def)
qed

lemma run_resources:
  assumes "run w options t = Some (result, t')"
  shows "live_sockets t' = live_sockets t \<and> held t' = held t"
  using assms
proof (cases rule: run_cases)
  case (mock exit_code)
  with run_mock_mode_cases [OF mock(2)] show ?thesis by (auto simp: quiet_def dest: reported_keeps)
next
  case stopped
  then show ?thesis by (simp add: quiet_def)
next
  case (reached password t1 iface devices stage diagnostic device t3 t4 exit_code)
  with talk_to_device_resources [OF reached(9)] show ?thesis by (simp add: quiet_def)
qed

lemma main_cases:
  assumes "main w args t = Some (exit_code, t')"
  obtains (unavailable) t1 where "run_state (ensure_winsock_initialised (w_os w)) t = (False, t1)" "exit_code = kUsageError"
      "t' = t1 @ [Proc (Ev_stderr (put_line ''Error: Winsock could not be initialised.''))]"
    | (refused) t1 printed where "run_state (ensure_winsock_initialised (w_os w)) t = (True, t1)"
      "parse_options args default_options = Inl (printed, exit_code)" "t' = snd (run_state (put_all printed) t1)"
    | (ran) t1 options result t2 where "run_state (ensure_winsock_initialised (w_os w)) t = (True, t1)"
      "parse_options args default_options = Inr options" "run w options t1 = Some (result, t2)"
      "case result of Inl what \<Rightarrow> t' = snd (run_state (put_err (put_line (''Error: '' @ what))) t2) \<and> exit_code = kNoDevice
        | Inr e \<Rightarrow> t' = t2 \<and> exit_code = e"
proof -
  obtain ok t1 where i: "run_state (ensure_winsock_initialised (w_os w)) t = (ok, t1)" by force
  show thesis
  proof (cases ok)
    case False
    define m where "m = put_line ''Error: Winsock could not be initialised.''"
    have "exit_code = kUsageError \<and> t' = t1 @ [Proc (Ev_stderr m)]"
      using assms False unfolding main_def i lift_run m_def [symmetric] by simp
    with i False show thesis by (intro unavailable) (simp_all add: m_def)
  next
    case True
    show thesis
    proof (cases "parse_options args default_options")
      case (Inl x)
      then obtain printed e where x: "parse_options args default_options = Inl (printed, e)" by (cases x) simp
      with assms True i have "e = exit_code" "t' = snd (run_state (put_all printed) t1)"
        by (simp_all add: main_def split_beta)
      with x True i show thesis by (intro refused) simp_all
    next
      case (Inr options)
      with assms True i obtain result t2 where r: "run w options t1 = Some (result, t2)"
        by (auto simp: main_def Option.bind_eq_Some_conv)
      show thesis
        by (rule ran [OF _ Inr r])
          (use assms True i Inr r in \<open>auto simp: main_def split_beta simp del: put_runs split: sum.splits\<close>)
    qed
  qed
qed

lemma emits_put_all: "(\<And>p. P (Proc p)) \<Longrightarrow> emits P (put_all es)"
  by (induction es) (auto intro!: emits_return emits_bind emits_call)

lemma emits_put_err: "(\<And>p. P (Proc p)) \<Longrightarrow> emits P (put_err m)"
  by (simp add: put_err_def emits_call)

text \<open>The part of \<open>main\<close> after the start of Winsock: what holds of \<open>run\<close> and of process events holds of it.\<close>

lemma main_adds:
  assumes "main w args t = Some (exit_code, t')"
    and "\<And>options t1 result t2. run w options t1 = Some (result, t2) \<Longrightarrow> adds P t1 t2" and "\<And>p. P (Proc p)"
  obtains ok t1 where "run_state (ensure_winsock_initialised (w_os w)) t = (ok, t1)" "adds P t1 t'"
    "\<not> ok \<Longrightarrow> exit_code = kUsageError \<and> t' = t1 @ [Proc (Ev_stderr (put_line ''Error: Winsock could not be initialised.''))]"
  using assms(1)
proof (cases rule: main_cases)
  case (unavailable t1)
  then show thesis using assms(3) by (intro that [of False t1]) (simp_all add: adds_snoc)
next
  case (refused t1 printed)
  have "adds P t1 t'" using emits_put_all [of P printed] assms(3) by (simp add: refused(3) emits_def)
  with refused show thesis by (intro that [of True t1]) simp_all
next
  case (ran t1 options result t2)
  have "adds P t2 (snd (run_state (put_err m) t2))" for m
    using emits_put_err [of P m] assms(3) by (simp add: emits_def del: put_runs)
  with ran(4) have "adds P t2 t'" by (cases result) (auto simp: adds_refl simp del: put_runs)
  with assms(2) [OF ran(3)] have "adds P t1 t'" by (rule adds_trans)
  with ran show thesis by (intro that [of True t1]) simp_all
qed

abbreviation is_program :: "event \<Rightarrow> bool" where
  "is_program e \<equiv> \<exists>p. e = Proc p"

lemma program_keeps: "adds is_program t t' \<Longrightarrow> live_sockets t' = live_sockets t \<and> held t' = held t"
proof -
  have "foldl live_step M es = M \<and> foldl held_step N es = N" if "list_all is_program es" for es M N
    using that by (induction es) auto
  then show "adds is_program t t' \<Longrightarrow> live_sockets t' = live_sockets t \<and> held t' = held t"
    by (auto simp: adds_def trace_simps)
qed

text \<open>C4: Whatever happens, the program ends with the sockets, SSH sessions, channels and known-hosts
objects it started with: every path of \<open>main\<close> releases what it opened. (The probes run on traces
of their own; \<open>probe_ssh_releases_socket\<close> is the same for them.)\<close>

theorem main_leaves_nothing_open:
  assumes "main w args t = Some (exit_code, t')"
  shows "live_sockets t' = live_sockets t \<and> held t' = held t"
proof -
  have w: "live_sockets t1 = live_sockets t \<and> held t1 = held t"
    if "run_state (ensure_winsock_initialised (w_os w)) t = (ok, t1)" for ok t1
    using that by (auto simp: ensure_winsock_initialised_def held_append live_step_def split: option.splits)
  from assms show ?thesis
  proof (cases rule: main_cases)
    case (unavailable t1)
    with w show ?thesis by (auto simp: trace_simps)
  next
    case (refused t1 printed)
    have "adds is_program t1 t'" using emits_put_all [of is_program printed] by (simp add: refused(3) emits_def)
    with w [OF refused(1)] program_keeps show ?thesis by simp
  next
    case (ran t1 options result t2)
    have "live_sockets t' = live_sockets t2 \<and> held t' = held t2"
      using ran(4) by (cases result) (auto simp: trace_simps)
    with w [OF ran(1)] run_resources [OF ran(3)] show ?thesis by simp
  qed
qed

lemma writes_out_simps [simp]:
  "\<not> writes_out (Sock e1)" "\<not> writes_out (Ssh e2)" "\<not> writes_out (Chan e3)"
  "\<not> writes_out (Proc (Ev_getenv name answer))" "\<not> writes_out (Proc (Ev_FormatMessage rc answer'))"
  by (simp_all add: writes_out_def)

lemma connect_no_output: "emits (\<lambda>e. \<not> writes_out e) (connect_and_authenticate os ssh client)"
proof -
  have tcp: "emits (\<lambda>e. \<not> writes_out e) (tcp_connect os ip port timeout)" for ip port timeout
    using emits_tcp_connect by (rule emits_mono) (auto simp: is_sock_def split: event.splits)
  have dis: "emits (\<lambda>e. \<not> writes_out e) (disconnect client)" for client
    by (auto simp: disconnect_def close_socket_def intro!: emits_intros emits_call split: option.split)
  have fail: "emits (\<lambda>e. \<not> writes_out e) (fail_connect m client)" for m client
    by (auto simp: fail_connect_def intro!: emits_intros dis)
  have err: "emits (\<lambda>e. \<not> writes_out e) (libssh2_error_text ssh s m)" for s m
    by (auto simp: libssh2_error_text_def intro!: emits_intros split: option.split)
  have auth: "emits (\<lambda>e. \<not> writes_out e) (authenticate ssh s client)" for s client
    by (auto simp: authenticate_def Let_def intro!: emits_intros fail)
  have key: "emits (\<lambda>e. \<not> writes_out e) (verify_host_key os ssh config s)" for config s
    by (auto simp: verify_host_key_def default_known_hosts_path_def getenv_def Let_def
        intro!: emits_intros emits_call split: option.split prod.split)
  have start: "emits (\<lambda>e. \<not> writes_out e) (start_session os ssh s client)" for s client
    by (auto simp: start_session_def Let_def last_socket_error_def socket_error_text_def
        intro!: emits_intros emits_call fail err auth key split: option.split prod.split)
  have opn: "emits (\<lambda>e. \<not> writes_out e) (open_session os ssh client)" for client
    by (auto simp: open_session_def Let_def last_socket_error_def socket_error_text_def
        intro!: emits_intros emits_call fail err start split: option.split prod.split)
  show ?thesis
    by (auto simp: connect_and_authenticate_def ensure_libssh2_initialised_def Let_def
        intro!: emits_intros emits_call opn tcp split: option.split prod.split)
qed

text \<open>No output on the way from one trace to the next.\<close>

abbreviation hushed :: "trace \<Rightarrow> trace \<Rightarrow> bool" where
  "hushed \<equiv> adds (\<lambda>e. \<not> writes_out e)"

definition mute :: "trace \<Rightarrow> trace \<Rightarrow> bool" where
  "mute t t' \<longleftrightarrow> (\<exists>es. t' = t @ es \<and> filter writes_out es = [])"

lemma hushed_mute: "hushed t t' \<Longrightarrow> mute t t'"
  by (auto simp: adds_def mute_def list_all_iff filter_empty_conv)

lemma quiet_hushed: "quiet t t' \<Longrightarrow> hushed t t'"
  unfolding quiet_def by (blast intro: adds_mono)

lemma disconnect_hushed: "run_state (disconnect client) t = (client', t') \<Longrightarrow> hushed t t'"
  using disconnect_silent by (blast intro: adds_mono)

lemma hushed_reported: "hushed t t1 \<Longrightarrow> reported api options exit_code t1 t' \<Longrightarrow> \<exists>t1. hushed t t1 \<and> reported api options exit_code t1 t'"
  by blast

lemma talk_to_device_report:
  assumes "talk_to_device w options iface stage password device t = Some (exit_code, t')"
  shows "if reporting exit_code then \<exists>t1. hushed t t1 \<and> reported (os_inet (w_os w)) options exit_code t1 t' else hushed t t'"
  using assms
proof (cases rule: talk_to_device_steps)
  case (refused t1 client1 t2 t3 c)
  have "hushed t t1" "hushed t2 t3" using refused(1,3) by (simp_all add: quiet_hushed)
  moreover have "hushed t1 t2" using connect_no_output refused(2) by (rule emits_run)
  moreover have "hushed t3 t'" using refused(4) by (rule disconnect_hushed)
  moreover have "\<not> reporting exit_code" by (simp add: refused(5) reporting_def)
  ultimately show ?thesis by (auto intro: adds_trans)
next
  case (connected t1 client1 t2 client2 t3 c)
  from connected(3) obtain u2 u3 where q: "quiet t2 u2" "run_state (disconnect client1) u2 = (client2, u3)"
    "reported (os_inet (w_os w)) options exit_code u3 t3 \<or> quiet u3 t3 \<and> unlisted exit_code"
    by (rule query_device_steps)
  have "fresh_client client2" using session.hang_up_releases [OF q(2)] by simp
  then have "t' = t3" using connected(4) by (auto simp: disconnect_run disconnect_events_def fresh_client_def)
  have "hushed t t1" "hushed t2 u2" using connected(1) q(1) by (simp_all add: quiet_hushed)
  moreover have "hushed t1 t2" using connect_no_output connected(2) by (rule emits_run)
  moreover have "hushed u2 u3" using q(2) by (rule disconnect_hushed)
  ultimately have m: "hushed t u3" by (blast intro: adds_trans)
  show ?thesis
  proof (cases "reported (os_inet (w_os w)) options exit_code u3 t3")
    case True
    then have "reporting exit_code" by (auto simp: reported_def reporting_def)
    with m True show ?thesis by (auto simp: \<open>t' = t3\<close>)
  next
    case False
    with q(3) m show ?thesis by (auto simp: \<open>t' = t3\<close> dest: unlisted_silent intro: adds_trans quiet_hushed)
  qed
qed

lemma run_hushed:
  assumes "run w options t = Some (result, t')"
  shows "if \<exists>e. result = Inr e \<and> reporting e
    then \<exists>t1. hushed t t1 \<and> reported (os_inet (w_os w)) options (projr result) t1 t' else hushed t t'"
  using assms
proof (cases rule: run_cases)
  case (mock exit_code)
  have "reporting exit_code" if "reported (os_inet (w_os w)) options exit_code t t'"
    using that by (auto simp: reported_def reporting_def)
  with run_mock_mode_cases [OF mock(2)] mock(1) show ?thesis
    using adds_refl by (auto simp: quiet_hushed)
next
  case stopped
  then show ?thesis by (auto simp: quiet_hushed)
next
  case (reached password t1 iface devices stage diagnostic device t3 t4 exit_code)
  have "hushed t t4" using reached(6-8) by (blast intro: adds_trans quiet_hushed)
  with talk_to_device_report [OF reached(9)] reached(10) show ?thesis
    by (auto intro: adds_trans split: if_splits)
qed

text \<open>C3: Standard output carries at most one report, written as the last event of the run, and it does so
exactly when the exit code is 0 or 11: 0 when the report lists two interfaces and no warning, 11 when
it lists another number and a warning. All interfaces in it are distinct, not loopback and with a valid
address. Every other exit code and every exception leaves standard output empty.\<close>

theorem run_reports_once:
  assumes "run w options t = Some (result, t')"
  shows "case result of
      Inl what \<Rightarrow> mute t t'
    | Inr exit_code \<Rightarrow>
        if exit_code = kSuccess \<or> exit_code = kUnexpectedInterfaceCount
        then \<exists>t1. mute t t1 \<and> reported (os_inet (w_os w)) options exit_code t1 t'
        else mute t t'"
  using run_hushed [OF assms] by (cases result) (auto simp: reporting_def dest: hushed_mute split: if_splits)

text \<open>The password events of the dialogue.\<close>

lemma quiet_discreet: "quiet t t' \<Longrightarrow> \<exists>es. t' = t @ es \<and> discreet es"
  by (auto simp: quiet_def adds_def discreet_def list_all_iff)

lemma silent_discreet: "adds silent t t' \<Longrightarrow> \<exists>es. t' = t @ es \<and> discreet es"
  by (auto simp: adds_def discreet_def list_all_iff)

definition attempts_at :: "world \<Rightarrow> Options \<Rightarrow> string \<Rightarrow> SshProbeResult \<Rightarrow> event list \<Rightarrow> bool" where
  "attempts_at w options password device es \<longleftrightarrow> (\<exists>s h rc.
     filter sends_password es \<in> {[], [Ssh (Ev_userauth_password s (c_str (opt_ssh_user options)) (c_str password) rc)]}
     \<and> (filter sends_password es \<noteq> [] \<longrightarrow> reports_errors (w_os w) \<longrightarrow> connected_to (w_os w) (pr_ip device) kSshPort h es)
     \<and> preceded (shook_hands s h) sends_password es
     \<and> (opt_strict_host_key options \<longrightarrow> preceded (key_matched s (c_str (pr_ip device)) kSshPort) sends_password es))"

lemma attempts_at_discreet:
  assumes "attempts_at w options password device es" and "discreet xs" and "discreet ys"
  shows "attempts_at w options password device (xs @ es @ ys)"
  using assms unfolding attempts_at_def
  by (elim exE, intro exI) (auto simp: discreet_filter preceded_append preceded_discreet intro: connected_to_append)

lemma attempts_at_connect:
  assumes "run_state (connect_and_authenticate (w_os w) (w_ssh w) (ssh_client (ssh_config_for options password device))) t
    = ((ok, client), t')"
  shows "\<exists>es. t' = t @ es \<and> attempts_at w options password device es"
proof -
  have cfg: "cfg_host (cl_config (ssh_client (ssh_config_for options password device))) = pr_ip device"
    "cfg_port (cl_config (ssh_client (ssh_config_for options password device))) = kSshPort"
    "cfg_username (cl_config (ssh_client (ssh_config_for options password device))) = opt_ssh_user options"
    "cfg_password (cl_config (ssh_client (ssh_config_for options password device))) = password"
    "cfg_host_key_policy (cl_config (ssh_client (ssh_config_for options password device))) = Strict \<longleftrightarrow> opt_strict_host_key options"
    by (simp_all add: ssh_client_def ssh_config_for_def)
  from password_spec [OF assms fresh_ssh_client, unfolded cfg] show ?thesis
    unfolding attempts_at_def by (elim exE conjE, intro exI conjI) (assumption+, simp)
qed

lemma talk_to_device_password:
  assumes "talk_to_device w options iface stage password device t = Some (exit_code, t')"
  shows "\<exists>es. t' = t @ es \<and> attempts_at w options password device es"
  using assms
proof (cases rule: talk_to_device_steps)
  case (refused t1 client1 t2 t3 c)
  obtain a b d where "t1 = t @ a" "t3 = t2 @ b" "t' = t3 @ d" and disc: "discreet a" "discreet (b @ d)"
    using quiet_discreet [OF refused(1)] quiet_discreet [OF refused(3)]
      silent_discreet [OF disconnect_silent [OF refused(4)]] by auto
  moreover obtain es where "t2 = t1 @ es" and es: "attempts_at w options password device es"
    using attempts_at_connect [OF refused(2)] by blast
  ultimately have "t' = t @ (a @ es @ (b @ d))" by simp
  with attempts_at_discreet [OF es disc] show ?thesis by blast
next
  case (connected t1 client1 t2 client2 t3 c)
  from connected(3) obtain u2 u3 where q: "quiet t2 u2" "run_state (disconnect client1) u2 = (client2, u3)"
    "reported (os_inet (w_os w)) options exit_code u3 t3 \<or> quiet u3 t3 \<and> unlisted exit_code"
    by (rule query_device_steps)
  have "\<exists>f. t3 = u3 @ f \<and> discreet f"
    using q(3) quiet_discreet by (auto simp: reported_def)
  then obtain a b d f g where "t1 = t @ a" "u2 = t2 @ b" "u3 = u2 @ d" "t3 = u3 @ f" "t' = t3 @ g"
    and disc: "discreet a" "discreet (b @ d @ f @ g)"
    using quiet_discreet [OF connected(1)] quiet_discreet [OF q(1)] silent_discreet [OF disconnect_silent [OF q(2)]]
      silent_discreet [OF disconnect_silent [OF connected(4)]] by auto
  moreover obtain es where "t2 = t1 @ es" and es: "attempts_at w options password device es"
    using attempts_at_connect [OF connected(2)] by blast
  ultimately have "t' = t @ (a @ es @ (b @ d @ f @ g))" by simp
  with attempts_at_discreet [OF es disc] show ?thesis by blast
qed


section \<open>The life of Winsock\<close>

lemma reported_adds: "reported api options exit_code t t' \<Longrightarrow> adds (\<lambda>_. True) t t'"
  by (auto simp: reported_def adds_snoc)

lemma run_adds: "run w options t = Some (result, t') \<Longrightarrow> adds (\<lambda>_. True) t t'"
  by (drule run_hushed) (auto split: if_splits intro: adds_trans adds_mono reported_adds)

text \<open>C14: Winsock is started once, before anything else, and cleaned up once, after everything else,
exactly when its start succeeded; when it failed the process only says so and exits with 2. The probes
of the worker threads, which begin after the start, do neither.\<close>

theorem winsock_lifecycle:
  assumes "run_process w args [] = Some (exit_code, t')"
  shows "\<exists>ok es. t' = Sock (Ev_WSAStartup ok) # es @ (if ok then [Sock Ev_WSACleanup] else []) \<and> list_all steady es
    \<and> (\<not> ok \<longrightarrow> exit_code = kUsageError \<and> es = [Proc (Ev_stderr (put_line ''Error: Winsock could not be initialised.''))])
    \<and> (\<forall>u address port. startup_result u = Some ok \<longrightarrow> (\<exists>es. list_all steady es
        \<and> snd (run_state (probe_ssh (w_os w) address port connect_timeout banner_timeout) u) = u @ es))"
proof -
  have probe: "\<exists>es. list_all steady es \<and> snd (run_state (probe_ssh (w_os w) address port connect_timeout banner_timeout) u) = u @ es"
    if "startup_result u = Some ok" for u address port ok
    using probe_ssh_adds that unfolding emits_def adds_def by (metis option.distinct(1))
  obtain t1 where m: "main w args [] = Some (exit_code, t1)" and t': "t' = snd (run_state release_winsock t1)"
    using assms by (auto simp: run_process_def Option.bind_eq_Some_conv split_beta)
  obtain ok u where i: "run_state (ensure_winsock_initialised (w_os w)) [] = (ok, u)" and a: "adds (\<lambda>_. True) u t1"
    and e: "\<not> ok \<Longrightarrow> exit_code = kUsageError \<and> t1 = u @ [Proc (Ev_stderr (put_line ''Error: Winsock could not be initialised.''))]"
    by (rule main_adds [OF m run_adds]) auto
  from i have u: "u = [Sock (Ev_WSAStartup ok)]" by (auto simp: ensure_winsock_initialised_def)
  with a obtain es where es: "t1 = Sock (Ev_WSAStartup ok) # es" "list_all steady es" by (auto simp: adds_def)
  with t' have "t' = Sock (Ev_WSAStartup ok) # es @ (if ok then [Sock Ev_WSACleanup] else [])"
    by (simp add: release_winsock_def)
  with es e u probe show ?thesis by (intro exI [of _ ok] exI [of _ es]) auto
qed

section \<open>Schedules and termination\<close>

text \<open>C6: Discovery with the thread pool finds what probing the addresses one after the other finds:
whatever the schedule, a result is the sequential one; and when the clock ticks, a schedule under which
discovery returns exists.\<close>

theorem discovery_is_sequential:
  shows "(find_devices w options iface (full_pool options) t = Some r \<longrightarrow> find_sequential w options iface t = Some r)
    \<and> (ticking n (w_os w) \<longrightarrow> (\<exists>submit_gaps get_gaps stop_steps.
      find_devices (rescheduled submit_gaps get_gaps stop_steps w) options iface (full_pool options) t
        = find_sequential w options iface t \<and> find_sequential w options iface t \<noteq> None))"
proof (intro conjI impI)
  assume "ticking n (w_os w)"
  then obtain sg gg st r where f: "find_devices (rescheduled sg gg st w) options iface (full_pool options) t = Some r"
    using find_devices_exists by blast
  from find_devices_refines [OF f] have "find_sequential w options iface t = Some r"
    by (simp add: find_sequential_rescheduled)
  with f show "\<exists>submit_gaps get_gaps stop_steps. find_devices (rescheduled submit_gaps get_gaps stop_steps w) options iface (full_pool options) t
      = find_sequential w options iface t \<and> find_sequential w options iface t \<noteq> None"
    by (intro exI [of _ sg] exI [of _ gg] exI [of _ st]) simp
qed (rule find_devices_refines)

text \<open>C7: The result of a run, its exit code and everything it did, does not depend on how the workers were
scheduled.\<close>

theorem run_independent_of_schedule:
  assumes "run w options t = Some r" and "run (rescheduled submit_gaps get_gaps stop_steps w) options t = Some r'"
  shows "r' = r"
  using compatible_run [of w options t submit_gaps get_gaps stop_steps] assms by (simp add: compatible_def)

text \<open>C8: The program can always return: if the clock ticks, the server stops sending and the threads can be
started, there is a schedule of the workers under which the run ends.\<close>

theorem run_can_return:
  assumes "ticking m (w_os w)" and "sends_at_most n (w_ssh w)" and "workers_start w options"
  shows "\<exists>submit_gaps get_gaps stop_steps result t'.
    run (rescheduled submit_gaps get_gaps stop_steps w) options t = Some (result, t')"
  using run_exists [OF assms] by auto

section \<open>Witnesses\<close>

text \<open>
  A PC at 10.0.0.6/30 whose only neighbour 10.0.0.5 runs an SSH server with a known key and two
  interfaces, one worker, and a schedule.
\<close>

definition sample_listing :: string where
  "sample_listing = put_line ''eth0: flags=4163'' @ put_line ''  inet 10.0.0.5  netmask 255.255.255.252''
     @ put_line ''eth1: flags=4163'' @ put_line ''  inet 10.20.30.1  netmask 255.255.255.0''"

definition sample_world :: world where
  "sample_world = \<lparr>
     w_os = sample_os\<lparr>os_getenv := \<lambda>_ _. Some ''home''\<rparr>,
     w_ssh = sample_ssh\<lparr>ls_channel_read := \<lambda>ch from_stderr t.
       if \<not> from_stderr \<and> filter (delivers ch from_stderr) t = [] then Some sample_listing else Some []\<rparr>,
     w_table = sample_table,
     w_wide = \<lambda>w. (4, ''Eth''),
     w_adapters = \<lambda>attempt sz. Adapters_success [sample_adapter\<lparr>UnicastAddresses :=
       [\<lparr>lpSockaddr = Some (Sockaddr_in (le_word 10 0 0 6)), OnLinkPrefixLength = 30\<rparr>]\<rparr>],
     w_file = \<lambda>path. if path = ''ip'' then Some (crlf (ip_addr_text sample_interfaces))
       else Some (net_tools_text sample_interfaces),
     w_starts = \<lambda>sweep address. Some [],
     w_thread_failure = \<lambda>_. None,
     w_submit_gaps = \<lambda>_. [],
     w_get_gaps = \<lambda>_. [[Check 0, Finish 0]],
     w_stop_steps = [Notify_all, Check 0, Join_next, Join_next]\<rparr>"

definition sample_command_line :: "string list" where
  "sample_command_line = [''--threads'', ''1'', ''--ssh-password'', ''secret'', ''--strict-host-key'', ''--json'']"

definition sample_options :: Options where
  "sample_options = default_options\<lparr>opt_threads := 1, opt_ssh_password := ''secret'', opt_password_from_cli := True,
     opt_strict_host_key := True, opt_json := True\<rparr>"

definition sample_eth :: NetworkInterface where
  "sample_eth = \<lparr>ni_name = ''Eth'', ni_ipv4 = ''10.0.0.6'', ni_netmask = ''255.255.255.252'', ni_address = 0x0A000006,
     ni_mask = 0xFFFFFFFC, ni_is_loopback = False, ni_is_up = True, ni_is_running = True, ni_is_point_to_point = False,
     ni_if_index = 11, ni_mac = [], ni_description = []\<rparr>"

lemma sample_world_hypotheses: "ticking 1 (w_os sample_world)" "sends_at_most 1 (w_ssh sample_world)"
  by (auto simp: sample_world_def ticking_def sample_os_def sends_at_most_def sample_ssh_def)

theorem main_leaves_nothing_open_witness:
  "\<exists>t'. main sample_world sample_command_line [] = Some (kSuccess, t') \<and> live_sockets t' = {#} \<and> held t' = {#}"
proof -
  have "map_option fst (main sample_world sample_command_line []) = Some kSuccess" by code_simp
  then obtain t' where m: "main sample_world sample_command_line [] = Some (kSuccess, t')" by auto
  with main_leaves_nothing_open [OF m] show ?thesis by (simp add: held_def)
qed

theorem winsock_lifecycle_witness:
  "\<exists>es. run_process sample_world sample_command_line [] = Some (kSuccess, Sock (Ev_WSAStartup True) # es @ [Sock Ev_WSACleanup])
     \<and> list_all steady es"
proof -
  have "map_option (\<lambda>(e, t). (e, hd t)) (run_process sample_world sample_command_line []) = Some (kSuccess, Sock (Ev_WSAStartup True))"
    by code_simp
  then obtain t' where m: "run_process sample_world sample_command_line [] = Some (kSuccess, t')" "hd t' = Sock (Ev_WSAStartup True)" by auto
  obtain ok es where "t' = Sock (Ev_WSAStartup ok) # es @ (if ok then [Sock Ev_WSACleanup] else [])" "list_all steady es"
    using winsock_lifecycle [OF m(1)] by blast
  with m show ?thesis by auto
qed

lemma sample_run: "\<exists>t'. run sample_world sample_options [] = Some (Inr kSuccess, t') \<and> filter sends_password t' \<noteq> []"
proof -
  have "map_option (apsnd (\<lambda>t'. filter sends_password t' \<noteq> [])) (run sample_world sample_options []) = Some (Inr kSuccess, True)"
    by code_simp
  then show ?thesis by auto
qed

theorem run_reports_once_witness:
  "\<exists>t' t1. run sample_world sample_options [] = Some (Inr kSuccess, t') \<and> mute [] t1
     \<and> reported (os_inet (w_os sample_world)) sample_options kSuccess t1 t'"
proof -
  obtain t' where r: "run sample_world sample_options [] = Some (Inr kSuccess, t')" using sample_run by blast
  from run_reports_once [OF r] r show ?thesis by auto
qed


theorem discovery_is_sequential_witness:
  "\<exists>devices stage diagnostic t'. find_sequential sample_world sample_options sample_eth []
      = Some ((devices, stage, diagnostic), t') \<and> map pr_ip devices = [''10.0.0.5'']"
proof -
  have "map_option (\<lambda>((devices, stage, diagnostic), t'). map pr_ip devices) (find_devices sample_world sample_options sample_eth (full_pool sample_options) [])
      = Some [''10.0.0.5'']" by code_simp
  then obtain devices stage diagnostic t' where
    "find_devices sample_world sample_options sample_eth (full_pool sample_options) [] = Some ((devices, stage, diagnostic), t')"
    "map pr_ip devices = [''10.0.0.5'']" by auto
  from discovery_is_sequential [THEN conjunct1, THEN mp, OF this(1)] this(2) show ?thesis by (intro exI conjI)
qed

definition other_get_gaps :: "nat \<Rightarrow> probe schedule" where
  "other_get_gaps k = [[Notify_one (Some 0), Check 0, Finish 0]]"

theorem run_independent_of_schedule_witness:
  "\<exists>r. run (rescheduled (\<lambda>k. [[Check 0]]) other_get_gaps [Check 0, Notify_all, Join_next, Join_next]
       sample_world) sample_options [] = Some r \<and> run sample_world sample_options [] = Some r"
proof -
  let ?w = "rescheduled (\<lambda>k. [[Check 0]]) other_get_gaps [Check 0, Notify_all, Join_next, Join_next] sample_world"
  obtain r where r: "run sample_world sample_options [] = Some r" using sample_run by blast
  have "map_option fst (run ?w sample_options []) = Some (Inr kSuccess)" by code_simp
  then obtain r' where r': "run ?w sample_options [] = Some r'" by auto
  from run_independent_of_schedule [OF r r'] r r' show ?thesis by simp
qed

theorem run_can_return_witness:
  "\<exists>submit_gaps get_gaps stop_steps result t'.
    run (rescheduled submit_gaps get_gaps stop_steps sample_world) default_options [] = Some (result, t')"
  by (rule run_can_return [OF sample_world_hypotheses]) (simp add: workers_start_def sample_world_def)

end
