(* ===== verification/End_To_End.thy ===== *)
theory End_To_End
  imports Run_Correctness
begin

text \<open>
  The main result on the program of \<open>src/src/main.cpp\<close>: the report it writes is about the one device
  that discovery found, and its interfaces are the ones in the output of the command that the device ran in
  the session it authenticated.
\<close>

section \<open>What is reported\<close>

text \<open>The report on a device, with the warning about the number of interfaces, and its text.\<close>

definition report_of :: "NetworkInterface \<Rightarrow> string \<Rightarrow> SshProbeResult \<Rightarrow> string \<Rightarrow> RemoteInterface list \<Rightarrow> DiscoveryReport" where
  "report_of iface stage device status interfaces = \<lparr>
     rep_interface_name = ni_name iface, rep_ssh_ip = pr_ip device, rep_ssh_banner = pr_banner device,
     rep_host_key_status = status, rep_discovery_stage = stage, rep_interfaces = interfaces,
     rep_warnings = (if length interfaces = 2 then []
       else [''expected two network interfaces but found '' @ size_text interfaces])\<rparr>"

definition rendered :: "Options \<Rightarrow> DiscoveryReport \<Rightarrow> string" where
  "rendered options report = (if opt_json options then format_json report else format_text report)"

lemma finish_report_run:
  "run_state (finish_report options (device_report iface stage device client interfaces)) t =
     (if length interfaces = 2 then kSuccess else kUnexpectedInterfaceCount,
      t @ [Proc (Ev_stdout (rendered options (report_of iface stage device (cl_host_key_status client) interfaces)))])"
  by (simp add: finish_report_def emit_def device_report_def report_of_def rendered_def Let_def)

text \<open>The events of a command that ran on a channel of the session, ended with 0 and delivered a listing.\<close>

definition delivers_listing :: "session \<Rightarrow> string \<Rightarrow> string \<Rightarrow> event list \<Rightarrow> bool" where
  "delivers_listing s command listing es \<longleftrightarrow> (command = ''ifconfig'' \<or> command = ''ip -4 addr'') \<and> listing \<noteq> []
     \<and> (\<exists>ch. {Chan (Ev_channel_open s (Some ch)), Chan (Ev_channel_exec ch (c_str command) 0),
          Chan (Ev_channel_exit_status ch 0)} \<subseteq> set es \<and> listing = delivered ch False es)"

lemma usable_command_listing:
  assumes "execute ssh client command t = Some (r, t')" and "usable r" and "cl_session client = Some s"
    and "command = ''ifconfig'' \<or> command = ''ip -4 addr''"
  shows "\<exists>es. t' = t @ es \<and> delivers_listing s command (cmd_stdout_data r) es"
  using assms(1)
proof (cases rule: execute_cases)
  case (failed message es)
  with assms(2) show ?thesis by (simp add: usable_def fresh_command_def)
next
  case (finished s' ch es)
  have "delivers_listing s command (cmd_stdout_data r) es"
    unfolding delivers_listing_def using finished(1,5-8) assms(2-4)
    by (intro conjI exI [of _ ch]) (simp_all add: usable_def)
  with finished(2) show ?thesis by blast
qed

text \<open>The second command.\<close>

definition fallback_start :: "Options \<Rightarrow> trace \<Rightarrow> trace" where
  "fallback_start options t = snd (run_state (put_log options (''ifconfig unavailable or failed, falling back to '' @ ip_addr_quoted)) t)"

lemma fetch_listing_fallback:
  assumes "execute (w_ssh w) client ''ifconfig'' t = Some (r, t1)" and "\<not> usable r"
  shows "fetch_listing w options client t = execute (w_ssh w) client ''ip -4 addr'' (fallback_start options t1) \<bind> (\<lambda>(r', t3).
    if usable r' then Some (Some (''ip -4 addr'', cmd_stdout_data r'), t3)
    else Some (None, t3 @ [Proc (Ev_stderr (command_failure_text r))]))"
  unfolding fetch_listing_def assms(1) fallback_start_def using assms(2) by (simp add: split_beta cong: if_cong)

lemma fallback_start_adds: "\<exists>xs. fallback_start options t = t @ xs"
  using quiet_discreet [OF quiet_snd [OF emits_put(2)]] unfolding fallback_start_def by blast

lemma fetch_listing_delivers:
  assumes "fetch_listing w options client t = Some (Some (command, listing), t')" and "cl_session client = Some s"
  obtains xs ys where "t' = t @ xs @ ys" "delivers_listing s command listing ys"
proof -
  obtain r t1 where e1: "execute (w_ssh w) client ''ifconfig'' t = Some (r, t1)"
    using assms(1) by (auto simp: fetch_listing_def Option.bind_eq_Some_conv)
  show thesis
  proof (cases "usable r")
    case True
    with assms(1) e1 have "command = ''ifconfig''" "listing = cmd_stdout_data r" "t' = t1"
      by (auto simp: fetch_listing_def)
    moreover obtain ys where "t1 = t @ ys" "delivers_listing s ''ifconfig'' (cmd_stdout_data r) ys"
      using usable_command_listing [OF e1 True assms(2)] by blast
    ultimately show thesis by (intro that [of "[]" ys]) simp_all
  next
    case False
    note step = fetch_listing_fallback [OF e1 False]
    let ?t2 = "fallback_start options t1"
    obtain r' t3 where e2: "execute (w_ssh w) client ''ip -4 addr'' ?t2 = Some (r', t3)"
      using assms(1) unfolding step Option.bind_eq_Some_conv by auto
    have "usable r' \<and> command = ''ip -4 addr'' \<and> listing = cmd_stdout_data r' \<and> t' = t3"
      using assms(1) unfolding step e2 by (cases "usable r'") auto
    then have u: "usable r'" and l: "command = ''ip -4 addr''" "listing = cmd_stdout_data r'" "t' = t3" by blast+
    obtain xs where xs: "?t2 = t @ xs"
      using quiet_discreet [OF quiet_execute [OF e1]] fallback_start_adds [of options t1] by auto
    obtain ys where "t' = ?t2 @ ys" "delivers_listing s command listing ys"
      using usable_command_listing [OF e2 u assms(2)] l by blast
    with xs show thesis by (intro that [of xs ys]) simp_all
  qed
qed

lemma query_device_reports:
  assumes "query_device w options iface stage device client t = Some ((exit_code, client'), t')"
    and "reporting exit_code" and "cl_session client = Some s"
  obtains xs ys zs command listing where "delivers_listing s command listing ys"
    "t' = t @ xs @ ys @ zs @ [Proc (Ev_stdout (rendered options (report_of iface stage device (cl_host_key_status client)
       (parse_listing (os_inet (w_os w)) command listing))))]"
    "exit_code = (if length (parse_listing (os_inet (w_os w)) command listing) = 2 then kSuccess else kUnexpectedInterfaceCount)"
    "parse_listing (os_inet (w_os w)) command listing \<noteq> []" "run_state (disconnect client') t' = (client', t')"
proof -
  let ?warn = "if cl_host_key_status client \<noteq> ''match'' \<and> \<not> opt_strict_host_key options
       then put_err (put_line (''WARNING: SSH host key not verified (status: '' @ cl_host_key_status client
         @ ''); the link is trusted because it is a direct connection.''))
       else return ()"
  obtain x1 t1 where s1: "run_state ?warn t = (x1, t1)" by force
  obtain listing t2 where s2: "fetch_listing w options client t1 = Some (listing, t2)"
    using assms(1) unfolding query_device_def s1 lift_run by (auto simp: Option.bind_eq_Some_conv)
  note steps = query_device_def s1 s2 disconnect_run
  have "listing \<noteq> None"
  proof
    assume "listing = None"
    with assms(1,2) show False by (auto simp: steps reporting_def)
  qed
  then obtain command printed where l: "listing = Some (command, printed)" by auto
  define interfaces where "interfaces = parse_listing (os_inet (w_os w)) command printed"
  have ne: "interfaces \<noteq> []"
  proof
    assume "interfaces = []"
    with assms(1,2) l show False by (auto simp: steps reporting_def interfaces_def)
  qed
  obtain a where a: "t1 = t @ a" using quiet_discreet [OF quiet_if [OF s1]] by blast
  obtain xs ys where ys: "t2 = t1 @ xs @ ys" "delivers_listing s command printed ys"
    using fetch_listing_delivers [OF s2 [unfolded l] assms(3)] by blast
  have run: "exit_code = (if length interfaces = 2 then kSuccess else kUnexpectedInterfaceCount)"
    "client' = client\<lparr>cl_session := None, cl_socket := kInvalidSocket\<rparr>"
    "t' = t2 @ disconnect_events client @ [Proc (Ev_stdout (rendered options (report_of iface stage device
      (cl_host_key_status client) interfaces)))]"
    using assms(1) l ne by (simp_all add: steps finish_report_run interfaces_def [symmetric])
  then have "run_state (disconnect client') t' = (client', t')"
    by (simp add: disconnect_run disconnect_events_def)
  with run ys a ne show thesis
    by (intro that [of command printed ys "a @ xs" "disconnect_events client"]) (simp_all add: interfaces_def)
qed

section \<open>The session\<close>

definition logs_in :: "session \<Rightarrow> string \<Rightarrow> event \<Rightarrow> bool" where
  "logs_in s user e \<longleftrightarrow> (\<exists>password. e = Ssh (Ev_userauth_password s user password 0))"

definition session_at :: "Options \<Rightarrow> string \<Rightarrow> session \<Rightarrow> string \<Rightarrow> event list \<Rightarrow> bool" where
  "session_at options ip s status es \<longleftrightarrow>
     (\<exists>h. list_ex (shook_hands s h) es) \<and> list_ex (logs_in s (c_str (opt_ssh_user options))) es
   \<and> (status = ''match'' \<longrightarrow> list_ex (key_matched s (c_str ip) kSshPort) es)"

lemma session_at_grow: "session_at options ip s status es \<Longrightarrow> session_at options ip s status (xs @ es @ ys)"
  by (auto simp: session_at_def)

lemma connected_session:
  assumes "run_state (connect_and_authenticate os ssh (ssh_client (ssh_config_for options password device))) t = ((True, client), t')"
  obtains s es where "t' = t @ es" "cl_session client = Some s"
    "session_at options (pr_ip device) s (cl_host_key_status client) es"
  using assms fresh_ssh_client
proof (cases rule: connect_cases)
  case (reached s h status es)
  let ?config = "ssh_config_for options password device"
  have config: "cl_config (ssh_client ?config) = ?config" "cfg_host ?config = pr_ip device" "cfg_port ?config = kSshPort"
    "cfg_username ?config = opt_ssh_user options"
    by (simp_all add: ssh_client_def ssh_config_for_def)
  from reached(5) show thesis
  proof (cases rule: authenticate_cases)
    case (sent rc)
    then show thesis
      using reached(1)
      by (intro that [of "es @ [Ssh (Ev_userauth_password s (c_str (opt_ssh_user options)) (c_str (cfg_password ?config)) 0)]" s])
        (auto simp: config session_at_def logs_in_def at_authentication_def)
  qed simp
qed simp

lemma talk_to_device_reports:
  assumes "talk_to_device w options iface stage password device t = Some (exit_code, t')" and "reporting exit_code"
  obtains xs ys zs s status command listing where "session_at options (pr_ip device) s status xs"
    "delivers_listing s command listing ys"
    "t' = t @ xs @ ys @ zs @ [Proc (Ev_stdout (rendered options (report_of iface stage device status
       (parse_listing (os_inet (w_os w)) command listing))))]"
    "exit_code = (if length (parse_listing (os_inet (w_os w)) command listing) = 2 then kSuccess else kUnexpectedInterfaceCount)"
    "parse_listing (os_inet (w_os w)) command listing \<noteq> []"
  using assms(1)
proof (cases rule: talk_to_device_steps)
  case (refused t1 client1 t2 t3 c)
  with assms(2) show thesis by (simp add: reporting_def split: if_splits)
next
  case (connected t1 client1 t2 client2 t3 c)
  obtain a where a: "t1 = t @ a" using quiet_discreet [OF connected(1)] by blast
  obtain s es where s: "t2 = t1 @ es" "cl_session client1 = Some s" "session_at options (pr_ip device) s (cl_host_key_status client1) es"
    using connected_session [OF connected(2)] by blast
  obtain xs ys zs command listing where q: "delivers_listing s command listing ys"
    "t3 = t2 @ xs @ ys @ zs @ [Proc (Ev_stdout (rendered options (report_of iface stage device (cl_host_key_status client1)
       (parse_listing (os_inet (w_os w)) command listing))))]"
    "exit_code = (if length (parse_listing (os_inet (w_os w)) command listing) = 2 then kSuccess else kUnexpectedInterfaceCount)"
    "parse_listing (os_inet (w_os w)) command listing \<noteq> []" "run_state (disconnect client2) t3 = (client2, t3)"
    by (rule query_device_reports [OF connected(3) assms(2) s(2)])
  have "t' = t3" using q(5) connected(4) by simp
  with q(1-4) a s session_at_grow [OF s(3), of a xs] show thesis
    by (intro that [of s "cl_host_key_status client1" "a @ es @ xs" command listing ys zs]) simp_all
qed

section \<open>The interfaces\<close>

text \<open>The outputs of the commands on a device with given interfaces, in the three formats.\<close>

definition lists :: "inet_api \<Rightarrow> string \<Rightarrow> string \<Rightarrow> RemoteInterface list \<Rightarrow> bool" where
  "lists api command listing rs \<longleftrightarrow> (\<forall>r \<in> set rs. plain_interface api r)
     \<and> (command = ''ifconfig'' \<and> (listing = net_tools_text rs \<or> listing = busybox_text rs \<and> inet_text api)
       \<or> command = ''ip -4 addr'' \<and> listing = ip_addr_text rs)"

lemma parse_listing_lists:
  assumes "lists api command listing rs"
  shows "parse_listing api command listing = firsts (filter (\<lambda>r. \<not> is_loopback_interface_name (ri_name r)) rs)"
  using assms net_tools_parse [of rs api] busybox_parse [of rs api] ip_addr_parse [of rs api]
  by (auto simp: lists_def parse_listing_def)

lemma run_reports:
  assumes "run w options t = Some (Inr exit_code, t')" and "opt_mock_ifconfig_file options = []" and "reporting exit_code"
  obtains iface devices stage diagnostic u device s status command listing xs ys zs where
    "sole_candidate w options iface"
    "find_sequential w options iface (discovery_start w options iface t) = Some ((devices, stage, diagnostic), u)"
    "chosen_among options devices device"
    "t' = t @ xs @ ys @ zs @ [Proc (Ev_stdout (rendered options (report_of iface stage device status
       (parse_listing (os_inet (w_os w)) command listing))))]"
    "session_at options (pr_ip device) s status xs" "delivers_listing s command listing ys"
    "exit_code = (if length (parse_listing (os_inet (w_os w)) command listing) = 2 then kSuccess else kUnexpectedInterfaceCount)"
  using assms(1)
proof (cases rule: run_stages)
  case (reached password t1 iface devices stage diagnostic device t3 t4 e)
  have "quiet t t4" using reached(6-8) by (blast intro: quiet_trans offline_quiet)
  then obtain a where a: "t4 = t @ a" using quiet_discreet by blast
  have e: "exit_code = e" using reached(10) by simp
  obtain xs ys zs s status command listing where r: "session_at options (pr_ip device) s status xs"
    "delivers_listing s command listing ys"
    "t' = t4 @ xs @ ys @ zs @ [Proc (Ev_stdout (rendered options (report_of iface stage device status
       (parse_listing (os_inet (w_os w)) command listing))))]"
    "e = (if length (parse_listing (os_inet (w_os w)) command listing) = 2 then kSuccess else kUnexpectedInterfaceCount)"
    by (rule talk_to_device_reports [OF reached(9) assms(3) [unfolded e]])
  have x: "session_at options (pr_ip device) s status (a @ xs)" using session_at_grow [OF r(1), of a "[]"] by simp
  have t': "t' = t @ (a @ xs) @ ys @ zs @ [Proc (Ev_stdout (rendered options (report_of iface stage device status
       (parse_listing (os_inet (w_os w)) command listing))))]"
    using r(3) a by simp
  show thesis
    by (rule that [OF reached(2) reached(3) [unfolded reached(11)] reached(5) t' x r(2) r(4) [folded e]])
next
  case (undecided iface devices e)
  with assms(3) undecided_silent show thesis by auto
qed (use assms in \<open>auto simp: reporting_def\<close>)

text \<open>C2: When a run that is not in mock mode ends with 0 or 11, the last thing it did was to write the report on
the device: the only one that discovery on the only candidate interface found, or the first of several at the
address that was selected. In one session with port 22 of that device, whose handshake completed and
whose server accepted the password, a command ran to its end with status 0, and the interfaces of the
report are those parsed from all the bytes it delivered; the status of the host key is \<open>match\<close> only
if the key was found. If the device printed its interfaces in one of the three known formats, the
report holds exactly them, without loopback and duplicates. The exit code tells whether they are two.\<close>

theorem run_reports_device:
  assumes "run w options t = Some (Inr exit_code, t')" and "opt_mock_ifconfig_file options = []" and "reporting exit_code"
  shows "\<exists>iface u devices stage diagnostic device s status command listing interfaces xs ys zs.
      sole_candidate w options iface
    \<and> find_sequential w options iface (discovery_start w options iface t) = Some ((devices, stage, diagnostic), u)
    \<and> device \<in> set devices
    \<and> (devices = [device] \<or> 1 < length devices \<and> opt_select_candidate options \<noteq> []
         \<and> List.find (\<lambda>d. pr_ip d = opt_select_candidate options) devices = Some device)
    \<and> t' = t @ xs @ ys @ zs @ [Proc (Ev_stdout (rendered options (report_of iface stage device status interfaces)))]
    \<and> session_at options (pr_ip device) s status xs \<and> delivers_listing s command listing ys
    \<and> interfaces = parse_listing (os_inet (w_os w)) command listing
    \<and> (\<forall>rs. lists (os_inet (w_os w)) command listing rs \<longrightarrow>
         interfaces = firsts (filter (\<lambda>r. \<not> is_loopback_interface_name (ri_name r)) rs))
    \<and> exit_code = (if length interfaces = 2 then kSuccess else kUnexpectedInterfaceCount)"
proof (rule run_reports [OF assms])
  fix iface devices stage diagnostic u device s status command listing xs ys zs
  assume r: "sole_candidate w options iface"
    "find_sequential w options iface (discovery_start w options iface t) = Some ((devices, stage, diagnostic), u)"
    "chosen_among options devices device"
    "t' = t @ xs @ ys @ zs @ [Proc (Ev_stdout (rendered options (report_of iface stage device status
       (parse_listing (os_inet (w_os w)) command listing))))]"
    "session_at options (pr_ip device) s status xs" "delivers_listing s command listing ys"
    "exit_code = (if length (parse_listing (os_inet (w_os w)) command listing) = 2 then kSuccess else kUnexpectedInterfaceCount)"
  show ?thesis
    by (intro exI conjI) (rule r(1) r(2) chosen_among_set [OF r(3)] r(3) [unfolded chosen_among_def] r(4-7) refl
      parse_listing_lists allI impI | assumption)+
qed

section \<open>Witness\<close>

theorem run_reports_device_witness:
  "\<exists>xs ys zs iface stage device s status command listing.
     run sample_world sample_options [] = Some (Inr kSuccess, xs @ ys @ zs @ [Proc (Ev_stdout (format_json
       (report_of iface stage device status (parse_listing dotted_api command listing))))])
     \<and> sole_candidate sample_world sample_options iface \<and> session_at sample_options (pr_ip device) s status xs
     \<and> delivers_listing s command listing ys \<and> length (parse_listing dotted_api command listing) = 2"
proof -
  obtain es where r: "run sample_world sample_options [] = Some (Inr kSuccess, es)" using sample_run by blast
  have o: "opt_mock_ifconfig_file sample_options = []" "reporting kSuccess" "opt_json sample_options"
    by (simp_all add: sample_options_def default_options_def reporting_def)
  have api: "os_inet (w_os sample_world) = dotted_api" by (simp add: sample_world_def sample_os_def)
  from run_reports_device [OF r o(1,2)] obtain iface stage device s status command listing xs ys zs where
    "sole_candidate sample_world sample_options iface" "session_at sample_options (pr_ip device) s status xs"
    "delivers_listing s command listing ys"
    "es = [] @ xs @ ys @ zs @ [Proc (Ev_stdout (rendered sample_options (report_of iface stage device status
       (parse_listing dotted_api command listing))))]"
    "kSuccess = (if length (parse_listing dotted_api command listing) = 2 then kSuccess else kUnexpectedInterfaceCount)"
    unfolding api by (elim exE conjE) (erule that; simp)
  with r o(3) show ?thesis
    by (intro exI conjI) (simp_all add: rendered_def split: if_splits)
qed

end
