(* ===== verification/Confinement.thy ===== *)
theory Confinement
  imports Run_Correctness
begin

text \<open>
  What a run of \<open>src/src/main.cpp\<close> may do to the network, to the device and to its own surroundings,
  whatever these answer: the bounds that the README promises, stated for every single call.
\<close>

section \<open>Steps that may not return\<close>

definition returns :: "(trace \<Rightarrow> ('a \<times> trace) option) \<Rightarrow> 'a \<Rightarrow> bool" where
  "returns m x \<longleftrightarrow> (\<exists>t t'. m t = Some (x, t'))"

definition stays :: "(event \<Rightarrow> bool) \<Rightarrow> (trace \<Rightarrow> ('a \<times> trace) option) \<Rightarrow> bool" where
  "stays P m \<longleftrightarrow> (\<forall>t x t'. m t = Some (x, t') \<longrightarrow> adds P t t')"

lemma staysD: "stays P m \<Longrightarrow> m t = Some (x, t') \<Longrightarrow> adds P t t'"
  by (auto simp: stays_def)

lemma stays_lift: "emits P m \<Longrightarrow> stays P (lift m)"
  by (auto simp: stays_def dest: emits_run)

lemma stays_Some: "stays P (\<lambda>t. Some (x, t))"
  by (simp add: stays_def adds_refl)

lemma stays_None: "stays P (\<lambda>t. None)"
  by (simp add: stays_def)

lemma stays_bind:
  assumes "stays P m" and "\<And>x. returns m x \<Longrightarrow> stays P (k x)"
  shows "stays P (\<lambda>t. do { (x, t1) \<leftarrow> m t; k x t1 })"
  unfolding stays_def
proof (intro allI impI)
  fix t z t'
  assume "(do { (x, t1) \<leftarrow> m t; k x t1 }) = Some (z, t')"
  then obtain x t1 where m: "m t = Some (x, t1)" and k: "k x t1 = Some (z, t')"
    by (auto simp: Option.bind_eq_Some_conv)
  from m have "returns m x" by (auto simp: returns_def)
  then show "adds P t t'" by (rule adds_trans [OF staysD [OF assms(1) m] staysD [OF assms(2) k]])
qed

lemma stays_option: "(\<And>x. m = Some x \<Longrightarrow> stays P (k x)) \<Longrightarrow> stays P (\<lambda>t. m \<bind> (\<lambda>x. k x t))"
  by (cases m) (simp_all add: stays_def)

lemma stays_if: "(b \<Longrightarrow> stays P m) \<Longrightarrow> (\<not> b \<Longrightarrow> stays P k) \<Longrightarrow> stays P (\<lambda>t. if b then m t else k t)"
  by (cases b) simp_all

lemma stays_prod: "(\<And>a b. x = (a, b) \<Longrightarrow> stays P (f a b)) \<Longrightarrow> stays P (\<lambda>t. case x of (a, b) \<Rightarrow> f a b t)"
  by (cases x) simp

lemma stays_fun_prod: "(\<And>a b. x = (a, b) \<Longrightarrow> stays P (f a b)) \<Longrightarrow> stays P (case x of (a, b) \<Rightarrow> f a b)"
  by (cases x) simp

lemma stays_sum:
  "(\<And>a. x = Inl a \<Longrightarrow> stays P (f a)) \<Longrightarrow> (\<And>b. x = Inr b \<Longrightarrow> stays P (g b))
     \<Longrightarrow> stays P (\<lambda>t. case x of Inl a \<Rightarrow> f a t | Inr b \<Rightarrow> g b t)"
  by (cases x) simp_all

lemma stays_case_option:
  "(x = None \<Longrightarrow> stays P f) \<Longrightarrow> (\<And>a. x = Some a \<Longrightarrow> stays P (g a))
     \<Longrightarrow> stays P (\<lambda>t. case x of None \<Rightarrow> f t | Some a \<Rightarrow> g a t)"
  by (cases x) simp_all

lemma stays_construction:
  "(\<And>pool. x = Constructed pool \<Longrightarrow> stays P (f pool)) \<Longrightarrow> (\<And>what. x = Throws what \<Longrightarrow> stays P (g what)) \<Longrightarrow> stays P h
     \<Longrightarrow> stays P (\<lambda>t. case x of Constructed pool \<Rightarrow> f pool t | Throws what \<Rightarrow> g what t | Terminates \<Rightarrow> h t)"
  by (cases x) simp_all

lemma returns_lift: "returns (lift m) x \<Longrightarrow> \<exists>t t'. run_state m t = (x, t')"
  by (auto simp: returns_def)

lemmas stays_intros = stays_Some stays_None stays_bind stays_lift stays_if stays_fun_prod stays_prod stays_sum stays_case_option

section \<open>What a run may do\<close>

text \<open>
  The events of a run that may speak to the addresses that \<open>target\<close> allows. The timeouts are the configured
  ones, as the conversions to 32 bits leave them.
\<close>

definition means :: "world \<Rightarrow> string \<Rightarrow> u32 \<Rightarrow> bool" where
  "means w ip address \<longleftrightarrow> inet_pton (os_inet (w_os w)) (c_str ip) = Some address"

fun socket_allowed :: "world \<Rightarrow> Options \<Rightarrow> (string \<Rightarrow> bool) \<Rightarrow> sock_event \<Rightarrow> bool" where
  "socket_allowed w options target (Ev_connect h address port rc) \<longleftrightarrow>
     port = kSshPort \<and> (\<exists>ip. target ip \<and> means w ip address)"
| "socket_allowed w options target (Ev_bind h address ok) \<longleftrightarrow>
     (\<exists>iface. sole_candidate w options iface \<and> means w (ni_ipv4 iface) address)"
| "socket_allowed w options target (Ev_WSAPoll h for_write timeout rc) \<longleftrightarrow>
     (if for_write then timeout = poll_timeout (opt_auth_timeout options) else 0 \<le> timeout \<and> timeout \<le> kCapturePollSlice)"
| "socket_allowed w options target (Ev_recv h room answer) \<longleftrightarrow> room = kCaptureBufferSize"
| "socket_allowed w options target e \<longleftrightarrow> True"

fun ssh_allowed :: "world \<Rightarrow> Options \<Rightarrow> (string \<Rightarrow> bool) \<Rightarrow> ssh_event \<Rightarrow> bool" where
  "ssh_allowed w options target (Ev_session_set_timeout s ms) \<longleftrightarrow>
     ms = long_of (opt_auth_timeout options) \<or> ms = long_of (opt_command_timeout options)"
| "ssh_allowed w options target (Ev_knownhost_checkp s host port key rsa check) \<longleftrightarrow>
     port = kSshPort \<and> (\<exists>ip. target ip \<and> host = c_str ip)"
| "ssh_allowed w options target (Ev_userauth_password s user password rc) \<longleftrightarrow> user = c_str (opt_ssh_user options)"
| "ssh_allowed w options target e \<longleftrightarrow> True"

fun allowed :: "world \<Rightarrow> Options \<Rightarrow> (string \<Rightarrow> bool) \<Rightarrow> event \<Rightarrow> bool" where
  "allowed w options target (Sock e) \<longleftrightarrow> socket_allowed w options target e"
| "allowed w options target (Ssh e) \<longleftrightarrow> ssh_allowed w options target e"
| "allowed w options target (Proc (Ev_getenv var answer)) \<longleftrightarrow> var = c_str (opt_password_env options) \<or> var = ''USERPROFILE''"
| "allowed w options target (Proc e) \<longleftrightarrow> True"
| "allowed w options target (Chan (Ev_channel_exec ch command rc)) \<longleftrightarrow> command = ''ifconfig'' \<or> command = ''ip -4 addr''"
| "allowed w options target (Chan e) \<longleftrightarrow> True"

section \<open>The parts of a run\<close>

lemma put_allowed: "emits (allowed w options target) (put_err message)" "emits (allowed w options target) (put_out message)"
  "emits (allowed w options target) (put_log options message)"
  by (auto simp: put_err_def put_out_def put_log_def intro!: emits_call emits_return)

lemma log_observations_allowed: "emits (allowed w options target) (log_observations options observations)"
  by (induction observations) (auto intro!: emits_return emits_bind put_allowed)

lemma close_socket_allowed: "emits (allowed w options target) (close_socket h)"
  by (auto simp: close_socket_def intro!: emits_intros)

lemma error_text_allowed: "emits (allowed w options target) (last_socket_error os)" "emits (allowed w options target) (socket_error_text os e)"
  by (auto simp: last_socket_error_def socket_error_text_def intro!: emits_intros split: option.split)

lemma elevated_allowed: "emits (allowed w options target) (is_process_elevated os)"
  by (auto simp: is_process_elevated_def intro!: emits_intros)

lemma finish_report_allowed: "emits (allowed w options target) (finish_report options report)"
  by (auto simp: finish_report_def emit_def Let_def intro!: emits_return emits_bind put_allowed)

lemma mock_allowed: "emits (allowed w options target) (run_mock_mode w options)"
  by (auto simp: run_mock_mode_def Let_def intro!: emits_return emits_bind put_allowed finish_report_allowed split: option.split)

lemma password_allowed: "emits (allowed w options target) (resolve_password w options)"
  by (auto simp: resolve_password_def getenv_def intro!: emits_intros put_allowed)

lemma interface_allowed: "emits (allowed w options target) (select_interface w options)"
  by (auto simp: select_interface_def query_what_def Let_def
      intro!: emits_return emits_bind put_allowed error_text_allowed split: sum.split query_error.split)

lemma choose_allowed: "emits (allowed w options target) (choose_device options iface devices diagnostic)"
  by (auto simp: choose_device_def intro!: emits_return emits_bind put_allowed split: option.split)

subsection \<open>Listening\<close>

lemma slice_timeout: "0 \<le> ms \<Longrightarrow> 0 \<le> poll_timeout (min ms kCapturePollSlice) \<and> poll_timeout (min ms kCapturePollSlice) \<le> kCapturePollSlice"
  by (simp add: poll_timeout_small kCapturePollSlice_def)

lemma capture_round_allowed: "emits (allowed w options target) (capture_round os own h deadline observations)"
proof -
  have w: "emits (allowed w options target) (wait_for_socket os h False (min ms kCapturePollSlice))" if "0 \<le> ms" for ms
    using slice_timeout [OF that] by (auto simp: wait_for_socket_def intro!: emits_syscall)
  have remaining: "0 \<le> (deadline - now) div kNanosPerMilli" if "\<not> deadline \<le> now" for now
    using that by (simp add: kNanosPerMilli_def pos_imp_zdiv_nonneg_iff)
  show ?thesis
    by (auto simp: capture_round_def Let_def
        intro!: emits_return emits_bind emits_syscall w remaining error_text_allowed split: recv_result.split)
qed

lemma capture_loop_allowed: "stays (allowed w options target) (capture_loop os own h deadline observations)"
  unfolding stays_def
proof (intro allI impI)
  fix t observations' t'
  assume run: "capture_loop os own h deadline observations t = Some (observations', t')"
  have "adds (allowed w options target) t (snd (observations', t'))"
  proof (rule capture_loop.raw_induct [where P = "\<lambda>os own h deadline obs t r. adds (allowed w options target) t (snd r)", OF _ run], goal_cases)
    case (1 loop os own h deadline obs t r)
    obtain obs1 go t1 where run: "run_state (capture_round os own h deadline obs) t = ((obs1, go), t1)"
      by (metis surj_pair)
    have a: "adds (allowed w options target) t t1" by (rule emits_run [OF capture_round_allowed run])
    show ?case
    proof (cases go)
      case True
      with 1(2) have "loop os own h deadline obs1 t1 = Some r" by (simp add: run)
      from 1(1) [OF this] a show ?thesis by (rule adds_trans [rotated])
    next
      case False
      with 1(2) a show ?thesis by (auto simp: run)
    qed
  qed
  then show "adds (allowed w options target) t t'" by simp
qed

lemma open_capture_allowed:
  assumes "sole_candidate w options iface"
  shows "emits (allowed w options target) (open_capture (w_os w) iface result)"
proof -
  have b: "emits (allowed w options target) (syscall (os_bind (w_os w) h address) (Sock \<circ> Ev_bind h address))"
    if "inet_pton (os_inet (w_os w)) (c_str (ni_ipv4 iface)) = Some address" for h address
    using that assms by (intro emits_syscall) (auto simp: means_def)
  show ?thesis
    unfolding open_capture_def Let_def
    by (auto intro!: emits_return emits_bind emits_syscall emits_ensure b error_text_allowed elevated_allowed
        close_socket_allowed split: option.split)
qed

lemma capture_form:
  "capture_link_traffic os iface listen_window result t = do {
     (opened, t1) \<leftarrow> lift (open_capture os iface result) t;
     case opened of
       Inl failed \<Rightarrow> Some (failed, t1)
     | Inr handle \<Rightarrow> do {
         (now, t2) \<leftarrow> lift (syscall (os_now os) (Proc \<circ> Ev_now)) t1;
         (observations, t3) \<leftarrow> capture_loop os (ni_ipv4 iface) handle (now + listen_window * kNanosPerMilli) (l2_observations result) t2;
         (_, t4) \<leftarrow> lift (close_socket handle) t3;
         Some (result\<lparr>l2_observations := observations\<rparr>, t4)
       }
   }"
  by (auto simp: capture_link_traffic_def split_beta split: sum.split option.split)

lemma discovery_form:
  "discover_link_layer_hosts os table iface listen_window t = do {
     (cached, t1) \<leftarrow> lift (read_neighbour_cache os table (ni_if_index iface)) t;
     (result, t2) \<leftarrow> capture_link_traffic os iface listen_window \<lparr>l2_observations = add_cached (os_inet os) iface [] cached,
                    l2_permission_denied = False, l2_error = []\<rparr> t1;
     (cached', t3) \<leftarrow> lift (read_neighbour_cache os table (ni_if_index iface)) t2;
     Some (finish_discovery iface (result\<lparr>l2_observations := add_cached (os_inet os) iface (l2_observations result) cached'\<rparr>), t3)
   }"
  by (auto simp: discover_link_layer_hosts_def split_beta split: option.split)

lemma discovery_allowed:
  assumes "sole_candidate w options iface"
  shows "stays (allowed w options target) (discover_link_layer_hosts (w_os w) table iface listen_window)"
proof -
  have c: "stays (allowed w options target) (capture_link_traffic (w_os w) iface listen_window result)" for result
    unfolding capture_form [abs_def]
    by (intro stays_intros open_capture_allowed [OF assms] capture_loop_allowed close_socket_allowed emits_syscall) simp_all
  have n: "emits (allowed w options target) (read_neighbour_cache (w_os w) table if_index)" for if_index
    by (auto simp: read_neighbour_cache_def intro!: emits_intros split: option.split)
  show ?thesis
    unfolding discovery_form [abs_def] by (intro stays_intros c n)
qed

subsection \<open>The dialogue with the device\<close>

text \<open>No step changes the configuration of a client.\<close>

definition yields :: "('a \<Rightarrow> bool) \<Rightarrow> 'a io \<Rightarrow> bool" where
  "yields Q m \<longleftrightarrow> (\<forall>t. Q (fst (run_state m t)))"

lemma yields_return: "Q x \<Longrightarrow> yields Q (return x)"
  by (simp add: yields_def)

lemma yields_bind: "(\<And>x. yields Q (k x)) \<Longrightarrow> yields Q (m \<bind> k)"
  by (simp add: yields_def split_beta)

lemma yields_run: "yields Q m \<Longrightarrow> run_state m t = (x, t') \<Longrightarrow> Q x"
  by (metis yields_def fst_conv)

lemma fail_connect_config: "cl_config client = config \<Longrightarrow> yields (\<lambda>(ok, c). cl_config c = config) (fail_connect message client)"
  by (simp add: yields_def fail_connect_run)

lemma connect_config: "yields (\<lambda>(ok, c). cl_config c = cl_config client) (connect_and_authenticate os ssh client)"
  by (auto simp: connect_and_authenticate_def open_session_def start_session_def authenticate_def Let_def
      intro!: yields_return yields_bind fail_connect_config split: option.split)

lemma disconnect_allowed: "emits (allowed w options target) (disconnect client)"
  by (auto simp: disconnect_def intro!: emits_return emits_bind emits_call close_socket_allowed split: option.split)

lemma fail_connect_allowed: "emits (allowed w options target) (fail_connect message client)"
  by (auto simp: fail_connect_def intro!: emits_return emits_bind disconnect_allowed)

lemma library_text_allowed: "emits (allowed w options target) (libssh2_error_text ssh session fallback)"
  by (auto simp: libssh2_error_text_def intro!: emits_intros split: option.split)

lemma tcp_connect_allowed:
  assumes "target ip"
  shows "emits (allowed w options target) (tcp_connect (w_os w) ip kSshPort (opt_auth_timeout options))"
proof -
  have "emits (allowed w options target) (await_connection (w_os w) h (opt_auth_timeout options))" for h
    by (auto simp: await_connection_def wait_for_socket_def intro!: emits_intros close_socket_allowed)
  then show ?thesis
    by (auto simp: tcp_connect_def set_non_blocking_def means_def
        intro!: exI [of _ ip] assms emits_return emits_bind emits_syscall emits_ensure error_text_allowed close_socket_allowed split: option.split)
qed

lemma connect_allowed:
  assumes "target (pr_ip device)"
  shows "emits (allowed w options target) (connect_and_authenticate (w_os w) (w_ssh w) (ssh_client (ssh_config_for options password device)))"
proof -
  let ?config = "ssh_config_for options password device"
  have config: "cfg_host ?config = pr_ip device" "cfg_port ?config = kSshPort" "cfg_username ?config = opt_ssh_user options"
    "cfg_connect_timeout ?config = opt_auth_timeout options" "cfg_auth_timeout ?config = opt_auth_timeout options"
    by (simp_all add: ssh_config_for_def)
  have "emits (allowed w options target) (verify_host_key (w_os w) (w_ssh w) ?config s)" for s
    using assms
    by (auto simp: verify_host_key_def default_known_hosts_path_def getenv_def config Let_def
        intro!: exI [of _ "pr_ip device"] emits_intros emits_call split: option.split)
  then have start: "emits (allowed w options target) (start_session (w_os w) (w_ssh w) s client)" if "cl_config client = ?config" for s client
    by (auto simp: start_session_def authenticate_def that config Let_def
        intro!: emits_intros emits_call fail_connect_allowed library_text_allowed)
  have "emits (allowed w options target) (open_session (w_os w) (w_ssh w) client)" if "cl_config client = ?config" for client
    by (auto simp: open_session_def that
        intro!: emits_return emits_bind emits_syscall fail_connect_allowed error_text_allowed start split: option.split)
  then show ?thesis
    by (auto simp: connect_and_authenticate_def ensure_libssh2_initialised_def ssh_client_def config
        intro!: emits_intros tcp_connect_allowed [where target = target, OF assms] split: option.split)
qed

lemma read_loop_allowed: "stays (allowed w options target) (read_loop ssh ch from_stderr [])"
  unfolding stays_def
proof (intro allI impI)
  fix t data t'
  assume "read_loop ssh ch from_stderr [] t = Some (data, t')"
  from read_loop_effect [OF this] obtain es where "t' = t @ es" "list_all (reads_of ch from_stderr) es"
    by (auto simp: loop_effect_def)
  moreover have "reads_of ch from_stderr e \<Longrightarrow> allowed w options target e \<and> steady e" for e
    by (auto simp: reads_of_def)
  ultimately show "adds (allowed w options target) t t'" by (auto simp: adds_def list_all_iff)
qed

lemma collect_form:
  "collect_output ssh ch t = do {
     (out, t1) \<leftarrow> read_loop ssh ch False [] t;
     (err, t2) \<leftarrow> read_loop ssh ch True [] t1;
     (_, t3) \<leftarrow> lift (call (Chan (Ev_channel_close ch))) t2;
     (status, t4) \<leftarrow> lift (syscall (ls_channel_exit_status ssh ch) (Chan \<circ> Ev_channel_exit_status ch)) t3;
     (_, t5) \<leftarrow> lift (call (Chan (Ev_channel_free ch))) t4;
     Some (\<lparr>cmd_ok = True, cmd_exit_code = status, cmd_stdout_data = out, cmd_stderr_data = err, cmd_error = []\<rparr>, t5)
   }"
  by (simp add: collect_output_def split_beta)

lemma execute_form:
  "execute ssh client command t = do {
     (started, t1) \<leftarrow> lift (start_command ssh client command) t;
     case started of Inl result \<Rightarrow> Some (result, t1) | Inr ch \<Rightarrow> collect_output ssh ch t1
   }"
  by (simp add: execute_def split_beta split: sum.split)

lemma execute_allowed:
  assumes "cfg_command_timeout (cl_config client) = opt_command_timeout options"
    and "c_str command = ''ifconfig'' \<or> c_str command = ''ip -4 addr''"
  shows "stays (allowed w options target) (execute ssh client command)"
proof -
  have s: "emits (allowed w options target) (start_command ssh client command)"
    using assms(2)
    by (auto simp: start_command_def assms(1) intro!: emits_intros emits_call library_text_allowed split: option.split)
  have c: "stays (allowed w options target) (collect_output ssh ch)" for ch
    unfolding collect_form [abs_def] by (intro stays_intros read_loop_allowed emits_call emits_syscall) simp_all
  show ?thesis
    unfolding execute_form [abs_def] by (intro stays_intros s c)
qed

lemma fetch_listing_allowed:
  assumes "cfg_command_timeout (cl_config client) = opt_command_timeout options"
  shows "stays (allowed w options target) (fetch_listing w options client)"
proof -
  have c: "c_str ''ifconfig'' = ''ifconfig''" "c_str ''ip -4 addr'' = ''ip -4 addr''" by code_simp+
  show ?thesis
    unfolding fetch_listing_def [abs_def]
    by (intro stays_intros execute_allowed assms put_allowed) (simp_all only: c simp_thms)
qed

lemma query_device_allowed:
  assumes "cfg_command_timeout (cl_config client) = opt_command_timeout options"
  shows "stays (allowed w options target) (query_device w options iface stage device client)"
  unfolding query_device_def [abs_def] Let_def
  by (intro stays_intros emits_if put_allowed emits_return fetch_listing_allowed assms disconnect_allowed finish_report_allowed)

lemma talk_to_device_allowed:
  assumes "target (pr_ip device)"
  shows "stays (allowed w options target) (talk_to_device w options iface stage password device)"
proof -
  let ?client = "ssh_client (ssh_config_for options password device)"
  have "cfg_command_timeout (cl_config client) = opt_command_timeout options"
    if "returns (lift (connect_and_authenticate (w_os w) (w_ssh w) ?client)) (ok, client)" for ok client
    using returns_lift [OF that] yields_run [OF connect_config, of "w_os w" "w_ssh w" ?client]
    by (auto simp: ssh_client_def ssh_config_for_def)
  then show ?thesis
    unfolding talk_to_device_def [abs_def] Let_def
    by (intro stays_intros put_allowed connect_allowed assms query_device_allowed disconnect_allowed)
      (simp_all del: lift_run)
qed

section \<open>The run\<close>

lemma stage_a_allowed: "stays (allowed w options target) (stage_a_subnet_scan w options iface pool)"
  unfolding stage_a_subnet_scan_def [abs_def] Let_def
  by (intro stays_intros stays_option put_allowed)

lemma stage_b_allowed:
  assumes "sole_candidate w options iface"
  shows "stays (allowed w options target) (stage_b_layer2 w options iface pool diagnostic)"
  unfolding stage_b_layer2_def [abs_def]
  by (intro stays_intros stays_option emits_if put_allowed emits_return elevated_allowed discovery_allowed assms
      log_observations_allowed)

lemma find_devices_allowed:
  assumes "sole_candidate w options iface"
  shows "stays (allowed w options target) (find_devices w options iface pool)"
  unfolding find_devices_def [abs_def]
  by (intro stays_intros stays_option stage_a_allowed stage_b_allowed assms)

lemma run_with_pool_allowed:
  assumes "run_with_pool w options password iface (full_pool options) t = Some (exit_code, t')" and "sole_candidate w options iface"
    and "\<And>devices stage diagnostic u device. find_sequential w options iface t = Some ((devices, stage, diagnostic), u)
      \<Longrightarrow> chosen_among options devices device \<Longrightarrow> target (pr_ip device)"
  shows "adds (allowed w options target) t t'"
proof -
  from assms(1) obtain devices stage diagnostic t4 where
    f: "find_devices w options iface (full_pool options) t = Some ((devices, stage, diagnostic), t4)"
    by (auto simp: run_with_pool_def Option.bind_eq_Some_conv)
  obtain chosen t5 where c: "run_state (choose_device options iface devices diagnostic) t4 = (chosen, t5)" by force
  have rest: "case chosen of Inl e \<Rightarrow> t' = t5 \<and> exit_code = e
      | Inr device \<Rightarrow> talk_to_device w options iface stage password device t5 = Some (exit_code, t')"
    using assms(1) by (auto simp: run_with_pool_def f c split: sum.splits)
  have a: "adds (allowed w options target) t t5"
    by (rule adds_trans [OF staysD [OF find_devices_allowed [OF assms(2)] f] emits_run [OF choose_allowed c]])
  show ?thesis
  proof (cases chosen)
    case (Inl e)
    with rest a show ?thesis by simp
  next
    case (Inr device)
    have "target (pr_ip device)"
      by (rule assms(3) [OF find_devices_refines [OF f]]) (use choose_device_cases [OF c [unfolded Inr]] in simp)
    from staysD [OF talk_to_device_allowed [where target = target, OF this]] rest Inr have "adds (allowed w options target) t5 t'" by simp
    with a show ?thesis by (rule adds_trans)
  qed
qed

lemma run_discovery_allowed:
  assumes "run_discovery w options password iface t = Some (result, t')" and "sole_candidate w options iface"
    and "\<And>devices stage diagnostic u device. find_sequential w options iface (snd (run_state (interface_log options iface) t))
      = Some ((devices, stage, diagnostic), u) \<Longrightarrow> chosen_among options devices device \<Longrightarrow> target (pr_ip device)"
  shows "adds (allowed w options target) t t'"
proof -
  define t3 where "t3 = snd (run_state (interface_log options iface) t)"
  have a: "adds (allowed w options target) t t3"
    using put_allowed(3) unfolding t3_def interface_log_def emits_def by blast
  note run = assms(1) [unfolded run_discovery_def lift_run split_beta Option.bind.simps interface_log_def [symmetric] t3_def [symmetric]]
  show ?thesis
  proof (cases "construct_pool (w_thread_failure w) (unat (opt_threads options)) :: devices_pool construction")
    case (Throws what)
    with run a show ?thesis by simp
  next
    case Terminates
    with run show ?thesis by simp
  next
    case (Constructed pool)
    then have "pool = full_pool options" by (rule construct_pool_Constructed)
    with run Constructed obtain exit_code where
      r: "run_with_pool w options password iface (full_pool options) t3 = Some (exit_code, t')"
      by (auto simp: Option.bind_eq_Some_conv)
    show ?thesis
      by (rule adds_trans [OF a run_with_pool_allowed [OF r assms(2)]]) (rule assms(3) [folded t3_def])
  qed
qed

text \<open>The address of the device that discovery found, and that the run chose.\<close>

abbreviation chosen_address :: "world \<Rightarrow> Options \<Rightarrow> trace \<Rightarrow> string \<Rightarrow> bool" where
  "chosen_address w options t ip \<equiv> (\<exists>iface device. chosen_device w options t iface device \<and> pr_ip device = ip)"

lemma run_allowed:
  assumes "run w options t = Some (result, t')"
  shows "adds (allowed w options (chosen_address w options t)) t t'"
proof (cases "opt_mock_ifconfig_file options = []")
  case False
  with assms have "t' = snd (run_state (run_mock_mode w options) t)" by (auto simp: run_def split_beta)
  with mock_allowed show ?thesis by (simp add: emits_def)
next
  case True
  obtain p t1 where p: "run_state (resolve_password w options) t = (p, t1)" by force
  note a1 = emits_run [OF password_allowed p]
  show ?thesis
  proof (cases p)
    case (Inl e)
    with True assms p show ?thesis using a1 by (auto simp: run_def)
  next
    case (Inr password)
    obtain sel t2 where s: "run_state (select_interface w options) t1 = (sel, t2)" by force
    have a2: "adds (allowed w options target) t t2" for target by (rule adds_trans [OF a1 emits_run [OF interface_allowed s]])
    have run: "run w options t = (case sel of
        Inl (Inl what) \<Rightarrow> Some (Inl what, t2)
      | Inl (Inr exit_code) \<Rightarrow> Some (Inr exit_code, t2)
      | Inr iface \<Rightarrow> run_discovery w options password iface t2)"
      using True p Inr s by (simp add: run_def)
    show ?thesis
    proof (cases sel)
      case (Inl e)
      with assms run a2 show ?thesis by (cases e) auto
    next
      case (Inr iface)
      have sole: "sole_candidate w options iface" using s Inr by (auto elim: select_interface_cases)
      have start: "snd (run_state (interface_log options iface) t2) = discovery_start w options iface t"
        by (simp only: discovery_start_def p s snd_conv)
      have "run_discovery w options password iface t2 = Some (result, t')" using assms run Inr by simp
      then have "adds (allowed w options (chosen_address w options t)) t2 t'"
        by (rule run_discovery_allowed [OF _ sole]) (unfold start chosen_device_def finds_def, use sole in blast)
      with a2 show ?thesis by (rule adds_trans)
    qed
  qed
qed

text \<open>The waits, when the options fit into the 31 bits of a positive timeout.\<close>

fun bounded_wait :: "Options \<Rightarrow> event \<Rightarrow> bool" where
  "bounded_wait options (Sock (Ev_WSAPoll h for_write timeout rc)) \<longleftrightarrow>
     0 \<le> timeout \<and> timeout \<le> (if for_write then opt_auth_timeout options else 200)"
| "bounded_wait options (Ssh (Ev_session_set_timeout s ms)) \<longleftrightarrow>
     0 < ms \<and> (ms = opt_auth_timeout options \<or> ms = opt_command_timeout options)"
| "bounded_wait options e \<longleftrightarrow> True"

lemma long_of_small: "0 \<le> t \<Longrightarrow> t < 2 ^ 31 \<Longrightarrow> long_of t = t"
  by (simp add: long_of_def signed_of_int signed_take_bit_int_eq_self)

lemma allowed_bounded:
  assumes "0 < opt_auth_timeout options" "opt_auth_timeout options < 2 ^ 31"
    and "0 < opt_command_timeout options" "opt_command_timeout options < 2 ^ 31"
    and "allowed w options target e"
  shows "bounded_wait options e"
proof -
  have "poll_timeout (opt_auth_timeout options) = opt_auth_timeout options"
    "long_of (opt_auth_timeout options) = opt_auth_timeout options"
    "long_of (opt_command_timeout options) = opt_command_timeout options"
    using assms(1-4) by (simp_all add: poll_timeout_small long_of_small)
  with assms show ?thesis
    by (cases "(options, e)" rule: bounded_wait.cases) (auto simp: kCapturePollSlice_def split: if_splits)
qed

section \<open>The probes\<close>

fun probing :: "inet_api \<Rightarrow> string \<Rightarrow> event \<Rightarrow> bool" where
  "probing api ip (Sock (Ev_connect h address port rc)) \<longleftrightarrow> port = kSshPort \<and> inet_pton api (c_str ip) = Some address"
| "probing api ip (Sock (Ev_socket kind h)) \<longleftrightarrow> kind = Sock_stream"
| "probing api ip (Sock (Ev_recv h room answer)) \<longleftrightarrow> room = 128"
| "probing api ip (Sock (Ev_bind h address ok)) \<longleftrightarrow> False"
| "probing api ip (Sock (Ev_SIO_RCVALL h ok)) \<longleftrightarrow> False"
| "probing api ip (Sock e) \<longleftrightarrow> True"
| "probing api ip (Proc (Ev_now now)) \<longleftrightarrow> True"
| "probing api ip e \<longleftrightarrow> False"

lemma read_ssh_banner_probing: "emits (probing api ip) (read_ssh_banner os h ip timeout)"
  unfolding emits_def
proof
  fix t
  from surjective_pairing obtain start rounds es b where
    l: "loop_spec os h (start + timeout * kNanosPerMilli) [] (t @ [Proc (Ev_now start)]) b
          (snd (run_state (read_ssh_banner os h ip timeout) t)) rounds es"
    by (rule read_ssh_banner_run)
  have "list_all steady (concat (map (round_events h d) rounds)) \<and> list_all (probing api ip) (concat (map (round_events h d) rounds))" for d
    by (induction rounds) (auto simp: round_events_def wait_event_def)
  moreover have "list_all steady es \<and> list_all (probing api ip) es"
    using l by (auto simp: loop_spec_def last_round_def wait_event_def)
  ultimately show "adds (probing api ip) t (snd (run_state (read_ssh_banner os h ip timeout) t))"
    using l by (simp add: loop_spec_def adds_def)
qed

lemma probe_ssh_probing: "emits (probing (os_inet os) ip) (probe_ssh os ip kSshPort connect_timeout banner_timeout)"
proof -
  have "emits (probing (os_inet os) ip) (close_socket h)" for h
    by (auto simp: close_socket_def intro!: emits_intros)
  moreover have "emits (probing (os_inet os) ip) (tcp_connect os ip kSshPort connect_timeout)"
    by (auto simp: tcp_connect_def set_non_blocking_def last_socket_error_def await_connection_def
        wait_for_socket_def close_socket_def split_beta intro!: emits_intros emits_ensure split: option.split)
  ultimately show ?thesis
    by (auto simp: probe_ssh_def intro!: emits_return emits_bind read_ssh_banner_probing split: prod.split)
qed

section \<open>Confinement\<close>

definition prints :: "event \<Rightarrow> bool" where
  "prints e \<longleftrightarrow> (\<exists>message. e = Proc (Ev_stdout message) \<or> e = Proc (Ev_stderr message))"

lemma mock_prints: "emits prints (run_mock_mode w options)"
  by (auto simp: run_mock_mode_def finish_report_def emit_def put_err_def put_out_def prints_def Let_def
      intro!: emits_return emits_bind emits_call split: option.split)

text \<open>C5: A run keeps within its bounds, whatever the network, the device and the libraries answer. It connects
only to port 22 of the device that it chose among those that discovery found on the only candidate interface, binds
a socket only to the own address of that interface, reads no environment variable but the one for the password
and \<open>USERPROFILE\<close>, looks up the key of that device only and logs in only as the configured user,
and runs no command but \<open>ifconfig\<close> and \<open>ip -4 addr\<close>. If the timeouts for the
authentication and the commands are below \<open>2^31\<close> ms, it polls for the connection no longer than the first,
for a packet no longer than 200 ms, and the limits that it gives to libssh2 are positive and one of
the two. In mock mode it only prints. The probes of the worker threads connect only to port 22 of their
address and read at most 128 bytes at a time.\<close>

theorem run_confined:
  assumes "run w options t = Some (result, t')"
  shows "\<exists>es. t' = t @ es
    \<and> list_all (allowed w options (\<lambda>ip. \<exists>iface device. chosen_device w options t iface device \<and> pr_ip device = ip)) es
    \<and> (0 < opt_auth_timeout options \<and> opt_auth_timeout options < 2 ^ 31
       \<and> 0 < opt_command_timeout options \<and> opt_command_timeout options < 2 ^ 31 \<longrightarrow> list_all (bounded_wait options) es)
    \<and> (opt_mock_ifconfig_file options \<noteq> [] \<longrightarrow> list_all prints es)
    \<and> (\<forall>ip u. \<exists>ps. snd (run_state (probe_ssh (w_os w) ip kSshPort (opt_connect_timeout options) (opt_banner_timeout options)) u)
          = u @ ps \<and> list_all (probing (os_inet (w_os w)) ip) ps)"
proof -
  obtain es where es: "t' = t @ es" "list_all (allowed w options (chosen_address w options t)) es"
    using adds_events [OF run_allowed [OF assms]] by blast
  have "list_all (bounded_wait options) es"
    if "0 < opt_auth_timeout options" "opt_auth_timeout options < 2 ^ 31"
      "0 < opt_command_timeout options" "opt_command_timeout options < 2 ^ 31"
    using es(2) allowed_bounded [OF that] by (auto simp: list_all_iff)
  moreover have "list_all prints es" if "opt_mock_ifconfig_file options \<noteq> []"
  proof -
    from assms that have "t' = snd (run_state (run_mock_mode w options) t)"
      by (auto simp: run_def split_beta)
    with mock_prints [of w options] have "adds prints t t'" by (simp add: emits_def)
    with es(1) show ?thesis by (auto simp: adds_def)
  qed
  moreover have "\<exists>ps. snd (run_state (probe_ssh (w_os w) ip kSshPort (opt_connect_timeout options) (opt_banner_timeout options)) u)
      = u @ ps \<and> list_all (probing (os_inet (w_os w)) ip) ps" for ip u
    using probe_ssh_probing by (intro adds_events) (simp add: emits_def)
  ultimately show ?thesis using es by blast
qed

theorem run_confined_witness:
  "\<exists>es. run sample_world sample_options [] = Some (Inr kSuccess, es) \<and> filter sends_password es \<noteq> []
     \<and> list_all (bounded_wait sample_options) es
     \<and> list_all (allowed sample_world sample_options
         (\<lambda>ip. \<exists>iface device. chosen_device sample_world sample_options [] iface device \<and> pr_ip device = ip)) es"
proof -
  obtain es where "run sample_world sample_options [] = Some (Inr kSuccess, es)" "filter sends_password es \<noteq> []"
    using sample_run by blast
  moreover have "0 < opt_auth_timeout sample_options" "opt_auth_timeout sample_options < 2 ^ 31"
    "0 < opt_command_timeout sample_options" "opt_command_timeout sample_options < 2 ^ 31"
    by (simp_all add: sample_options_def default_options_def kSshAuthTimeout_def kSshCommandTimeout_def)
  ultimately show ?thesis using run_confined [of sample_world sample_options "[]" "Inr kSuccess" es] by auto
qed

end
