(* ===== verification/Thread_Failures.thy ===== *)
theory Thread_Failures
  imports Run_Correctness
begin

text \<open>
  What becomes of a run of \<open>src/src/main.cpp\<close> when the system cannot start all the worker threads
  that the options ask for (1024 at most): \<open>ThreadPool::ThreadPool\<close> has no handler for the exception
  of \<open>std::thread\<close>.
\<close>

lemma run_at_pool:
  assumes "opt_mock_ifconfig_file options = []"
    and "run_state (resolve_password w options) t = (Inr password, t1)"
    and "run_state (select_interface w options) t1 = (Inr iface, t2)"
  shows "run w options t = (case construct_pool (w_thread_failure w) (unat (opt_threads options)) of
      Terminates \<Rightarrow> None
    | Throws what \<Rightarrow> Some (Inl what, snd (run_state (interface_log options iface) t2))
    | Constructed pool \<Rightarrow> map_option (apfst Inr)
        (run_with_pool w options password iface pool (snd (run_state (interface_log options iface) t2))))"
proof -
  have map: "do { (exit_code, t2) \<leftarrow> m; Some (Inr exit_code, t2) } = map_option (apfst Inr) m"
    for m :: "(ExitCode \<times> trace) option"
    by (cases m) auto
  have "run w options t = run_discovery w options password iface t2"
    using assms by (simp add: run_def)
  then show ?thesis
    unfolding run_discovery_def lift_run split_beta Option.bind.simps interface_log_def [symmetric]
    by (simp add: map [unfolded split_beta] split: construction.split)
qed

lemma run_at_pool_failing:
  assumes "opt_mock_ifconfig_file options = []"
    and "run_state (resolve_password w options) t = (Inr password, t1)"
    and "run_state (select_interface w options) t1 = (Inr iface, t2)"
    and "\<not> workers_start w options"
  shows "run w options t = (case w_thread_failure w 0 of None \<Rightarrow> None
    | Some what \<Rightarrow> Some (Inl what, snd (run_state (interface_log options iface) t2)))"
  unfolding run_at_pool [OF assms(1-3)] construct_pool_result workers_start_def [symmetric]
  using assms(4) by (simp split: option.split)

text \<open>C10: When the worker threads cannot all be started, the outcome depends on which one fails. The first: its
exception ends the program with 5, the code for a missing device, and an error message. A later one: the
process is terminated in the constructor of the pool, without a message or an exit code of the program.
Only when all of them start the pool is in its initial state and discovery begins.\<close>

theorem thread_start_failure:
  assumes "parse_options args default_options = Inr options" and "opt_mock_ifconfig_file options = []"
    and "os_WSAStartup (w_os w) []"
    and "run_state (resolve_password w options) [Sock (Ev_WSAStartup True)] = (Inr password, t1)"
    and "run_state (select_interface w options) t1 = (Inr iface, t2)"
  shows "case construct_pool (w_thread_failure w) (unat (opt_threads options)) of
      Constructed pool \<Rightarrow> workers_start w options \<and> pool = full_pool options
    | Throws what \<Rightarrow> w_thread_failure w 0 = Some what \<and> main w args [] =
        Some (kNoDevice, snd (run_state (interface_log options iface) t2) @ [Proc (Ev_stderr (put_line (''Error: '' @ what)))])
    | Terminates \<Rightarrow> w_thread_failure w 0 = None \<and> \<not> workers_start w options \<and> main w args [] = None"
proof -
  have main: "main w args [] = (case run w options [Sock (Ev_WSAStartup True)] of None \<Rightarrow> None
      | Some (Inl what, u) \<Rightarrow> Some (kNoDevice, u @ [Proc (Ev_stderr (put_line (''Error: '' @ what)))])
      | Some (Inr exit_code, u) \<Rightarrow> Some (exit_code, u))"
    using assms(1,3)
    by (simp add: main_def ensure_winsock_initialised_def bind_eq_None_conv split: option.split sum.split prod.split)
  show ?thesis
  proof (cases "construct_pool (w_thread_failure w) (unat (opt_threads options)) :: devices_pool construction")
    case (Constructed pool)
    then show ?thesis
      by (auto simp: construct_pool_result workers_start_def split: if_splits option.splits)
  next
    case (Throws what)
    then have "\<not> workers_start w options" "w_thread_failure w 0 = Some what"
      by (auto simp: construct_pool_result workers_start_def split: if_splits option.splits)
    with Throws run_at_pool_failing [OF assms(2,4,5)] show ?thesis unfolding main by simp
  next
    case Terminates
    then have "\<not> workers_start w options" "w_thread_failure w 0 = None"
      by (auto simp: construct_pool_result workers_start_def split: if_splits option.splits)
    with Terminates run_at_pool_failing [OF assms(2,4,5)] show ?thesis unfolding main by simp
  qed
qed

section \<open>Witness\<close>

text \<open>A system that starts \<open>n\<close> threads only, and a command line that asks for two.\<close>

definition limited_world :: "nat \<Rightarrow> world" where
  "limited_world n = sample_world\<lparr>w_thread_failure := \<lambda>i. if i < n then None else Some ''resource unavailable''\<rparr>"

definition two_threads :: "string list" where
  "two_threads = [''--threads'', ''2'', ''--ssh-password'', ''secret'']"

theorem thread_start_failure_witness:
  "main (limited_world 1) two_threads [] = None
   \<and> (\<exists>t'. main (limited_world 0) two_threads [] = Some (kNoDevice, t' @ [Proc (Ev_stderr (put_line ''Error: resource unavailable''))]))"
proof -
  define options where "options = (case parse_options two_threads default_options of Inr options \<Rightarrow> options)"
  have o: "parse_options two_threads default_options = Inr options" "opt_mock_ifconfig_file options = []"
    unfolding options_def by code_simp+
  have s: "os_WSAStartup (w_os (limited_world n)) []" for n
    by (simp add: limited_world_def sample_world_def sample_os_def)
  have p: "run_state (resolve_password (limited_world n) options) [Sock (Ev_WSAStartup True)] = (Inr ''secret'', [Sock (Ev_WSAStartup True)])"
    if "n \<in> {0, 1}" for n
    using that unfolding options_def by (elim insertE emptyE; hypsubst) code_simp+
  have i: "run_state (select_interface (limited_world n) options) [Sock (Ev_WSAStartup True)]
      = (Inr (sample_eth\<lparr>ni_mac := ''00:0c:29:4a:1b:2c''\<rparr>), [Sock (Ev_WSAStartup True)])"
    if "n \<in> {0, 1}" for n
    using that unfolding options_def by (elim insertE emptyE; hypsubst) code_simp+
  have "construct_pool (w_thread_failure (limited_world 1)) (unat (opt_threads options)) = (Terminates :: devices_pool construction)"
    "construct_pool (w_thread_failure (limited_world 0)) (unat (opt_threads options))
      = (Throws ''resource unavailable'' :: devices_pool construction)"
    unfolding options_def by code_simp+
  with thread_start_failure [OF o s p i, of 0] thread_start_failure [OF o s p i, of 1] show ?thesis by auto
qed

end
