(* ===== verification/Mock_Mode.thy ===== *)
theory Mock_Mode
  imports Run_Correctness
begin

text \<open>
  What the mock mode of \<open>src/src/main.cpp\<close> reports for files in the layouts of
  \<open>ifconfig\<close> and \<open>ip -4 addr\<close>.
\<close>

lemma run_mock:
  assumes "opt_mock_ifconfig_file options \<noteq> []" and "read_file w (opt_mock_ifconfig_file options) = Some contents"
    and "mock_interfaces (os_inet (w_os w)) contents = interfaces" and "interfaces \<noteq> []"
  shows "run w options t =
    (let report = empty_report\<lparr>rep_discovery_stage := ''mock'', rep_interfaces := interfaces,
         rep_warnings := if length interfaces = 2 then []
           else [''expected two network interfaces but found '' @ size_text interfaces]\<rparr>
     in Some (Inr (if length interfaces = 2 then kSuccess else kUnexpectedInterfaceCount),
          t @ [Proc (Ev_stdout (if opt_json options then format_json report else format_text report))]))"
proof -
  have "run w options t = lift (run_mock_mode w options \<bind> (\<lambda>exit_code. return (Inr exit_code))) t"
    using assms(1) by (simp add: run_def)
  also have "run_mock_mode w options = finish_report options (empty_report\<lparr>rep_discovery_stage := ''mock'', rep_interfaces := interfaces\<rparr>)"
    using assms by (simp add: run_mock_mode_def)
  finally show ?thesis
    by (auto simp: finish_report_def Let_def emit_def empty_report_def)
qed

lemma read_file_text:
  assumes "w_file w (c_str path) \<in> {Some contents, Some (crlf contents)}" and "clean_text contents"
  shows "read_file w path = Some contents"
  using assms text_mode_clean text_mode_crlf by (auto simp: read_file_def)

text \<open>C19: Mock mode on a file in the net-tools layout, with either kind of line ends, reports exactly the interfaces the file lists, without
loopback and duplicates, with exit code 0 when there are two of them and a warning and exit code 11
otherwise.\<close>

theorem mock_mode_reports_file:
  assumes "list_all (file_interface (os_inet (w_os w))) rs"
    and "opt_mock_ifconfig_file options \<noteq> []" and "w_file w (c_str (opt_mock_ifconfig_file options)) \<in> {Some (net_tools_text rs), Some (crlf (net_tools_text rs))}"
    and "firsts (filter (\<lambda>r. \<not> is_loopback_interface_name (ri_name r)) rs) = interfaces" and "interfaces \<noteq> []"
  shows "\<exists>report. run w options t = Some (Inr (if length interfaces = 2 then kSuccess else kUnexpectedInterfaceCount),
        t @ [Proc (Ev_stdout (if opt_json options then format_json report else format_text report))])
    \<and> rep_interfaces report = interfaces \<and> (rep_warnings report = [] \<longleftrightarrow> length interfaces = 2)"
proof -
  have "mock_interfaces (os_inet (w_os w)) (net_tools_text rs) = interfaces"
    using net_tools_parse [of rs "os_inet (w_os w)"] assms(1,4,5)
    by (simp add: mock_interfaces_def list_all_iff file_interface_def)
  from run_mock [OF assms(2) read_file_text [OF assms(3) file_texts_clean(1) [OF assms(1)]] this assms(5)] show ?thesis unfolding Let_def
    by (intro exI conjI, assumption) simp_all
qed

text \<open>C20: Mock mode misreads a file in the layout of \<open>ip -4 addr\<close>: it reports every address of the
file, that of the loopback included, under the index of its line as its name, and succeeds when the
file lists two addresses. The fallback to the parser of that layout is never reached.\<close>

theorem mock_mode_misreads_ip_addr:
  assumes "list_all (file_interface (os_inet (w_os w))) rs" and "rs \<noteq> []"
    and "opt_mock_ifconfig_file options \<noteq> []" and "w_file w (c_str (opt_mock_ifconfig_file options)) \<in> {Some (ip_addr_text rs), Some (crlf (ip_addr_text rs))}"
  shows "\<exists>report. run w options t = Some (Inr (if length rs = 2 then kSuccess else kUnexpectedInterfaceCount),
        t @ [Proc (Ev_stdout (if opt_json options then format_json report else format_text report))])
    \<and> rep_interfaces report = map (\<lambda>(i, r). \<lparr>ri_name = dec_of_nat i, ri_ipv4 = ri_ipv4 r\<rparr>) (List.enumerate 1 rs)"
proof -
  let ?interfaces = "map (\<lambda>(i, r). \<lparr>ri_name = dec_of_nat i, ri_ipv4 = ri_ipv4 r\<rparr>) (List.enumerate 1 rs)"
  have ne: "?interfaces \<noteq> []" using assms(2) by (cases rs) simp_all
  have "parse_ifconfig_output (os_inet (w_os w)) (ip_addr_text rs) = ?interfaces"
    using assms(1) by (intro ifconfig_parser_misreads_ip_addr) (simp add: list_all_iff file_interface_def)
  with ne have "mock_interfaces (os_inet (w_os w)) (ip_addr_text rs) = ?interfaces"
    unfolding mock_interfaces_def Let_def by (simp only: if_False)
  from run_mock [OF assms(3) read_file_text [OF assms(4) file_texts_clean(2) [OF assms(1)]] this ne] show ?thesis unfolding Let_def length_map length_enumerate
    by (intro exI conjI, assumption) simp
qed

section \<open>Witnesses\<close>

theorem mock_mode_reports_file_witness:
  "\<exists>report. run sample_world (sample_options\<lparr>opt_mock_ifconfig_file := ''ifconfig''\<rparr>) []
     = Some (Inr kSuccess, [Proc (Ev_stdout (format_json report))]) \<and> rep_interfaces report = tl sample_interfaces"
proof -
  let ?options = "sample_options\<lparr>opt_mock_ifconfig_file := ''ifconfig''\<rparr>"
  have "list_all (file_interface (os_inet (w_os sample_world))) sample_interfaces"
    using sample_interfaces_file by (simp add: sample_world_def sample_os_def)
  moreover have "w_file sample_world (c_str (opt_mock_ifconfig_file ?options))
      \<in> {Some (net_tools_text sample_interfaces), Some (crlf (net_tools_text sample_interfaces))}"
    by (simp add: sample_world_def c_str_def)
  moreover have "firsts (filter (\<lambda>r. \<not> is_loopback_interface_name (ri_name r)) sample_interfaces) = tl sample_interfaces"
    by code_simp
  moreover have "tl sample_interfaces \<noteq> []" "length (tl sample_interfaces) = 2" "opt_json ?options"
    "opt_mock_ifconfig_file ?options \<noteq> []" by code_simp+
  ultimately show ?thesis
    using mock_mode_reports_file [of sample_world sample_interfaces ?options _ "[]"] by auto
qed

theorem mock_mode_misreads_ip_addr_witness:
  "\<exists>report. run sample_world (sample_options\<lparr>opt_mock_ifconfig_file := ''ip''\<rparr>) []
     = Some (Inr kUnexpectedInterfaceCount, [Proc (Ev_stdout (format_json report))])
     \<and> map ri_name (rep_interfaces report) = [''1'', ''2'', ''3'']"
proof -
  let ?options = "sample_options\<lparr>opt_mock_ifconfig_file := ''ip''\<rparr>"
  have "list_all (file_interface (os_inet (w_os sample_world))) sample_interfaces"
    using sample_interfaces_file by (simp add: sample_world_def sample_os_def)
  moreover have "w_file sample_world (c_str (opt_mock_ifconfig_file ?options))
      \<in> {Some (ip_addr_text sample_interfaces), Some (crlf (ip_addr_text sample_interfaces))}"
    by (simp add: sample_world_def c_str_def)
  moreover have "sample_interfaces \<noteq> []" "length sample_interfaces = 3" "opt_json ?options"
    "opt_mock_ifconfig_file ?options \<noteq> []" by code_simp+
  moreover have "map ri_name (map (\<lambda>(i, r). \<lparr>ri_name = dec_of_nat i, ri_ipv4 = ri_ipv4 r\<rparr>) (List.enumerate 1 sample_interfaces))
      = [''1'', ''2'', ''3'']" by code_simp
  ultimately show ?thesis
    using mock_mode_misreads_ip_addr [of sample_world sample_interfaces ?options "[]"] by auto
qed

end
