(* ===== verification/Exit_Codes.thy ===== *)
theory Exit_Codes
  imports End_To_End
begin

text \<open>
  What the exit code of a run of \<open>src/src/main.cpp\<close> says about the run: how far it came, what the
  device answered to the password, and why it stopped.
\<close>

section \<open>The verdict on the password\<close>

definition verdict :: "event \<Rightarrow> int list" where
  "verdict e = (case e of Ssh (Ev_userauth_password s user password rc) \<Rightarrow> [rc] | _ \<Rightarrow> [])"

definition verdicts :: "event list \<Rightarrow> int list" where
  "verdicts es = concat (map verdict es)"

lemma verdicts_append [simp]: "verdicts (xs @ ys) = verdicts xs @ verdicts ys"
  by (simp add: verdicts_def)

lemma verdicts_discreet: "discreet es \<Longrightarrow> verdicts es = []"
proof -
  have "verdict e = []" if "\<not> sends_password e" for e
    using that by (auto simp: verdict_def sends_password_def split: event.split ssh_event.split)
  then show "discreet es \<Longrightarrow> verdicts es = []" by (simp add: verdicts_def discreet_def list_all_iff)
qed

lemma verdicts_attempt:
  "discreet es \<Longrightarrow> verdicts (Ssh (Ev_userauth_password s user password rc) # es) = [rc]"
  using verdicts_discreet [of es] by (simp add: verdicts_def verdict_def)

lemma connect_verdict:
  assumes "run_state (connect_and_authenticate os ssh client) t = ((ok, client'), t')" and "fresh_client client"
  obtains es where "t' = t @ es" "ok \<Longrightarrow> verdicts es = [0]"
    "\<not> ok \<Longrightarrow> verdicts es = [] \<or> (\<exists>rc. rc \<noteq> 0 \<and> verdicts es = [rc] \<and> contains ''authentication'' (cl_last_error client'))"
  using assms
proof (cases rule: connect_cases)
  case (early message es)
  then show thesis by (intro that [of es]) (simp_all add: verdicts_discreet)
next
  case (reached s h status es)
  have d: "discreet es" using reached(1) by (simp add: at_authentication_def)
  from reached(5) show thesis
  proof (cases rule: authenticate_cases)
    case (refused message)
    with d show thesis
      by (intro that [of "es @ disconnect_events (client\<lparr>cl_socket := h, cl_session := Some s, cl_host_key_status := status\<rparr>)"])
        (simp_all add: verdicts_discreet)
  next
    case (sent rc)
    have c: "contains ''authentication'' (''SSH authentication failed for user '' @ x)" for x
      unfolding contains_iff by (intro exI [of _ "''SSH ''"] exI [of _ "'' failed for user '' @ x"]) simp
    define rest where "rest = (if ok then []
      else disconnect_events (client\<lparr>cl_socket := h, cl_session := Some s, cl_host_key_status := status\<rparr>))"
    define attempt where "attempt = Ssh (Ev_userauth_password s (c_str (cfg_username (cl_config client)))
      (c_str (cfg_password (cl_config client))) rc)"
    have "verdicts (es @ attempt # rest) = [rc]"
      using d verdicts_attempt unfolding attempt_def by (simp add: rest_def verdicts_discreet)
    moreover have "t' = t @ (es @ attempt # rest)" using sent(4) by (simp add: attempt_def rest_def)
    moreover have "contains ''authentication'' (cl_last_error client')" if "\<not> ok"
      using c that by (simp add: sent(5) del: append.simps)
    ultimately show thesis using sent(3) by (intro that [of "es @ attempt # rest"]) simp_all
  qed
qed

section \<open>The word authentication\<close>

text \<open>The exit code 8 depends on a word of the error text. Where can it come from, but from the refusal?\<close>

definition mentions_authentication :: "event \<Rightarrow> bool" where
  "mentions_authentication e \<longleftrightarrow> (\<exists>m. contains ''authentication'' m
     \<and> ((\<exists>s errno. e = Ssh (Ev_last_error s errno (Some m))) \<or> (\<exists>code. e = Proc (Ev_FormatMessage code (Some m)))))"

definition blames :: "string \<Rightarrow> event list \<Rightarrow> bool" where
  "blames message es \<longleftrightarrow> (contains ''authentication'' message \<longrightarrow>
     verdicts es \<noteq> [] \<or> list_ex mentions_authentication es)"

lemma blames_grow: "blames message es \<Longrightarrow> blames message (xs @ es @ ys)"
  by (auto simp: blames_def)

lemma contains_separated:
  assumes "c \<notin> set p"
  shows "contains p (xs @ c # ys) \<longleftrightarrow> contains p xs \<or> contains p ys"
proof
  assume "contains p (xs @ c # ys)"
  then obtain u v where "xs @ c # ys = u @ p @ v" by (auto simp: contains_iff)
  with assms consider us where "xs = u @ p @ us" | us where "ys = us @ p @ v"
    by (auto simp: append_eq_append_conv2 append_eq_Cons_conv Cons_eq_append_conv)
  then show "contains p xs \<or> contains p ys" by cases (auto simp: contains_iff)
next
  have "contains p (xs @ c # ys)" if "contains p xs" using contains_extend [OF that, of "[]"] by simp
  moreover have "contains p (xs @ c # ys)" if "contains p ys" using contains_extend [OF that, of "xs @ [c]" "[]"] by simp
  ultimately show "contains p xs \<or> contains p ys \<Longrightarrow> contains p (xs @ c # ys)" by blast
qed

lemma contains_set: "contains p s \<Longrightarrow> set p \<subseteq> set s"
  by (auto simp: contains_iff)

lemma no_word_number: "\<not> contains ''authentication'' (dec_of_int n @ s)" if "CHR ''a'' \<notin> set s"
proof -
  have nd: "\<not> isdigit CHR ''a''" by code_simp
  have "CHR ''a'' \<notin> set (dec_of_nat k)" for k
    by (rule notI, rule notE [OF nd], rule dec_of_nat_digits)
  then have "CHR ''a'' \<notin> set (dec_of_int n @ s)" using that unfolding dec_of_int_def by (cases "n < 0") simp_all
  moreover have "CHR ''a'' \<in> set ''authentication''" by simp
  ultimately show ?thesis by (meson contains_set subsetD)
qed

lemma word_after_space: "contains ''authentication'' (xs @ CHR '' '' # ys) \<longleftrightarrow>
    contains ''authentication'' xs \<or> contains ''authentication'' ys"
  by (rule contains_separated) simp

lemma word_in_trimmed: "contains p (trim_message m) \<Longrightarrow> contains p m"
proof -
  have "rev (dropWhile P (rev m)) @ rev (takeWhile P (rev m)) = m" for P :: "char \<Rightarrow> bool"
    by (simp add: rev_append [symmetric] del: rev_append)
  then obtain v where "m = trim_message m @ v" unfolding trim_message_def by metis
  then show "contains p (trim_message m) \<Longrightarrow> contains p m" using contains_extend [of p "trim_message m" "[]" v] by simp
qed

text \<open>What an action answers, and the events it adds.\<close>

definition outcome :: "('a \<Rightarrow> event list \<Rightarrow> bool) \<Rightarrow> 'a io \<Rightarrow> bool" where
  "outcome Q m \<longleftrightarrow> (\<forall>t. \<exists>es. snd (run_state m t) = t @ es \<and> Q (fst (run_state m t)) es)"

lemma outcome_run: "outcome Q m \<Longrightarrow> run_state m t = (x, t') \<Longrightarrow> \<exists>es. t' = t @ es \<and> Q x es"
  by (metis outcome_def fst_conv snd_conv)

lemma outcome_return: "Q x [] \<Longrightarrow> outcome Q (return x)"
  by (simp add: outcome_def)

lemma outcome_syscall: "(\<And>x. Q x [e x]) \<Longrightarrow> outcome Q (syscall answer e)"
  by (auto simp: outcome_def)

lemma outcome_bind:
  assumes "outcome R m" and "\<And>x es. R x es \<Longrightarrow> outcome (\<lambda>y fs. Q y (es @ fs)) (k x)"
  shows "outcome Q (m \<bind> k)"
  unfolding outcome_def
proof
  fix t
  obtain x t1 where m: "run_state m t = (x, t1)" by force
  from outcome_run [OF assms(1) m] obtain es where es: "t1 = t @ es" "R x es" by blast
  obtain y t2 where k: "run_state (k x) t1 = (y, t2)" by force
  from outcome_run [OF assms(2) [OF es(2)] k] obtain fs where "t2 = t1 @ fs" "Q y (es @ fs)" by blast
  with m k es show "\<exists>gs. snd (run_state (m \<bind> k) t) = t @ gs \<and> Q (fst (run_state (m \<bind> k) t)) gs"
    by (intro exI [of _ "es @ fs"]) simp
qed

lemma outcome_emits: "emits P m \<Longrightarrow> outcome (\<lambda>x es. True) m"
  by (auto simp: outcome_def emits_def adds_def)

text \<open>A failure of the connection whose text has the word was refused, or told so by a library.\<close>

abbreviation accounted :: "bool \<times> SshClient \<Rightarrow> event list \<Rightarrow> bool" where
  "accounted r es \<equiv> \<not> fst r \<longrightarrow> blames (cl_last_error (snd r)) es"

text \<open>A failure can be accounted for by the last events.\<close>

lemma accounted_shift: "outcome accounted m \<Longrightarrow> outcome (\<lambda>r fs. accounted r (es @ fs)) m"
  using blames_grow [of _ _ es "[]"] unfolding outcome_def by fastforce

lemma accounted_after: "outcome R m \<Longrightarrow> (\<And>x. outcome accounted (k x)) \<Longrightarrow> outcome accounted (m \<bind> k)"
  by (erule outcome_bind) (rule accounted_shift)

lemma fail_accounted: "blames message es \<Longrightarrow> outcome (\<lambda>r fs. accounted r (es @ fs)) (fail_connect message client)"
  using blames_grow [of message es "[]"] by (auto simp: outcome_def fail_connect_run)

lemma fail_plain: "\<not> contains ''authentication'' message \<Longrightarrow> outcome accounted (fail_connect message client)"
  using fail_accounted [of message "[]"] by (simp add: blames_def)

lemma fails_after:
  assumes "outcome blames m" shows "outcome accounted (m \<bind> (\<lambda>message. fail_connect message client))"
  by (rule outcome_bind [OF assms fail_accounted])

text \<open>The texts of the program have not the word, except the one of the refusal.\<close>

lemma word_in_texts:
  "contains ''authentication'' (''SSH handshake failed'' @ '': '' @ m) \<longleftrightarrow> contains ''authentication'' m"
  "contains ''authentication'' (''SSH handshake failed'' @ '' (libssh2 error '' @ m) \<longleftrightarrow> contains ''authentication'' m"
  "contains ''authentication'' (''Winsock error '' @ m) \<longleftrightarrow> contains ''authentication'' m"
  "contains ''authentication'' (''could not switch the SSH socket to blocking mode: '' @ m) \<longleftrightarrow> contains ''authentication'' m"
  by (simp_all add: starts_with_def)

lemma no_word_in_texts:
  "\<not> contains ''authentication'' ''libssh2 initialisation failed''"
  "\<not> contains ''authentication'' (''SSH connection failed ('' @ connect_result_text result @ '')'')"
  "\<not> contains ''authentication'' ''could not create SSH session''"
  by (simp_all add: starts_with_def) (cases result; simp add: starts_with_def)

lemma no_word_in_status:
  "status \<in> {''unknown'', ''match'', ''mismatch'', ''check-failure''} \<Longrightarrow> \<not> contains ''authentication''
     (''SSH host key verification failed (status: '' @ status @ ''); add the key to known_hosts or run without --strict-host-key'')"
  by (auto simp: starts_with_def)

lemma handshake_text_blames: "outcome blames (libssh2_error_text ssh (Some s) ''SSH handshake failed'')"
proof -
  have number: "blames (''SSH handshake failed'' @ '' (libssh2 error '' @ dec_of_int n @ '')'') es" for n es
    unfolding blames_def word_in_texts using no_word_number [of "'')''" n] by simp
  have told: "blames (''SSH handshake failed'' @ '': '' @ m) [Ssh (Ev_last_error s n (Some m))]" for m n
    unfolding blames_def word_in_texts by (auto simp: mentions_authentication_def)
  show ?thesis
    unfolding libssh2_error_text_def option.case
    by (rule outcome_bind [where R = "\<lambda>(errno, message) es. es = [Ssh (Ev_last_error s errno message)]"])
      (auto intro!: outcome_syscall outcome_return number told simp del: append.simps split: option.split prod.split)
qed

lemma socket_text_blames: "outcome (\<lambda>m. blames (''could not switch the SSH socket to blocking mode: '' @ m)) (socket_error_text os n)"
proof -
  have "\<not> contains ''authentication'' (''error '' @ dec_of_int n @ '')'')" for n
    using no_word_number [of "'')''" n] by (simp add: starts_with_def)
  then have e: "contains ''authentication'' (m @ '' (error '' @ dec_of_int n @ '')'') \<longleftrightarrow> contains ''authentication'' m" for m n
    using word_after_space [of m "''(error '' @ dec_of_int n @ '')''"] by (simp add: starts_with_def)
  have number: "blames (''could not switch the SSH socket to blocking mode: '' @ ''Winsock error '' @ dec_of_int n) es" for n es
    unfolding blames_def word_in_texts using no_word_number [of "[]" n] by simp
  have told: "blames (''could not switch the SSH socket to blocking mode: '' @ trim_message m @ '' (error '' @ dec_of_int n @ '')'')
      [Proc (Ev_FormatMessage n (Some m))]" for m n
    unfolding blames_def word_in_texts e using word_in_trimmed by (auto simp: mentions_authentication_def)
  show ?thesis
    unfolding socket_error_text_def
    by (rule outcome_bind [where R = "\<lambda>message es. es = [Proc (Ev_FormatMessage n message)]"])
      (auto intro!: outcome_syscall outcome_return number told simp del: append.simps split: option.split)
qed

lemma outcome_weaken: "outcome Q m \<Longrightarrow> (\<And>x es. Q x es \<Longrightarrow> R x es) \<Longrightarrow> outcome R m"
  unfolding outcome_def by blast

lemma verify_outcome:
  "outcome (\<lambda>status es. status \<in> {''unknown'', ''match'', ''mismatch'', ''check-failure''}) (verify_host_key os ssh config s)"
proof -
  have check: "check_text c \<in> {''unknown'', ''match'', ''mismatch'', ''check-failure''}" for c by (cases c) simp_all
  have "emits (\<lambda>_. True) (verify_host_key os ssh config s)"
    by (auto simp: verify_host_key_def default_known_hosts_path_def getenv_def Let_def
        intro!: emits_intros emits_call split: option.split prod.split)
  moreover have "fst (run_state (verify_host_key os ssh config s) t) \<in> {''unknown'', ''match'', ''mismatch'', ''check-failure''}" for t
    using check by (auto simp: verify_host_key_def Let_def split_beta split: option.split)
  ultimately show ?thesis by (simp add: outcome_def emits_def adds_def) blast
qed

lemma authenticate_accounted:
  assumes "cl_host_key_status client \<in> {''unknown'', ''match'', ''mismatch'', ''check-failure''}"
  shows "outcome accounted (authenticate ssh s client)"
proof -
  have "blames message [Ssh (Ev_userauth_password s' user password rc)]" for message s' user password rc
    by (simp add: blames_def verdicts_def verdict_def)
  then have "outcome (\<lambda>r fs. accounted r (Ssh (Ev_userauth_password s' user password rc) # fs)) (fail_connect message client)"
    for message s' user password rc
    using fail_accounted [of message "[Ssh (Ev_userauth_password s' user password rc)]"] by simp
  then have refused: "outcome accounted (syscall (ls_userauth_password ssh s user password) (Ssh \<circ> Ev_userauth_password s user password)
      \<bind> (\<lambda>rc. if rc \<noteq> 0 then fail_connect message client else return (True, client)))" for user password message
    by (intro outcome_bind [where R = "\<lambda>rc es. es = [Ssh (Ev_userauth_password s user password rc)]"] outcome_syscall)
      (auto intro: outcome_return)
  show ?thesis
    unfolding authenticate_def Let_def
    by (split if_split, intro conjI impI fail_plain no_word_in_status [OF assms] refused)
qed

lemma start_session_accounted: "outcome accounted (start_session os ssh s client)"
proof -
  have verified: "outcome accounted (verify_host_key os ssh config s \<bind> (\<lambda>status. authenticate ssh s (client\<lparr>cl_host_key_status := status\<rparr>)))"
    for config
    by (rule outcome_bind [OF verify_outcome]) (intro accounted_shift authenticate_accounted, simp)
  have emitted: "outcome (\<lambda>_ _. True) (call e)" "outcome (\<lambda>_ _. True) (syscall answer e')" for e answer e'
    by (simp_all add: outcome_def call_def)
  show ?thesis
    unfolding start_session_def
    by (intro accounted_after [OF emitted(1)] accounted_after [OF emitted(2)] | split if_split
      | intro conjI impI fails_after handshake_text_blames verified)+
qed

lemma connect_accounted: "outcome accounted (connect_and_authenticate os ssh client)"
proof -
  have emitted: "outcome (\<lambda>_ _. True) (syscall answer e)" for answer e
    by (simp add: outcome_def)
  have tcp: "outcome (\<lambda>_ _. True) (tcp_connect os ip port timeout)" for ip port timeout
    by (rule outcome_emits [OF emits_tcp_connect])
  have ready: "outcome (\<lambda>_ _. True) (ensure_libssh2_initialised ssh)"
    by (auto simp: outcome_def ensure_libssh2_initialised_def split: option.split)
  have code: "outcome (\<lambda>_ _. True) (last_socket_error os)"
    by (auto simp: outcome_def last_socket_error_def)
  have fails: "outcome accounted (return (False, client\<lparr>cl_last_error := message\<rparr>))"
    if "\<not> contains ''authentication'' message" for message
    using that by (intro outcome_return) (simp add: blames_def)
  have texts: "outcome accounted (socket_error_text os n \<bind> (\<lambda>m.
      fail_connect (''could not switch the SSH socket to blocking mode: '' @ m) c))" for n c
    by (rule outcome_bind [OF socket_text_blames fail_accounted])
  have session: "outcome accounted (open_session os ssh c)" for c
    unfolding open_session_def
    by (intro accounted_after [OF emitted] accounted_after [OF code] | split if_split option.split
      | intro conjI impI allI texts fail_plain no_word_in_texts start_session_accounted)+
  show ?thesis
    unfolding connect_and_authenticate_def
    by (intro accounted_after [OF ready] accounted_after [OF tcp] | split if_split prod.split
      | intro conjI impI allI fails no_word_in_texts session)+
qed

section \<open>The commands\<close>

text \<open>The events of a command that gave no listing: no channel was opened, it could not be started, it did
not end with 0, or it delivered nothing.\<close>

definition no_listing :: "session \<Rightarrow> string \<Rightarrow> event list \<Rightarrow> bool" where
  "no_listing s command es \<longleftrightarrow> Chan (Ev_channel_open s None) \<in> set es
   \<or> (\<exists>ch rc. rc \<noteq> 0 \<and> {Chan (Ev_channel_open s (Some ch)), Chan (Ev_channel_exec ch (c_str command) rc)} \<subseteq> set es)
   \<or> (\<exists>ch status. {Chan (Ev_channel_open s (Some ch)), Chan (Ev_channel_exec ch (c_str command) 0),
        Chan (Ev_channel_exit_status ch status)} \<subseteq> set es \<and> (status \<noteq> 0 \<or> delivered ch False es = []))"

lemma failed_start:
  assumes "run_state (start_command ssh client command) t = (Inl r, t')" and "cl_session client = Some s"
  shows "\<exists>es. t' = t @ es \<and> no_listing s command es"
  using assms
  by (auto simp: start_command_def libssh2_error_text_def no_listing_def split_beta split: option.splits if_splits)

lemma unusable_command:
  assumes "execute ssh client command t = Some (r, t')" and "\<not> usable r" and "cl_session client = Some s"
  shows "\<exists>es. t' = t @ es \<and> no_listing s command es"
  using assms(1)
proof (cases rule: execute_cases)
  case (finished s' ch es)
  have "no_listing s command es"
    unfolding no_listing_def using finished(1,3,5-8) assms(2,3)
    by (intro disjI2 exI [of _ ch] exI [of _ "cmd_exit_code r"]) (auto simp: usable_def)
  with finished(2) show ?thesis by blast
next
  case (failed message es)
  obtain x t1 where x: "run_state (start_command ssh client command) t = (x, t1)" by force
  show ?thesis
  proof (cases x)
    case (Inl a)
    with assms(1) x have "t' = t1" by (simp add: execute_def)
    with failed_start [OF x [unfolded Inl] assms(3)] show ?thesis by simp
  next
    case (Inr ch)
    with assms(1) x have "collect_output ssh ch t1 = Some (r, t')" by (simp add: execute_def)
    then have "cmd_ok r" by (rule collect_output_cases)
    with failed(2) show ?thesis by (simp add: fresh_command_def)
  qed
qed

text \<open>Neither command gave a listing; and a command gave one with \<open>n\<close> interfaces.\<close>

definition nothing_listed :: "session \<Rightarrow> event list \<Rightarrow> bool" where
  "nothing_listed s es \<longleftrightarrow> (\<exists>us xs vs ys zs. es = us @ xs @ vs @ ys @ zs
     \<and> no_listing s ''ifconfig'' xs \<and> no_listing s ''ip -4 addr'' ys)"

definition listed :: "world \<Rightarrow> session \<Rightarrow> nat \<Rightarrow> event list \<Rightarrow> bool" where
  "listed w s n es \<longleftrightarrow> (\<exists>xs ys zs command listing. es = xs @ ys @ zs \<and> delivers_listing s command listing ys
     \<and> length (parse_listing (os_inet (w_os w)) command listing) = n)"

lemma listed_grow: "listed w s n es \<Longrightarrow> listed w s n (a @ es @ b)"
  unfolding listed_def by (metis append.assoc)

lemma nothing_listed_grow: "nothing_listed s es \<Longrightarrow> nothing_listed s (a @ es @ b)"
  unfolding nothing_listed_def by (metis append.assoc)

definition answered :: "world \<Rightarrow> session \<Rightarrow> ExitCode \<Rightarrow> event list \<Rightarrow> bool" where
  "answered w s exit_code es \<longleftrightarrow> exit_code = kRemoteCommandFailed \<and> nothing_listed s es
   \<or> (\<exists>n. listed w s n es
        \<and> exit_code = (if n = 0 then kParseFailed else if n = 2 then kSuccess else kUnexpectedInterfaceCount))"

lemma answered_grow: "answered w s exit_code es \<Longrightarrow> answered w s exit_code (a @ es @ b)"
  using listed_grow nothing_listed_grow unfolding answered_def by blast

lemma fetch_listing_nothing:
  assumes "fetch_listing w options client t = Some (None, t')" and "cl_session client = Some s"
  shows "\<exists>es. t' = t @ es \<and> nothing_listed s es"
proof -
  obtain r t1 where e1: "execute (w_ssh w) client ''ifconfig'' t = Some (r, t1)"
    using assms(1) by (auto simp: fetch_listing_def Option.bind_eq_Some_conv)
  have u: "\<not> usable r" using assms(1) e1 by (auto simp: fetch_listing_def)
  note step = fetch_listing_fallback [OF e1 u]
  obtain r' t3 where e2: "execute (w_ssh w) client ''ip -4 addr'' (fallback_start options t1) = Some (r', t3)"
    using assms(1) unfolding step Option.bind_eq_Some_conv by auto
  have "\<not> usable r' \<and> t' = t3 @ [Proc (Ev_stderr (command_failure_text r))]"
    using assms(1) unfolding step e2 by (cases "usable r'") auto
  then have u': "\<not> usable r'" and t': "t' = t3 @ [Proc (Ev_stderr (command_failure_text r))]" by blast+
  obtain xs ys ms where "t1 = t @ xs" "no_listing s ''ifconfig'' xs" "fallback_start options t1 = t1 @ ms"
    "t3 = fallback_start options t1 @ ys" "no_listing s ''ip -4 addr'' ys"
    using unusable_command [OF e1 u assms(2)] unusable_command [OF e2 u' assms(2)] fallback_start_adds [of options t1] by auto
  then have "t' = t @ ([] @ xs @ ms @ ys @ [Proc (Ev_stderr (command_failure_text r))])"
    "no_listing s ''ifconfig'' xs" "no_listing s ''ip -4 addr'' ys" using t' by simp_all
  then show ?thesis unfolding nothing_listed_def by blast
qed

lemma query_device_answers:
  assumes "query_device w options iface stage device client t = Some ((exit_code, client'), t')" and "cl_session client = Some s"
  shows "\<exists>es. t' = t @ es \<and> answered w s exit_code es"
proof -
  let ?warn = "if cl_host_key_status client \<noteq> ''match'' \<and> \<not> opt_strict_host_key options
       then put_err (put_line (''WARNING: SSH host key not verified (status: '' @ cl_host_key_status client
         @ ''); the link is trusted because it is a direct connection.''))
       else return ()"
  obtain x1 t1 where s1: "run_state ?warn t = (x1, t1)" by force
  obtain listing t2 where s2: "fetch_listing w options client t1 = Some (listing, t2)"
    using assms(1) unfolding query_device_def s1 lift_run by (auto simp: Option.bind_eq_Some_conv)
  note steps = query_device_def s1 s2 disconnect_run
  obtain a where a: "t1 = t @ a" using quiet_discreet [OF quiet_if [OF s1]] by blast
  show ?thesis
  proof (cases listing)
    case None
    have run: "exit_code = kRemoteCommandFailed" "t' = t2 @ disconnect_events client"
      using assms(1) None by (simp_all add: steps)
    obtain es where "t2 = t1 @ es" "nothing_listed s es"
      using fetch_listing_nothing [OF s2 [unfolded None] assms(2)] by blast
    with run a nothing_listed_grow [of s es a "disconnect_events client"] show ?thesis
      by (intro exI [of _ "a @ es @ disconnect_events client"]) (simp add: answered_def)
  next
    case (Some l)
    then obtain command printed where l: "listing = Some (command, printed)" by (cases l) simp
    define interfaces where "interfaces = parse_listing (os_inet (w_os w)) command printed"
    obtain xs ys where ys: "t2 = t1 @ xs @ ys" "delivers_listing s command printed ys"
      using fetch_listing_delivers [OF s2 [unfolded l] assms(2)] by blast
    then have "listed w s (length interfaces) (xs @ ys)"
      unfolding listed_def interfaces_def
      by (intro exI [of _ xs] exI [of _ ys] exI [of _ "[]"] exI [of _ command] exI [of _ printed]) simp
    then have g: "listed w s (length interfaces) (a @ (xs @ ys) @ zs)" for zs by (rule listed_grow)
    have "exit_code = (if interfaces = [] then kParseFailed else if length interfaces = 2 then kSuccess
        else kUnexpectedInterfaceCount) \<and> (\<exists>zs. t' = t2 @ zs)"
    proof (cases "interfaces = []")
      case True
      with assms(1) l show ?thesis unfolding steps lift_run by (auto simp: s2 interfaces_def)
    next
      case False
      with assms(1) l show ?thesis by (auto simp: steps finish_report_run interfaces_def [symmetric])
    qed
    then obtain zs where zs: "t' = t2 @ zs" and e: "exit_code = (if interfaces = [] then kParseFailed
        else if length interfaces = 2 then kSuccess else kUnexpectedInterfaceCount)" by blast
    have "answered w s exit_code (a @ (xs @ ys) @ zs)"
      unfolding answered_def by (intro disjI2 exI [of _ "length interfaces"] conjI g) (simp add: e)
    moreover have "t' = t @ (a @ (xs @ ys) @ zs)" using zs a ys(1) by simp
    ultimately show ?thesis by blast
  qed
qed

section \<open>The exit code of the dialogue\<close>

definition dialogue_meaning :: "world \<Rightarrow> Options \<Rightarrow> SshProbeResult \<Rightarrow> ExitCode \<Rightarrow> event list \<Rightarrow> bool" where
  "dialogue_meaning w options device exit_code es \<longleftrightarrow> (
     exit_code = kSshConnectionFailed \<and> verdicts es = []
   \<or> exit_code = kSshAuthFailed \<and> ((\<exists>rc. rc \<noteq> 0 \<and> verdicts es = [rc])
        \<or> verdicts es = [] \<and> list_ex mentions_authentication es)
   \<or> verdicts es = [0] \<and> (\<exists>s status xs ys. es = xs @ ys \<and> session_at options (pr_ip device) s status xs
        \<and> answered w s exit_code ys))"

lemma dialogue_meaning_grow:
  assumes "dialogue_meaning w options device exit_code es" and "verdicts a = []" "verdicts b = []"
  shows "dialogue_meaning w options device exit_code (a @ es @ b)"
proof -
  have "\<exists>s status xs ys. a @ es @ b = xs @ ys \<and> session_at options (pr_ip device) s status xs \<and> answered w s exit_code ys"
    if "es = xs @ ys" "session_at options (pr_ip device) s status xs" "answered w s exit_code ys" for s status xs ys
    using that session_at_grow [OF that(2), of a "[]"] answered_grow [OF that(3), of "[]" b]
    by (intro exI [of _ s] exI [of _ status] exI [of _ "a @ xs"] exI [of _ "ys @ b"]) simp
  with assms show ?thesis unfolding dialogue_meaning_def by auto
qed

lemma quiet_verdicts: "quiet t t' \<Longrightarrow> \<exists>es. t' = t @ es \<and> verdicts es = []"
  using quiet_discreet verdicts_discreet by blast

lemma silent_verdicts: "adds silent t t' \<Longrightarrow> \<exists>es. t' = t @ es \<and> verdicts es = []"
  using silent_discreet verdicts_discreet by blast

lemma talk_to_device_meaning:
  assumes "talk_to_device w options iface stage password device t = Some (exit_code, t')"
  shows "\<exists>es. t' = t @ es \<and> dialogue_meaning w options device exit_code es"
  using assms
proof (cases rule: talk_to_device_steps)
  case (refused t1 client1 t2 t3 c)
  obtain a b d where ts: "t1 = t @ a" "t3 = t2 @ b" "t' = t3 @ d" and v: "verdicts a = []" "verdicts b = []" "verdicts d = []"
    using quiet_verdicts [OF refused(1)] quiet_verdicts [OF refused(3)] silent_verdicts [OF disconnect_silent [OF refused(4)]]
    by auto
  obtain es where es: "t2 = t1 @ es" "verdicts es = [] \<or>
      (\<exists>rc. rc \<noteq> 0 \<and> verdicts es = [rc] \<and> contains ''authentication'' (cl_last_error client1))"
    using connect_verdict [OF refused(2) fresh_ssh_client] by auto
  have "blames (cl_last_error client1) es"
    using outcome_run [OF connect_accounted refused(2)] es(1) by auto
  then have "dialogue_meaning w options device exit_code es"
    using es(2) by (auto simp: dialogue_meaning_def refused(5) blames_def)
  from dialogue_meaning_grow [OF this v(1), of "b @ d"] v es(1) ts show ?thesis
    by (intro exI [of _ "a @ es @ b @ d"]) simp
next
  case (connected t1 client1 t2 client2 t3 c)
  from connected(3) obtain u2 u3 where q: "quiet t2 u2" "run_state (disconnect client1) u2 = (client2, u3)"
    "reported (os_inet (w_os w)) options exit_code u3 t3 \<or> quiet u3 t3 \<and> unlisted exit_code"
    by (rule query_device_steps)
  have "\<exists>f. t3 = u3 @ f \<and> verdicts f = []"
    using q(3) quiet_verdicts by (auto simp: reported_def verdicts_def verdict_def)
  then obtain f where f: "t3 = t2 @ f" "verdicts f = []"
    using quiet_verdicts [OF q(1)] silent_verdicts [OF disconnect_silent [OF q(2)]] by force
  obtain a g where ag: "t1 = t @ a" "t' = t3 @ g" "verdicts a = []" "verdicts g = []"
    using quiet_verdicts [OF connected(1)] silent_verdicts [OF disconnect_silent [OF connected(4)]] by auto
  obtain es where es: "t2 = t1 @ es" "verdicts es = [0]"
    using connect_verdict [OF connected(2) fresh_ssh_client] by auto
  obtain s where s: "cl_session client1 = Some s" "session_at options (pr_ip device) s (cl_host_key_status client1) es"
    using connected_session [OF connected(2)] es(1) by (metis same_append_eq)
  have "answered w s exit_code f" using query_device_answers [OF connected(3) s(1)] f(1) by auto
  with es(2) f(2) s(2) have "dialogue_meaning w options device exit_code (es @ f)"
    unfolding dialogue_meaning_def by (intro disjI2 conjI exI [of _ s] exI) auto
  from dialogue_meaning_grow [OF this ag(3,4)] ag(1,2) es(1) f(1) show ?thesis
    by (intro exI [of _ "a @ (es @ f) @ g"]) simp
qed

section \<open>The exit code of a run\<close>

definition session_with :: "world \<Rightarrow> Options \<Rightarrow> trace \<Rightarrow> session \<Rightarrow> event list \<Rightarrow> bool" where
  "session_with w options t s xs \<longleftrightarrow> (\<exists>iface device status. chosen_device w options t iface device
     \<and> session_at options (pr_ip device) s status xs)"

lemma reporting_writes:
  assumes "run w options t = Some (Inr exit_code, t @ es)" and "reporting exit_code"
  shows "filter writes_out es \<noteq> []"
proof -
  from run_hushed [OF assms(1)] assms(2) obtain t2 where "hushed t t2"
    "reported (os_inet (w_os w)) options exit_code t2 (t @ es)" by auto
  then obtain b s where "t @ es = t @ b @ [Proc (Ev_stdout s)]" by (auto simp: adds_def reported_def)
  then show ?thesis by (simp add: writes_out_def)
qed

text \<open>C9: The exit code says what happened. 2 (usage): no password is configured, or none of the several devices
found is the one named by \<open>--select\<close>. 3 and 4: no candidate interface, or several. 5 and 6: discovery on
the only candidate found no device, or several and none was named. Up to here the device was never
spoken to. The other codes come after a device was chosen among those found. 7: no password was sent.
8: the server refused the one password that was sent, or none was sent and a message of the operating
system or of libssh2 has the word \<open>authentication\<close> in it. For the rest, the server accepted the password
in a session with the chosen device, and in that session: 9, for both commands in turn no channel was opened, or it
could not be started, or it did not end with 0, or it delivered nothing; 10, a command ended with 0 and
delivered output in which the parser found no interface; 0, it found two; 11, it found another number,
and in both cases something was written to standard output.\<close>

theorem exit_code_meaning:
  assumes "run w options t = Some (Inr exit_code, t')" and "opt_mock_ifconfig_file options = []"
  shows "\<exists>es. t' = t @ es \<and> (case exit_code of
      kUsageError \<Rightarrow> list_all plain es \<and> (configured_password w options t = None
        \<or> (\<exists>iface devices. sole_candidate w options iface \<and> finds w options iface t devices \<and> 1 < length devices
            \<and> opt_select_candidate options \<noteq> [] \<and> opt_select_candidate options \<notin> pr_ip ` set devices))
    | kNoInterface \<Rightarrow> list_all plain es \<and> allowed_candidates w options = Inr []
    | kMultipleInterfaces \<Rightarrow> list_all plain es \<and> (\<exists>all. allowed_candidates w options = Inr all \<and> 1 < length all)
    | kNoDevice \<Rightarrow> list_all plain es \<and> (\<exists>iface. sole_candidate w options iface \<and> finds w options iface t [])
    | kMultipleDevices \<Rightarrow> list_all plain es \<and> opt_select_candidate options = []
        \<and> (\<exists>iface devices. sole_candidate w options iface \<and> finds w options iface t devices \<and> 1 < length devices)
    | kSshConnectionFailed \<Rightarrow> (\<exists>iface device. chosen_device w options t iface device) \<and> verdicts es = []
    | kSshAuthFailed \<Rightarrow> (\<exists>iface device. chosen_device w options t iface device)
        \<and> ((\<exists>rc. rc \<noteq> 0 \<and> verdicts es = [rc]) \<or> verdicts es = [] \<and> list_ex mentions_authentication es)
    | kRemoteCommandFailed \<Rightarrow> verdicts es = [0]
        \<and> (\<exists>s xs ys. es = xs @ ys \<and> session_with w options t s xs \<and> nothing_listed s ys)
    | kParseFailed \<Rightarrow> verdicts es = [0]
        \<and> (\<exists>s xs ys. es = xs @ ys \<and> session_with w options t s xs \<and> listed w s 0 ys)
    | kSuccess \<Rightarrow> verdicts es = [0] \<and> filter writes_out es \<noteq> []
        \<and> (\<exists>s xs ys. es = xs @ ys \<and> session_with w options t s xs \<and> listed w s 2 ys)
    | kUnexpectedInterfaceCount \<Rightarrow> verdicts es = [0] \<and> filter writes_out es \<noteq> []
        \<and> (\<exists>s xs ys n. es = xs @ ys \<and> session_with w options t s xs \<and> listed w s n ys \<and> n \<noteq> 0 \<and> n \<noteq> 2))"
  using assms(1)
proof (cases rule: run_stages)
  case (mock exit_code)
  with assms(2) show ?thesis by simp
next
  case no_password
  with offline_events [OF no_password(1)] show ?thesis by auto
next
  case no_interface
  with offline_events [OF no_interface(1)] show ?thesis by auto
next
  case (interfaces all)
  with offline_events [OF interfaces(1)] show ?thesis by auto
next
  case (undecided iface devices e)
  obtain es where es: "t' = t @ es" "list_all plain es" using offline_events [OF undecided(1)] by blast
  have "exit_code = e" using undecided(2) by simp
  with undecided(3-5) es show ?thesis
    by (intro exI [of _ es]) (cases exit_code; simp add: undecided_def; blast)
next
  case (reached password t1 iface devices stage diagnostic device t3 t4 e)
  have "quiet t t4" using reached(6-8) by (blast intro: quiet_trans offline_quiet)
  then obtain a where a: "t4 = t @ a" "verdicts a = []" using quiet_verdicts by blast
  obtain d where d: "t' = t4 @ d" "dialogue_meaning w options device e d"
    using talk_to_device_meaning [OF reached(9)] by blast
  have e: "exit_code = e" using reached(10) by simp
  have "finds w options iface t devices" using reached(3) unfolding reached(11) finds_def by blast
  with reached(2,5) have c: "chosen_device w options t iface device" by (auto simp: chosen_device_def)
  have t': "t' = t @ (a @ d)" using a(1) d(1) by simp
  have w: "filter writes_out (a @ d) \<noteq> []" if "reporting e"
    using reporting_writes [OF assms(1) [unfolded t' e] that] .
  from dialogue_meaning_grow [OF d(2) a(2), of "[]"]
  have m: "dialogue_meaning w options device exit_code (a @ d)" by (simp add: verdicts_def e)
  have s: "session_with w options t s xs" if "session_at options (pr_ip device) s status xs" for s status xs
    using c that by (auto simp: session_with_def)
  show ?thesis
    by (rule exI [of _ "a @ d"], rule conjI [OF t'])
      (use m w c s in \<open>cases exit_code; simp add: e dialogue_meaning_def answered_def reporting_def
        del: filter_append split: if_splits; blast\<close>)
qed simp_all

theorem exit_code_meaning_witness:
  "\<exists>es s ys. run sample_world sample_options [] = Some (Inr kSuccess, es) \<and> verdicts es = [0]
     \<and> listed sample_world s 2 ys"
proof -
  obtain es where r: "run sample_world sample_options [] = Some (Inr kSuccess, es)" using sample_run by blast
  have "opt_mock_ifconfig_file sample_options = []" by code_simp
  from exit_code_meaning [OF r this] r show ?thesis by auto
qed

end
