(* ===== verification/Password_Privacy.thy ===== *)
theory Password_Privacy
  imports Run_Correctness
begin

text \<open>
  What a run of \<open>src/src/main.cpp\<close> reveals of the password: nothing but whether the server
  accepts it. Two runs that differ in the password are compared call by call.
\<close>

section \<open>Steps that do not see the password\<close>

text \<open>
  Traces that differ in nothing but the password argument and the code of a rejection, and steps
  that give the same result on such traces and keep them such.
\<close>

definition same_view :: "trace \<Rightarrow> trace \<Rightarrow> bool" where
  "same_view t u \<longleftrightarrow> map hide t = map hide u"

definition blind :: "(trace \<Rightarrow> 'a) \<Rightarrow> bool" where
  "blind answer \<longleftrightarrow> (\<forall>t u. same_view t u \<longrightarrow> answer t = answer u)"

definition blind_step :: "(trace \<Rightarrow> ('a \<times> trace) option) \<Rightarrow> bool" where
  "blind_step m \<longleftrightarrow> (\<forall>t u x t'. same_view t u \<longrightarrow> m t = Some (x, t') \<longrightarrow> (\<exists>u'. m u = Some (x, u') \<and> same_view t' u'))"

definition blind_io :: "'a io \<Rightarrow> bool" where
  "blind_io m \<longleftrightarrow> (\<forall>t u. same_view t u \<longrightarrow>
     fst (run_state m t) = fst (run_state m u) \<and> same_view (snd (run_state m t)) (snd (run_state m u)))"

lemma same_view_sym: "same_view t u \<Longrightarrow> same_view u t"
  by (simp add: same_view_def)

lemma same_view_append: "same_view t u \<Longrightarrow> map hide es = map hide fs \<Longrightarrow> same_view (t @ es) (u @ fs)"
  by (simp add: same_view_def)

lemma blind_stepD:
  "blind_step m \<Longrightarrow> same_view t u \<Longrightarrow> m t = Some (x, t') \<Longrightarrow> \<exists>u'. m u = Some (x, u') \<and> same_view t' u'"
  by (auto simp: blind_step_def)

lemma blind_return: "blind_io (return x)"
  by (simp add: blind_io_def)

lemma blind_bind: "blind_io m \<Longrightarrow> (\<And>x. blind_io (k x)) \<Longrightarrow> blind_io (m \<bind> k)"
  by (simp add: blind_io_def split_beta)

lemma blind_syscall: "blind answer \<Longrightarrow> blind_io (syscall answer ev)"
  by (auto simp: blind_io_def blind_def same_view_append)

lemma blind_call: "blind_io (call e)"
  unfolding call_def by (rule blind_syscall) (simp add: blind_def)

lemmas blind_intros = blind_return blind_bind blind_syscall blind_call

lemma blind_lift: "blind_io m \<Longrightarrow> blind_step (lift m)"
  by (auto simp: blind_step_def blind_io_def prod_eq_iff)

lemma blind_step_bind:
  assumes "blind_step m" and "\<And>x. blind_step (k x)"
  shows "blind_step (\<lambda>t. do { (x, t1) \<leftarrow> m t; k x t1 })"
  unfolding blind_step_def
proof (intro allI impI)
  fix t u x t' assume v: "same_view t u" and run: "do { (x, t1) \<leftarrow> m t; k x t1 } = Some (x, t')"
  then obtain y t1 where m: "m t = Some (y, t1)" and k: "k y t1 = Some (x, t')"
    by (auto simp: Option.bind_eq_Some_conv)
  obtain u1 where "m u = Some (y, u1)" "same_view t1 u1" using blind_stepD [OF assms(1) v m] by blast
  moreover obtain u' where "k y u1 = Some (x, u')" "same_view t' u'"
    using blind_stepD [OF assms(2) \<open>same_view t1 u1\<close> k] by blast
  ultimately show "\<exists>u'. do { (x, t1) \<leftarrow> m u; k x t1 } = Some (x, u') \<and> same_view t' u'" by auto
qed

lemma blind_step_Some: "blind_step (\<lambda>t. Some (x, t))"
  by (auto simp: blind_step_def)

lemma blind_step_if: "blind_step m \<Longrightarrow> blind_step k \<Longrightarrow> blind_step (\<lambda>t. if b then m t else k t)"
  by (cases b) simp_all

lemma blind_step_option:
  "blind_step f \<Longrightarrow> (\<And>a b. blind_step (g a b)) \<Longrightarrow> blind_step (\<lambda>t. case x of None \<Rightarrow> f t | Some (a, b) \<Rightarrow> g a b t)"
  by (cases x) (auto simp: split_beta)

lemma blind_step_returns:
  assumes "blind_step m" and "same_view t u"
  shows "rel_option (rel_prod (=) same_view) (m t) (m u)"
proof (cases "m t")
  case None
  with blind_stepD [OF assms(1) same_view_sym [OF assms(2)]] show ?thesis by (cases "m u") auto
next
  case (Some r)
  with blind_stepD [OF assms(1,2)] show ?thesis by (cases r) fastforce
qed

section \<open>The commands\<close>

text \<open>The answers of the library to the calls that follow the authentication.\<close>

definition blind_library :: "libssh2 \<Rightarrow> bool" where
  "blind_library ssh \<longleftrightarrow> (\<forall>s. blind (ls_channel_open ssh s)) \<and> (\<forall>ch command. blind (ls_channel_exec ssh ch command))
     \<and> (\<forall>ch from_stderr. blind (ls_channel_read ssh ch from_stderr)) \<and> (\<forall>ch. blind (ls_channel_exit_status ssh ch))
     \<and> (\<forall>s. blind (ls_last_error ssh s))"

lemma read_loop_blind:
  assumes "blind_library ssh"
  shows "blind_step (read_loop ssh ch from_stderr data)"
proof -
  have "\<forall>u. same_view t u \<longrightarrow> (\<exists>u'. read_loop ssh ch e data u = Some (fst r, u') \<and> same_view (snd r) u')"
    if run: "read_loop ssh ch e data t = Some r" and b: "blind_library ssh" for ssh ch e data t r
  proof -
    have "blind_library ssh \<longrightarrow> (\<forall>u. same_view t u \<longrightarrow> (\<exists>u'. read_loop ssh ch e data u = Some (fst r, u') \<and> same_view (snd r) u'))"
    proof (rule read_loop.raw_induct [where P = "\<lambda>ssh ch e data t r. blind_library ssh \<longrightarrow> (\<forall>u. same_view t u \<longrightarrow>
        (\<exists>u'. read_loop ssh ch e data u = Some (fst r, u') \<and> same_view (snd r) u'))", OF _ run], goal_cases)
      case (1 loop ssh ch e data t r)
      show ?case
      proof (intro impI allI)
        fix u assume b: "blind_library ssh" and v: "same_view t u"
        define answer where "answer = ls_channel_read ssh ch e t"
        have answer': "ls_channel_read ssh ch e u = answer"
          using b v by (auto simp: blind_library_def blind_def answer_def)
        define ev where "ev = Chan (Ev_channel_read ch e answer)"
        have v': "same_view (t @ [ev]) (u @ [ev])" using v by (simp add: same_view_append)
        note step = read_loop_step [of ssh ch e data u, unfolded answer' Let_def ev_def [symmetric]]
        show "\<exists>u'. read_loop ssh ch e data u = Some (fst r, u') \<and> same_view (snd r) u'"
        proof (cases "answer = None \<or> answer = Some []")
          case True
          with 1(2) v' show ?thesis unfolding step by (auto simp: answer_def [symmetric] ev_def [symmetric])
        next
          case False
          then obtain bytes where a: "answer = Some bytes" "bytes \<noteq> []" by auto
          with 1(2) have "loop ssh ch e (data @ bytes) (t @ [ev]) = Some r"
            by (simp add: answer_def [symmetric] ev_def)
          from 1(1) [OF this] b v' show ?thesis unfolding step using a by auto
        qed
      qed
    qed
    with b show ?thesis by blast
  qed
  with assms show ?thesis unfolding blind_step_def by fastforce
qed

lemma collect_output_blind:
  assumes "blind_library ssh"
  shows "blind_step (collect_output ssh ch)"
proof -
  define finish where "finish out err = do {
     _ \<leftarrow> call (Chan (Ev_channel_close ch));
     status \<leftarrow> syscall (ls_channel_exit_status ssh ch) (Chan \<circ> Ev_channel_exit_status ch);
     _ \<leftarrow> call (Chan (Ev_channel_free ch));
     return \<lparr>cmd_ok = True, cmd_exit_code = status, cmd_stdout_data = out, cmd_stderr_data = err, cmd_error = []\<rparr>
   }" for out err
  have "collect_output ssh ch = (\<lambda>t. do {
      (out, t1) \<leftarrow> read_loop ssh ch False [] t;
      (err, t2) \<leftarrow> read_loop ssh ch True [] t1;
      lift (finish out err) t2
    })"
    by (simp add: fun_eq_iff collect_output_def finish_def Let_def)
  moreover have "blind_io (finish out err)" for out err
    unfolding finish_def using assms by (intro blind_intros) (auto simp: blind_library_def)
  ultimately show ?thesis
    by (simp only:) (intro blind_step_bind read_loop_blind assms blind_lift)
qed

lemma libssh2_error_text_blind: "blind_library ssh \<Longrightarrow> blind_io (libssh2_error_text ssh s fallback)"
  unfolding libssh2_error_text_def blind_library_def
  by (cases s) (auto intro!: blind_intros split: prod.split option.split)

lemma execute_blind:
  assumes "blind_library ssh"
  shows "blind_step (execute ssh client command)"
proof -
  have "blind_io (start_command ssh client command)"
    unfolding start_command_def Let_def
    using assms libssh2_error_text_blind [OF assms]
    by (auto simp: blind_library_def intro!: blind_intros split: option.split)
  moreover have "execute ssh client command = (\<lambda>t. do {
      (started, t1) \<leftarrow> lift (start_command ssh client command) t;
      (case started of Inl failed \<Rightarrow> (\<lambda>t. Some (failed, t)) | Inr ch \<Rightarrow> collect_output ssh ch) t1
    })"
    by (simp add: fun_eq_iff execute_def split_beta split: sum.split)
  ultimately show ?thesis
    by (simp only:)
      (intro blind_step_bind blind_lift; auto intro: blind_step_Some collect_output_blind assms split: sum.split)
qed

lemma put_blind: "blind_io (put_err m)" "blind_io (put_out m)" "blind_io (put_log options m)"
  by (auto simp: put_err_def put_out_def put_log_def intro: blind_intros)

lemma disconnect_blind: "blind_io (disconnect client)"
  by (auto simp: disconnect_def close_socket_def blind_def intro!: blind_intros split: option.split)

lemma fetch_listing_blind:
  assumes "blind_library (w_ssh w)"
  shows "blind_step (fetch_listing w options client)"
  unfolding fetch_listing_def [abs_def]
  by (intro blind_step_bind blind_lift put_blind execute_blind assms blind_step_if blind_step_Some)

lemma query_device_blind:
  assumes "blind_library (w_ssh w)"
  shows "blind_step (query_device w options iface stage device client)"
proof -
  have f: "blind_io (finish_report options report)" for report
    by (auto simp: finish_report_def emit_def Let_def intro!: blind_intros put_blind)
  show ?thesis
    unfolding query_device_def [abs_def] Let_def
    by (intro blind_step_bind blind_lift fetch_listing_blind disconnect_blind assms blind_step_option blind_step_if
        blind_step_Some put_blind f) (auto intro: put_blind blind_return)
qed

section \<open>The dialogue\<close>

lemma execute_password: "execute ssh (with_password q client) command = execute ssh client command"
proof -
  have "cl_session (with_password q client) = cl_session client"
    "cfg_command_timeout (cl_config (with_password q client)) = cfg_command_timeout (cl_config client)"
    by (simp_all add: with_password_def)
  then have "start_command ssh (with_password q client) command = start_command ssh client command"
    unfolding start_command_def by (simp only:)
  then show ?thesis by (simp add: fun_eq_iff execute_def)
qed

lemma fetch_listing_password: "fetch_listing w options (with_password q client) = fetch_listing w options client"
  unfolding fetch_listing_def [abs_def] execute_password ..

lemma disconnect_password:
  "run_state (disconnect (with_password q client)) t = apfst (with_password q) (run_state (disconnect client) t)"
  by (simp add: disconnect_run disconnect_events_password) (simp add: with_password_def)

text \<open>The part of \<open>talk_to_device\<close> after the connection.\<close>

definition after_connection :: "world \<Rightarrow> Options \<Rightarrow> NetworkInterface \<Rightarrow> string \<Rightarrow> SshProbeResult \<Rightarrow> bool \<Rightarrow> SshClient
    \<Rightarrow> trace \<Rightarrow> (ExitCode \<times> trace) option" where
  "after_connection w options iface stage device ok client t = do {
     ((exit_code, client2), t3) \<leftarrow>
       (if \<not> ok then do {
          (_, t3) \<leftarrow> lift (put_err (put_line (''Error: '' @ cl_last_error client))) t;
          Some ((if contains ''authentication'' (cl_last_error client) then kSshAuthFailed else kSshConnectionFailed,
                 client), t3)
        }
        else query_device w options iface stage device client t);
     (_, t4) \<leftarrow> lift (disconnect client2) t3;
     Some (exit_code, t4)
   }"

lemma talk_after_connection:
  "talk_to_device w options iface stage password device t = do {
     (_, t1) \<leftarrow> lift (put_log options (''SSH server confirmed at '' @ pr_ip device @ '' ('' @ pr_banner device @ '')'')) t;
     ((ok, client), t2) \<leftarrow> lift (connect_and_authenticate (w_os w) (w_ssh w) (ssh_client (ssh_config_for options password device))) t1;
     after_connection w options iface stage device ok client t2
   }"
  unfolding talk_to_device_def after_connection_def Let_def ..

lemma after_connection_blind:
  assumes "blind_library (w_ssh w)"
  shows "blind_step (after_connection w options iface stage device ok client)"
proof -
  have split: "(\<lambda>((exit_code, client2), t3). do { (_, t4) \<leftarrow> lift (disconnect client2) t3; Some (exit_code, t4) })
    = (\<lambda>(r, t3). do { (_, t4) \<leftarrow> lift (disconnect (snd r)) t3; Some (fst r, t4) })"
    by (simp add: fun_eq_iff split_beta)
  show ?thesis
    unfolding after_connection_def [abs_def] split
    by (intro blind_step_bind blind_step_if blind_lift put_blind disconnect_blind blind_step_Some query_device_blind assms)
qed

lemma query_device_password:
  "query_device w options iface stage device (with_password q client) t
     = map_option (apfst (apsnd (with_password q))) (query_device w options iface stage device client t)"
proof -
  have "cl_host_key_status (with_password q client) = cl_host_key_status client"
    "device_report iface stage device (with_password q client) = device_report iface stage device client"
    by (simp_all add: with_password_def device_report_def fun_eq_iff)
  then show ?thesis
    unfolding query_device_def fetch_listing_password lift_run disconnect_password
    by (auto simp: split_beta Let_def map_option_bind split: option.split intro!: bind_option_cong)
qed

lemma after_connection_password:
  "after_connection w options iface stage device ok (with_password q client) t = after_connection w options iface stage device ok client t"
proof (cases ok)
  case True
  then show ?thesis
    by (cases "query_device w options iface stage device client t")
      (auto simp: after_connection_def query_device_password disconnect_password split_beta)
next
  case False
  have "cl_last_error (with_password q client) = cl_last_error client" by (simp add: with_password_def)
  with False show ?thesis by (simp add: after_connection_def disconnect_password split_beta)
qed

lemma with_password_eq:
  assumes "with_password [] c1 = with_password [] c2"
  obtains q where "c2 = with_password q c1"
proof -
  let ?q = "cfg_password (cl_config c2)"
  have "with_password ?q c1 = with_password ?q (with_password [] c1)" by (simp add: with_password_def)
  also have "\<dots> = c2" unfolding assms by (simp add: with_password_def)
  finally show thesis by (rule that [OF sym])
qed

abbreviation same_outcome :: "('a \<times> trace) option \<Rightarrow> ('a \<times> trace) option \<Rightarrow> bool" where
  "same_outcome \<equiv> rel_option (rel_prod (=) same_view)"

lemma same_outcome_map: "same_outcome m n \<Longrightarrow> same_outcome (map_option (apfst f) m) (map_option (apfst f) n)"
  by (cases m; cases n) auto

lemma talk_to_device_hides:
  assumes "blind_library (w_ssh w)" and "alike (w_ssh w) password password'"
  shows "same_outcome (talk_to_device w options iface stage password device t) (talk_to_device w options iface stage password' device t)"
proof -
  define client where "client = ssh_client (ssh_config_for options password device)"
  have c': "ssh_client (ssh_config_for options password' device) = with_password password' client"
    by (simp add: client_def ssh_client_def ssh_config_for_def with_password_def)
  have p: "cfg_password (cl_config client) = password"
    by (simp add: client_def ssh_client_def ssh_config_for_def)
  define t1 where "t1 = snd (run_state (put_log options (''SSH server confirmed at '' @ pr_ip device @ '' ('' @ pr_banner device @ '')'')) t)"
  obtain ok c1 t2 where r: "run_state (connect_and_authenticate (w_os w) (w_ssh w) client) t1 = ((ok, c1), t2)"
    by (metis surj_pair)
  obtain ok' c2 u2 where r': "run_state (connect_and_authenticate (w_os w) (w_ssh w) (with_password password' client)) t1 = ((ok', c2), u2)"
    by (metis surj_pair)
  have "agree True ((ok, c1), t2) ((ok', c2), u2)"
    using connect_agree [of True "w_ssh w" client password' "w_os w" t1] assms(2) r r' p by simp
  then have ok: "ok' = ok" and c: "with_password [] c1 = with_password [] c2" and v: "same_view t2 u2"
    by (simp_all add: agree_def same_view_def)
  obtain q where q: "c2 = with_password q c1" using c by (rule with_password_eq)
  have "talk_to_device w options iface stage password device t = after_connection w options iface stage device ok c1 t2"
    "talk_to_device w options iface stage password' device t = after_connection w options iface stage device ok c1 u2"
    unfolding talk_after_connection lift_run split_beta Option.bind.simps t1_def [symmetric] c' client_def [symmetric] r r'
    by (simp_all add: q ok after_connection_password)
  with blind_step_returns [OF after_connection_blind [OF assms(1)] v] show ?thesis by simp
qed

section \<open>The run\<close>

text \<open>Nothing but \<open>resolve_password\<close> reads the option.\<close>

definition with_secret :: "string \<Rightarrow> Options \<Rightarrow> Options" where
  "with_secret password options = options\<lparr>opt_ssh_password := password\<rparr>"

lemma secret_simps [simp]:
  "opt_verbose (with_secret p options) = opt_verbose options" "opt_json (with_secret p options) = opt_json options"
  "opt_strict_host_key (with_secret p options) = opt_strict_host_key options"
  "opt_threads (with_secret p options) = opt_threads options" "opt_ssh_user (with_secret p options) = opt_ssh_user options"
  "opt_ssh_password (with_secret p options) = p"
  "opt_password_from_cli (with_secret p options) = opt_password_from_cli options"
  "opt_interface_hint (with_secret p options) = opt_interface_hint options"
  "opt_select_candidate (with_secret p options) = opt_select_candidate options"
  "opt_mock_ifconfig_file (with_secret p options) = opt_mock_ifconfig_file options"
  "opt_connect_timeout (with_secret p options) = opt_connect_timeout options"
  "opt_banner_timeout (with_secret p options) = opt_banner_timeout options"
  "opt_auth_timeout (with_secret p options) = opt_auth_timeout options"
  "opt_command_timeout (with_secret p options) = opt_command_timeout options"
  "opt_layer2_window (with_secret p options) = opt_layer2_window options"
  by (simp_all add: with_secret_def)

lemma output_secret [simp]:
  "put_log (with_secret p options) = put_log options" "finish_report (with_secret p options) = finish_report options"
  by (simp_all add: put_log_def finish_report_def emit_def fun_eq_iff)

lemma log_observations_secret [simp]: "log_observations (with_secret p options) observations = log_observations options observations"
  by (induction observations) simp_all

lemma stages_secret [simp]:
  "sweep w (with_secret p options) = sweep w options" "shutdown w (with_secret p options) = shutdown w options"
  "select_interface w (with_secret p options) = select_interface w options"
  "choose_device (with_secret p options) = choose_device options"
  "run_mock_mode w (with_secret p options) = run_mock_mode w options"
  unfolding sweep_def [abs_def] shutdown_def [abs_def] select_interface_def [abs_def] choose_device_def [abs_def]
    run_mock_mode_def [abs_def] secret_simps output_secret by (rule refl)+

lemma find_devices_secret [simp]: "find_devices w (with_secret p options) iface pool t = find_devices w options iface pool t"
  unfolding find_devices_def stage_a_subnet_scan_def stage_b_layer2_def output_secret secret_simps log_observations_secret
    stages_secret ..

lemma talk_to_device_secret [simp]:
  "talk_to_device w (with_secret p options) iface stage password device t = talk_to_device w options iface stage password device t"
proof -
  have c: "ssh_config_for (with_secret p options) = ssh_config_for options"
    by (simp add: ssh_config_for_def fun_eq_iff)
  have f: "fetch_listing w (with_secret p options) = fetch_listing w options"
    unfolding fetch_listing_def [abs_def] output_secret ..
  show ?thesis
    unfolding talk_to_device_def query_device_def c f output_secret secret_simps ..
qed

lemma run_discovery_secret [simp]:
  "run_discovery w (with_secret p options) password iface t = run_discovery w options password iface t"
  unfolding run_discovery_def run_with_pool_def output_secret stages_secret secret_simps find_devices_secret talk_to_device_secret ..

lemma run_with_pool_password:
  assumes "blind_library (w_ssh w)" and "alike (w_ssh w) password password'"
  shows "same_outcome (run_with_pool w options password iface pool t) (run_with_pool w options password' iface pool t)"
proof -
  define dialogue where "dialogue pw found = (case found of ((devices, stage, diagnostic), t2) \<Rightarrow>
    do { (chosen, t3) \<leftarrow> lift (choose_device options iface devices diagnostic) t2;
      case chosen of Inl exit_code \<Rightarrow> Some (exit_code, t3)
      | Inr device \<Rightarrow> talk_to_device w options iface stage pw device t3 })" for pw found
  have run: "run_with_pool w options pw iface pool t = find_devices w options iface pool t \<bind> dialogue pw" for pw
    unfolding run_with_pool_def split_beta dialogue_def ..
  have "same_outcome (dialogue password found) (dialogue password' found)" for found
    using talk_to_device_hides [OF assms]
    by (auto simp: dialogue_def same_view_def split: prod.split sum.split)
  then show ?thesis unfolding run
    by (cases "find_devices w options iface pool t") simp_all
qed

lemma run_discovery_password:
  assumes "blind_library (w_ssh w)" and "alike (w_ssh w) password password'"
  shows "same_outcome (run_discovery w options password iface t) (run_discovery w options password' iface t)"
proof -
  have map: "do { (exit_code, t2) \<leftarrow> m; Some (Inr exit_code, t2) } = map_option (apfst Inr) m" for m :: "(ExitCode \<times> trace) option"
    by (cases m) auto
  show ?thesis
    unfolding run_discovery_def lift_run split_beta Option.bind.simps
    using same_outcome_map [OF run_with_pool_password [OF assms]]
    by (auto simp: same_view_def map [unfolded split_beta] split: construction.split)
qed

text \<open>C11: A run reveals nothing of the password but whether the server accepts it. With another password that
the server treats alike, and a library whose later answers do not depend on it, the run returns if and
only if it did, with the same result, and makes the same calls with the same arguments and answers and
writes the same output and errors, but for the password argument of the attempt itself (and the
number of a rejection).\<close>

theorem run_hides_password:
  assumes "opt_password_from_cli options" and "opt_ssh_password options \<noteq> []" and "password \<noteq> []"
    and "alike (w_ssh w) (opt_ssh_password options) password" and "blind_library (w_ssh w)"
  shows "same_outcome (run w options t) (run w (with_secret password options) t)"
proof (cases "opt_mock_ifconfig_file options = []")
  case False
  then show ?thesis by (simp add: run_def same_view_def rel_prod_sel)
next
  case True
  have p: "resolve_password w options = return (Inr (opt_ssh_password options))"
    "resolve_password w (with_secret password options) = return (Inr password)"
    using assms(1-3) by (simp_all add: resolve_password_def)
  obtain selected t2 where s: "run_state (select_interface w options) t = (selected, t2)" by force
  have run: "run w options' t = (case selected of
      Inl (Inl what) \<Rightarrow> Some (Inl what, t2)
    | Inl (Inr exit_code) \<Rightarrow> Some (Inr exit_code, t2)
    | Inr iface \<Rightarrow> run_discovery w options pw iface t2)"
    if "options' = options \<and> pw = opt_ssh_password options \<or> options' = with_secret password options \<and> pw = password"
    for options' pw
    using that True p s
    by (auto simp: run_def split: sum.split)
  show ?thesis
    unfolding run [OF disjI1 [OF conjI [OF refl refl]]] run [OF disjI2 [OF conjI [OF refl refl]]]
    using run_discovery_password [OF assms(5,4)]
    by (auto simp: same_view_def split: sum.split)
qed

section \<open>Witness\<close>

definition other_ssh :: libssh2 where
  "other_ssh = (w_ssh sample_world)\<lparr>ls_userauth_password := \<lambda>_ _ password _. if length password = 6 then 0 else - 18\<rparr>"

lemma delivers_hide: "delivers ch e (hide x) = delivers ch e x"
  by (auto simp: delivers_def delivery_def hide_def split: event.split ssh_event.split channel_event.split)

lemma same_view_delivers: "same_view t u \<Longrightarrow> filter (delivers ch e) t = [] \<longleftrightarrow> filter (delivers ch e) u = []"
proof -
  have *: "filter (delivers ch e) t = [] \<longleftrightarrow> filter (delivers ch e) (map hide t) = []" for t
    by (simp add: filter_map comp_def delivers_hide)
  show "same_view t u \<Longrightarrow> filter (delivers ch e) t = [] \<longleftrightarrow> filter (delivers ch e) u = []"
    using * [of t] * [of u] by (simp add: same_view_def)
qed

theorem run_hides_password_witness:
  "\<exists>t' u'. run (sample_world\<lparr>w_ssh := other_ssh\<rparr>) sample_options [] = Some (Inr kSuccess, t')
     \<and> run (sample_world\<lparr>w_ssh := other_ssh\<rparr>) (with_secret ''public'' sample_options) [] = Some (Inr kSuccess, u')
     \<and> same_view t' u'"
proof -
  let ?w = "sample_world\<lparr>w_ssh := other_ssh\<rparr>"
  have o: "opt_password_from_cli sample_options" "opt_ssh_password sample_options \<noteq> []" "''public'' \<noteq> ([] :: string)"
    by code_simp+
  have pw: "opt_ssh_password sample_options = ''secret''" by (simp add: sample_options_def)
  have l: "length (c_str ''secret'') = 6" "length (c_str ''public'') = 6" by code_simp+
  have a: "alike (w_ssh ?w) (opt_ssh_password sample_options) ''public''"
    unfolding alike_def pw by (simp add: other_ssh_def l)
  have b: "blind_library (w_ssh ?w)"
    using same_view_delivers by (auto simp: blind_library_def blind_def other_ssh_def sample_world_def sample_ssh_def)
  have "map_option fst (run ?w sample_options []) = Some (Inr kSuccess)" by code_simp
  then obtain t' where "run ?w sample_options [] = Some (Inr kSuccess, t')" by auto
  with run_hides_password [OF o a b, of "[]"] show ?thesis
    by (auto simp: option_rel_Some1 elim: rel_prod.cases)
qed

end
