(* ===== verification/Timeouts.thy ===== *)
theory Timeouts
  imports Device_Discovery
begin

text \<open>
  What becomes of a timeout between the command line of \<open>src/src/main.cpp\<close> and the calls that
  wait: \<open>parse_positive\<close> accepts every value of 64 bits, the interfaces take 32.
\<close>

lemma low_word_negative:
  assumes "2 ^ 31 \<le> v mod 2 ^ 32"
  shows "sint (word_of_int v :: u32) < 0"
proof -
  have "v mod 2 ^ 32 div 2 ^ 31 = 1" using assms pos_mod_bound [of "2 ^ 32" v] by simp
  then have "bit (take_bit 32 v) 31" by (simp add: bit_iff_odd take_bit_eq_mod)
  then have "bit v 31" by (simp add: bit_take_bit_iff)
  then show ?thesis by (simp add: signed_of_int signed_take_bit_negative_iff)
qed

lemma long_timeout_negative:
  assumes "0 < v" and "2 ^ 31 \<le> v mod 2 ^ 32"
  shows "poll_timeout v < 0" and "long_of v < 0"
  using low_word_negative [OF assms(2)] assms(1) by (simp_all add: poll_timeout_def long_of_def)

definition timeout_arguments :: "int \<Rightarrow> string list" where
  "timeout_arguments v = [''--timeout'', dec_of_int v, ''--banner-timeout'', dec_of_int v, ''--auth-timeout'', dec_of_int v,
     ''--command-timeout'', dec_of_int v, ''--layer2-window'', dec_of_int v]"

text \<open>C40: The command line accepts timeouts that the program cannot keep. When bit 31 of the value is set, the
wait for a connection is called with a negative, that is unlimited, timeout, and libssh2 gets a negative
one for the authentication and the commands; a value above \<open>LLONG_MAX\<close> nanoseconds moves the
deadlines of the banner and of the capture out of the range of the 64-bit clock.\<close>

theorem accepted_timeouts_overflow:
  assumes "0 < v" and "v \<le> LLONG_MAX" and "2 ^ 31 \<le> v mod 2 ^ 32"
  shows "\<exists>options. parse_options (timeout_arguments v) default_options = Inr options
    \<and> (\<forall>os h. \<exists>ms < 0. run_state (wait_for_socket os h True (opt_connect_timeout options))
        = run_state (syscall (os_WSAPoll os h True ms) (Sock \<circ> Ev_WSAPoll h True ms)))
    \<and> long_of (cfg_auth_timeout (ssh_config_for options password device)) < 0
    \<and> long_of (cfg_command_timeout (ssh_config_for options password device)) < 0
    \<and> (LLONG_MAX div kNanosPerMilli < v \<longrightarrow> (\<forall>start \<ge> 0.
        LLONG_MAX < start + opt_banner_timeout options * kNanosPerMilli
        \<and> LLONG_MAX < start + opt_layer2_window options * kNanosPerMilli))"
proof -
  define options where "options = default_options\<lparr>opt_connect_timeout := v, opt_banner_timeout := v,
    opt_auth_timeout := v, opt_command_timeout := v, opt_layer2_window := v\<rparr>"
  have "parse_options (timeout_arguments v) default_options = Inr options"
    unfolding timeout_arguments_def parse_ms [OF assms(1,2)] parse_options.simps(1) by (simp add: options_def)
  moreover have "LLONG_MAX < start + v * kNanosPerMilli" if "LLONG_MAX div kNanosPerMilli < v" "0 \<le> start" for start
    using that by (simp add: kNanosPerMilli_def LLONG_MAX_def)
  ultimately show ?thesis
    using long_timeout_negative [OF assms(1,3)]
    by (intro exI [of _ options] conjI) (auto simp: options_def wait_for_socket_def ssh_config_for_def)
qed

theorem accepted_timeouts_overflow_witness:
  "\<exists>options. parse_options (timeout_arguments LLONG_MAX) default_options = Inr options
    \<and> long_of (cfg_command_timeout (ssh_config_for options ''secret'' (fresh_result ''10.0.0.5''))) < 0
    \<and> LLONG_MAX < opt_banner_timeout options * kNanosPerMilli"
proof -
  have h: "0 < LLONG_MAX" "LLONG_MAX \<le> LLONG_MAX" "2 ^ 31 \<le> LLONG_MAX mod 2 ^ 32" "LLONG_MAX div kNanosPerMilli < LLONG_MAX"
    by (simp_all add: LLONG_MAX_def kNanosPerMilli_def)
  from accepted_timeouts_overflow [OF h(1-3), of "''secret''" "fresh_result ''10.0.0.5''"] h(4)
  obtain options where "parse_options (timeout_arguments LLONG_MAX) default_options = Inr options"
    "long_of (cfg_command_timeout (ssh_config_for options ''secret'' (fresh_result ''10.0.0.5''))) < 0"
    "\<forall>start \<ge> 0. LLONG_MAX < start + opt_banner_timeout options * kNanosPerMilli" by blast
  moreover from this(3) [rule_format, of 0] have "LLONG_MAX < opt_banner_timeout options * kNanosPerMilli" by simp
  ultimately show ?thesis by blast
qed

end
