(* ===== verification/Terminal_Output.thy ===== *)
theory Terminal_Output
  imports End_To_End
begin

text \<open>
  What a device can make the program of \<open>src/src/main.cpp\<close> write to the terminal: the JSON report escapes
  the control characters below 20 (hexadecimal), but neither 7F nor 80 to 9F, and the text report has all those
  of the interface names.
\<close>

text \<open>No control character of the range 00 to 1F but the line feed; DEL and 80 to 9F pass.\<close>

definition no_c0 :: "char \<Rightarrow> bool" where
  "no_c0 c \<longleftrightarrow> c = newline \<or> 0x20 \<le> code c"

lemma hex2_no_c0: "list_all no_c0 (hex2 w)"
proof -
  have d: "no_c0 (digit_char n)" if "n < 16" for n
    using that by (simp add: digit_char_def no_c0_def)
  have "unat w < 2 ^ LENGTH(8)" by (rule unsigned_less)
  then have "unat w < 256" by simp
  then show ?thesis using d by (simp add: hex2_def)
qed

lemma json_escape_no_c0: "list_all no_c0 (json_escape s)"
proof -
  have "list_all no_c0 (json_char c)" for c
    using hex2_no_c0 by (auto simp: json_char_def no_c0_def not_less)
  then show ?thesis by (induction s) (simp_all add: json_escape_def)
qed

lemma put_line_no_c0: "list_all no_c0 (put_line s) \<longleftrightarrow> list_all no_c0 s"
  by (simp add: put_line_def no_c0_def)

lemma json_elements_no_c0: "list_all (list_all no_c0) es \<Longrightarrow> list_all no_c0 (json_elements first es)"
  by (induction es arbitrary: first) (simp_all add: no_c0_def)

lemma json_array_no_c0: "list_all (list_all no_c0) es \<Longrightarrow> list_all no_c0 (json_array es)"
  using json_elements_no_c0 [of es True] by (simp add: json_array_def) (simp add: no_c0_def)

lemma json_member_no_c0: "list_all no_c0 indent \<Longrightarrow> list_all no_c0 key \<Longrightarrow> list_all no_c0 (json_member indent key value)"
  using json_escape_no_c0 by (simp add: json_member_def quoted_def) (simp add: no_c0_def)

lemma format_json_no_c0: "list_all no_c0 (format_json report)"
proof -
  have lit: "list_all no_c0 ''  ''" "list_all no_c0 ''ssh_ip''" "list_all no_c0 ''ssh_banner''" "list_all no_c0 ''local_interface''"
    "list_all no_c0 ''discovery_stage''" "list_all no_c0 ''host_key_status''" "list_all no_c0 '',''" "list_all no_c0 ''{''"
    "list_all no_c0 ''}''" "list_all no_c0 '': ''" "list_all no_c0 (quoted ''interfaces'')" "list_all no_c0 (quoted ''warnings'')"
    "list_all no_c0 ''    ''" "list_all no_c0 ''      ''" "list_all no_c0 ''name''" "list_all no_c0 ''ipv4''"
    "list_all no_c0 ''    {''" "list_all no_c0 ''    }''"
    by (simp_all add: no_c0_def quoted_def)
  have "list_all no_c0 (json_interface r)" for r
    unfolding json_interface_def list_all_append put_line_no_c0 by (intro conjI json_member_no_c0 lit)
  moreover have "list_all no_c0 (''    '' @ quoted (json_escape s))" for s
    using json_escape_no_c0 [of s] by (simp add: quoted_def) (simp add: no_c0_def)
  ultimately show ?thesis
    unfolding format_json_def list_all_append put_line_no_c0
    by (intro conjI json_member_no_c0 json_array_no_c0 lit) (simp_all add: list_all_iff)
qed

lemma format_text_names:
  assumes "r \<in> set (rep_interfaces report)"
  shows "contains (ri_name r) (format_text report)"
proof -
  define row where "row r = put_line (''  '' @ setw_left (name_width (rep_interfaces report) + 2) (ri_name r) @ ri_ipv4 r)" for r :: RemoteInterface
  obtain xs ys where rs: "rep_interfaces report = xs @ r # ys" using assms by (auto dest: split_list)
  have "contains (ri_name r) (row r)"
    unfolding contains_iff row_def setw_left_def put_line_def
    by (intro exI [of _ "''  ''"] exI [of _ "replicate (name_width (rep_interfaces report) + 2 - length (ri_name r)) CHR '' ''
      @ ri_ipv4 r @ [newline]"]) simp
  then have "contains (ri_name r) (concat (map row xs) @ row r @ concat (map row ys))"
    by (rule contains_extend)
  then have "contains (ri_name r) (concat (map row (rep_interfaces report)))" by (simp add: rs)
  moreover have "rep_interfaces report \<noteq> []" using assms by auto
  ultimately show ?thesis
    unfolding format_text_def Let_def row_def [symmetric] if_not_P [OF \<open>rep_interfaces report \<noteq> []\<close>]
    by (intro contains_extend)
qed

lemma contains_left: "contains p s \<Longrightarrow> contains p (s @ s')"
  using contains_extend [of p s "[]" s'] by simp

lemma contains_right: "contains p s' \<Longrightarrow> contains p (s @ s')"
  using contains_extend [of p s' s "[]"] by simp

lemma contains_self: "contains p p"
  unfolding contains_iff by (intro exI [of _ "[]"]) simp

lemma contains_trans: "contains p s \<Longrightarrow> contains s s' \<Longrightarrow> contains p s'"
  unfolding contains_iff by (metis append.assoc)

lemma json_elements_contains: "e \<in> set es \<Longrightarrow> contains e (json_elements first es)"
proof (induction es arbitrary: first)
  case (Cons a es)
  show ?case
  proof (cases "e = a")
    case True
    show ?thesis unfolding json_elements.simps True by (intro contains_right contains_left contains_self)
  next
    case False
    with Cons have "contains e (json_elements False es)" by simp
    then show ?thesis unfolding json_elements.simps by (intro contains_right)
  qed
qed simp

lemma format_json_names:
  assumes "r \<in> set (rep_interfaces report)"
  shows "contains (json_escape (ri_name r)) (format_json report)"
proof -
  have "contains (json_escape (ri_name r)) (quoted (json_escape (ri_name r)))"
    unfolding quoted_def by (rule contains_extend [OF contains_self])
  then have "contains (json_escape (ri_name r)) (json_member ''      '' ''name'' (ri_name r))"
    unfolding json_member_def by (rule contains_right [THEN contains_right, THEN contains_right])
  then have "contains (json_escape (ri_name r)) (json_interface r)"
    unfolding json_interface_def put_line_def
    by (rule contains_left [THEN contains_left, THEN contains_left, THEN contains_right])
  moreover have "contains (json_interface r) (json_array (map json_interface (rep_interfaces report)))"
    unfolding json_array_def using assms by (intro contains_extend json_elements_contains) simp
  moreover have "contains (json_array (map json_interface (rep_interfaces report))) (format_json report)"
    (is "contains ?a _")
  proof -
    have "contains ?a (put_line (''  '' @ quoted ''interfaces'' @ '': '' @ ?a @ '',''))"
      unfolding put_line_def by (intro contains_left contains_right contains_self)
    then show ?thesis
      unfolding format_json_def
      by (rule contains_left [THEN contains_right, THEN contains_right, THEN contains_right, THEN contains_right,
            THEN contains_right, THEN contains_right])
  qed
  ultimately show ?thesis by (blast intro: contains_trans)
qed

text \<open>The banner of a device that discovery found is sanitised.\<close>

lemma probe_banner_printable: "list_all printable (pr_banner (fst (run_state (probe_ssh os ip port connect_timeout banner_timeout) t)))"
proof -
  obtain r h t0 where c: "run_state (tcp_connect os ip port connect_timeout) t = ((r, h), t0)"
    by (metis surj_pair)
  obtain b t1 where b: "run_state (read_ssh_banner os h ip banner_timeout) t0 = (b, t1)" by force
  have "list_all printable (pr_banner b)"
    using banner_from_bytes [OF b] sanitize_printable by (auto simp: list_all_iff)
  then show ?thesis using c b by (simp add: probe_ssh_def fresh_result_def split_beta)
qed

lemma found_banner_printable:
  assumes "find_sequential w options iface t = Some ((devices, stage, diagnostic), u)" and "device \<in> set devices"
  shows "list_all printable (pr_banner device)"
  using found_devices_probed [OF assms(1)] assms(2) probe_banner_printable
  by (auto simp: list_all_iff probed_device_def)

lemma printed_reports:
  assumes "run w options t = Some (result, t @ es)" and "Proc (Ev_stdout s) \<in> set es"
  shows "\<exists>report. s = (if opt_json options then format_json report else format_text report)"
proof -
  have no: "Proc (Ev_stdout s) \<notin> set fs" if "hushed t1 (t1 @ fs)" for t1 fs
    using that by (auto simp: adds_def list_all_iff writes_out_def)
  from run_hushed [OF assms(1)] no [of t es] assms(2) obtain t1 code where
    h: "hushed t t1" "reported (os_inet (w_os w)) options code t1 (t @ es)"
    by (auto split: if_splits)
  from h(1) obtain as where as: "t1 = t @ as" by (auto simp: adds_def)
  from h(2) obtain report where r: "es = as @ [Proc (Ev_stdout (if opt_json options then format_json report else format_text report))]"
    unfolding reported_def as by auto
  from h(1) have "Proc (Ev_stdout s) \<notin> set as" unfolding as by (rule no)
  with assms(2) have "s = (if opt_json options then format_json report else format_text report)" unfolding r by simp
  then show ?thesis by blast
qed

definition escape :: char where "escape = CHR 0x1B"

definition clearing_interface :: RemoteInterface where
  "clearing_interface = \<lparr>ri_name = escape # ''[2J'', ri_ipv4 = ''10.0.0.5''\<rparr>"

text \<open>The same sequence with the control character CSI of the upper range.\<close>

definition csi_interface :: RemoteInterface where
  "csi_interface = \<lparr>ri_name = CHR 0x9B # ''2J'', ri_ipv4 = ''10.0.0.5''\<rparr>"

lemma printed_names:
  assumes "run w options t = Some (Inr exit_code, t @ es)" and "opt_mock_ifconfig_file options = []" and "reporting exit_code"
  shows "\<exists>xs ys zs s command listing printed. es = xs @ ys @ zs @ [Proc (Ev_stdout printed)]
    \<and> delivers_listing s command listing ys
    \<and> (\<forall>r \<in> set (parse_listing (os_inet (w_os w)) command listing).
         contains (if opt_json options then json_escape (ri_name r) else ri_name r) printed)"
proof -
  from run_reports [OF assms] obtain iface stage device status s command listing xs ys zs where
    r: "t @ es = t @ xs @ ys @ zs @ [Proc (Ev_stdout (rendered options (report_of iface stage device status
       (parse_listing (os_inet (w_os w)) command listing))))]" "delivers_listing s command listing ys" by metis
  have "contains (if opt_json options then json_escape (ri_name i) else ri_name i)
      (rendered options (report_of iface stage device status is))" if "i \<in> set is" for i "is"
  proof -
    have "i \<in> set (rep_interfaces (report_of iface stage device status is))" using that by (simp add: report_of_def)
    from format_json_names [OF this] format_text_names [OF this] show ?thesis by (simp add: rendered_def)
  qed
  with r show ?thesis
    by (intro exI [of _ xs] exI [of _ ys] exI [of _ zs] exI [of _ s] exI [of _ command] exI [of _ listing]
        exI [of _ "rendered options (report_of iface stage device status (parse_listing (os_inet (w_os w)) command listing))"]) simp
qed

text \<open>C38: What a run lets through to the terminal. With \<open>--json\<close>, nothing that it writes to standard output
holds a character below 20 (hexadecimal) but line feeds. The banner of every device that discovery finds
is printable ASCII. But the text report of a run holds the name of every interface that was parsed from the bytes the
device delivered, as it is, and the JSON report holds it but for the escapes, which leave 7F and
everything above alone; and the parser accepts a name with the sequence that clears the terminal, in the
7-bit form with the escape character and in the 8-bit form with 9B.\<close>

theorem terminal_output:
  assumes "run w options t = Some (result, t @ es)"
  shows "(opt_json options \<longrightarrow> (\<forall>s. Proc (Ev_stdout s) \<in> set es \<longrightarrow> list_all (\<lambda>c. c = newline \<or> 0x20 \<le> code c) s))
   \<and> (\<forall>iface u devices stage diagnostic u' device.
        find_sequential w options iface u = Some ((devices, stage, diagnostic), u') \<and> device \<in> set devices
          \<longrightarrow> list_all printable (pr_banner device))
   \<and> (opt_mock_ifconfig_file options = [] \<and> (result = Inr kSuccess \<or> result = Inr kUnexpectedInterfaceCount) \<longrightarrow>
        (\<exists>xs ys zs s command listing printed. es = xs @ ys @ zs @ [Proc (Ev_stdout printed)]
          \<and> delivers_listing s command listing ys
          \<and> (\<forall>r \<in> set (parse_listing (os_inet (w_os w)) command listing).
               contains (if opt_json options then json_escape (ri_name r) else ri_name r) printed)))
   \<and> (\<forall>c. 0x7F \<le> code c \<longrightarrow> json_char c = [c])
   \<and> parse_ifconfig_output dotted_api (net_tools_text [clearing_interface]) = [clearing_interface]
   \<and> parse_ifconfig_output dotted_api (net_tools_text [csi_interface]) = [csi_interface]
   \<and> json_escape (ri_name csi_interface) = ri_name csi_interface"
proof (intro conjI)
  have json: "list_all (\<lambda>c. c = newline \<or> 0x20 \<le> code c) (format_json report)" for report
    using format_json_no_c0 [of report] by (simp add: no_c0_def [abs_def])
  show "opt_json options \<longrightarrow> (\<forall>s. Proc (Ev_stdout s) \<in> set es \<longrightarrow> list_all (\<lambda>c. c = newline \<or> 0x20 \<le> code c) s)"
    by (auto dest!: printed_reports [OF assms] simp: json)
  show "\<forall>iface u devices stage diagnostic u' device.
      find_sequential w options iface u = Some ((devices, stage, diagnostic), u') \<and> device \<in> set devices
        \<longrightarrow> list_all printable (pr_banner device)"
    using found_banner_printable by blast
  show "opt_mock_ifconfig_file options = [] \<and> (result = Inr kSuccess \<or> result = Inr kUnexpectedInterfaceCount) \<longrightarrow>
      (\<exists>xs ys zs s command listing printed. es = xs @ ys @ zs @ [Proc (Ev_stdout printed)]
        \<and> delivers_listing s command listing ys
        \<and> (\<forall>r \<in> set (parse_listing (os_inet (w_os w)) command listing).
             contains (if opt_json options then json_escape (ri_name r) else ri_name r) printed))"
    (is "_ \<longrightarrow> ?names")
  proof (intro impI, elim conjE)
    assume real: "opt_mock_ifconfig_file options = []" and "result = Inr kSuccess \<or> result = Inr kUnexpectedInterfaceCount"
    then obtain code where code: "result = Inr code" "reporting code" by (auto simp: reporting_def)
    show ?names by (rule printed_names [OF assms [unfolded code(1)] real code(2)])
  qed
  show "\<forall>c. 0x7F \<le> code c \<longrightarrow> json_char c = [c]"
    by (auto simp: json_char_def)
  have "\<forall>r \<in> set [clearing_interface]. plain_interface dotted_api r" "\<forall>r \<in> set [csi_interface]. plain_interface dotted_api r"
    by code_simp+
  from this [THEN net_tools_parse]
  show "parse_ifconfig_output dotted_api (net_tools_text [clearing_interface]) = [clearing_interface]"
    and "parse_ifconfig_output dotted_api (net_tools_text [csi_interface]) = [csi_interface]"
    by (simp_all add: is_loopback_interface_name_def clearing_interface_def csi_interface_def escape_def)
  show "json_escape (ri_name csi_interface) = ri_name csi_interface" by code_simp
qed

definition sample_text_options :: Options where
  "sample_text_options = sample_options\<lparr>opt_json := False\<rparr>"

theorem terminal_output_witness:
  "(\<exists>es. run sample_world sample_options [] = Some (Inr kSuccess, es)
      \<and> (\<forall>s. Proc (Ev_stdout s) \<in> set es \<longrightarrow> list_all (\<lambda>c. c = newline \<or> 0x20 \<le> code c) s))
   \<and> (\<exists>es s command listing ys. run sample_world sample_text_options [] = Some (Inr kSuccess, es)
      \<and> delivers_listing s command listing ys)"
proof (intro conjI)
  obtain es where r: "run sample_world sample_options [] = Some (Inr kSuccess, [] @ es)" using sample_run by auto
  have "opt_json sample_options" by (simp add: sample_options_def)
  with terminal_output [OF r] r show "\<exists>es. run sample_world sample_options [] = Some (Inr kSuccess, es)
      \<and> (\<forall>s. Proc (Ev_stdout s) \<in> set es \<longrightarrow> list_all (\<lambda>c. c = newline \<or> 0x20 \<le> code c) s)" by auto
next
  have "map_option fst (run sample_world sample_text_options []) = Some (Inr kSuccess)" by code_simp
  then obtain es where r: "run sample_world sample_text_options [] = Some (Inr kSuccess, [] @ es)" by auto
  have "opt_mock_ifconfig_file sample_text_options = []"
    by (simp add: sample_text_options_def sample_options_def default_options_def)
  with terminal_output [OF r] r show "\<exists>es s command listing ys. run sample_world sample_text_options [] = Some (Inr kSuccess, es)
      \<and> delivers_listing s command listing ys" by auto
qed

end
