(* ===== verification/Repository_Tests.thy ===== *)
theory Repository_Tests
  imports Device_Discovery
begin

text \<open>
  The unit tests of \<open>src/tests/\<close> that need no live network, evaluated on the model: the inputs and the
  expected values are those of the test functions named in the texts. They check the translation, not the
  program.
\<close>

section \<open>\<open>test_ifconfig_parser.cpp\<close>\<close>

definition kNetToolsOutput :: string where
  "kNetToolsOutput = text_of_lines
     [''eth0: flags=4163<UP,BROADCAST,RUNNING,MULTICAST>  mtu 1500'',
      ''        inet 192.168.10.50  netmask 255.255.255.0  broadcast 192.168.10.255'',
      ''        inet6 fe80::20c:29ff:fe4a:1b2c  prefixlen 64  scopeid 0x20<link>'',
      ''        ether 00:0c:29:4a:1b:2c  txqueuelen 1000  (Ethernet)'',
      ''        RX packets 1024  bytes 98765 (96.4 KiB)'',
      [],
      ''eth1: flags=4163<UP,BROADCAST,RUNNING,MULTICAST>  mtu 1500'',
      ''        inet 10.20.30.1  netmask 255.255.255.0  broadcast 10.20.30.255'',
      ''        ether 00:0c:29:4a:1b:36  txqueuelen 1000  (Ethernet)'',
      [],
      ''lo: flags=73<UP,LOOPBACK,RUNNING>  mtu 65536'',
      ''        inet 127.0.0.1  netmask 255.0.0.0'',
      ''        inet6 ::1  prefixlen 128  scopeid 0x10<host>'']"

definition kBusyboxOutput :: string where
  "kBusyboxOutput = text_of_lines
     [''ens33     Link encap:Ethernet  HWaddr 00:0C:29:4A:1B:2C'',
      ''          inet addr:192.168.10.50  Bcast:192.168.10.255  Mask:255.255.255.0'',
      ''          inet6 addr: fe80::20c:29ff:fe4a:1b2c/64 Scope:Link'',
      ''          UP BROADCAST RUNNING MULTICAST  MTU:1500  Metric:1'',
      [],
      ''enp2s0    Link encap:Ethernet  HWaddr 00:0C:29:4A:1B:36'',
      ''          inet addr:10.20.30.1  Bcast:10.20.30.255  Mask:255.255.255.0'',
      ''          UP BROADCAST RUNNING MULTICAST  MTU:1500  Metric:1'',
      [],
      ''lo        Link encap:Local Loopback'',
      ''          inet addr:127.0.0.1  Mask:255.0.0.0'',
      ''          UP LOOPBACK RUNNING  MTU:65536  Metric:1'']"

definition kIpAddrOutput :: string where
  "kIpAddrOutput = text_of_lines
     [''1: lo: <LOOPBACK,UP,LOWER_UP> mtu 65536 qdisc noqueue state UNKNOWN group default qlen 1000'',
      ''    inet 127.0.0.1/8 scope host lo'',
      ''       valid_lft forever preferred_lft forever'',
      ''2: enp1s0: <BROADCAST,MULTICAST,UP,LOWER_UP> mtu 1500 qdisc fq_codel state UP group default qlen 1000'',
      ''    inet 192.168.10.50/24 brd 192.168.10.255 scope global enp1s0'',
      ''       valid_lft forever preferred_lft forever'',
      ''3: enp2s0: <BROADCAST,MULTICAST,UP,LOWER_UP> mtu 1500 qdisc fq_codel state UP group default qlen 1000'',
      ''    inet 10.20.30.1/24 brd 10.20.30.255 scope global enp2s0'',
      ''       valid_lft forever preferred_lft forever'']"

definition ipv6_only_output :: string where
  "ipv6_only_output = text_of_lines
     [''eth0: flags=4163<UP,BROADCAST,RUNNING,MULTICAST>  mtu 1500'',
      ''        inet6 2001:db8::1  prefixlen 64  scopeid 0x0<global>'',
      ''        ether 00:0c:29:4a:1b:2c'']"

definition two_addresses_output :: string where
  "two_addresses_output = text_of_lines
     [''enp1s0: flags=4163<UP>  mtu 1500'',
      ''        inet 192.168.0.2  netmask 255.255.255.0'',
      ''        inet 192.168.0.3  netmask 255.255.255.0'']"

definition interfaces_of :: "(string \<times> string) list \<Rightarrow> RemoteInterface list" where
  "interfaces_of rs = map (\<lambda>(name, ipv4). \<lparr>ri_name = name, ri_ipv4 = ipv4\<rparr>) rs"

text \<open>The three formats of the listing.\<close>

lemma test_net_tools_format:
  "parse_ifconfig_output dotted_api kNetToolsOutput = interfaces_of [(''eth0'', ''192.168.10.50''), (''eth1'', ''10.20.30.1'')]"
  by code_simp

lemma test_busybox_format:
  "parse_ifconfig_output dotted_api kBusyboxOutput = interfaces_of [(''ens33'', ''192.168.10.50''), (''enp2s0'', ''10.20.30.1'')]"
  by code_simp

lemma test_ip_addr_format:
  "parse_ip_addr_output dotted_api kIpAddrOutput = interfaces_of [(''enp1s0'', ''192.168.10.50''), (''enp2s0'', ''10.20.30.1'')]"
  by code_simp

text \<open>An interface without an IPv4 address, garbage, several addresses of one interface.\<close>

lemma test_ipv6_only:
  "parse_ifconfig_output dotted_api ipv6_only_output = []"
  by code_simp

lemma test_empty:
  "parse_ifconfig_output dotted_api [] = []"
  by code_simp

lemma test_garbage:
  "parse_ifconfig_output dotted_api (put_line ''command not found'') = []"
  by code_simp

lemma test_empty_ip_addr:
  "parse_ip_addr_output dotted_api [] = []"
  by code_simp

lemma test_two_addresses:
  "parse_ifconfig_output dotted_api two_addresses_output
     = interfaces_of [(''enp1s0'', ''192.168.0.2''), (''enp1s0'', ''192.168.0.3'')]"
  by code_simp

section \<open>\<open>test_formatter.cpp\<close>\<close>

definition make_report :: DiscoveryReport where
  "make_report = \<lparr>rep_interface_name = ''enp3s0'', rep_ssh_ip = ''192.168.10.50'', rep_ssh_banner = ''SSH-2.0-OpenSSH_9.6'',
     rep_host_key_status = ''unknown'', rep_discovery_stage = ''subnet-scan'',
     rep_interfaces = interfaces_of [(''eth0'', ''192.168.10.50''), (''eth1'', ''10.20.30.1'')], rep_warnings = []\<rparr>"

definition mentions :: "string \<Rightarrow> string list \<Rightarrow> bool" where
  "mentions s patterns = list_all (\<lambda>p. contains p s) patterns"

lemma test_text_output:
  "mentions (format_text make_report) [''Directly connected device discovered'', ''SSH-2.0-OpenSSH_9.6'', ''eth0'', ''10.20.30.1'']"
  by code_simp

lemma test_json_escaping:
  "json_escape (''a'' @ CHR 0x22 # ''b'' @ CHR 0x5C # ''c'') = ''a'' @ CHR 0x5C # CHR 0x22 # ''b'' @ CHR 0x5C # CHR 0x5C # ''c''"
  "json_escape (''line'' @ newline # ''break'') = ''line'' @ CHR 0x5C # ''nbreak''"
  by code_simp+

section \<open>\<open>test_interface_discovery.cpp\<close>\<close>

definition make_snapshot :: "string \<Rightarrow> string \<Rightarrow> string \<Rightarrow> InterfaceSnapshot" where
  "make_snapshot name ip netmask_text = \<lparr>snap_name = name, snap_ipv4 = ip, snap_netmask = netmask_text, snap_is_loopback = False,
     snap_is_up = True, snap_is_running = True, snap_is_point_to_point = False, snap_has_ipv4 = (ip \<noteq> []),
     snap_if_index = 0, snap_mac = [], snap_description = []\<rparr>"

definition loopback_snapshot :: InterfaceSnapshot where
  "loopback_snapshot = (make_snapshot ''Loopback Pseudo-Interface 1'' ''127.0.0.1'' ''255.0.0.0'')\<lparr>snap_is_loopback := True\<rparr>"

definition interface_facts :: "NetworkInterface \<Rightarrow> string \<times> nat \<times> nat" where
  "interface_facts iface = (ni_name iface, prefix_length iface, unat (usable_host_count iface))"

lemma test_single_ethernet:
  "map interface_facts (filter_candidate_interfaces dotted_api
      [loopback_snapshot, make_snapshot ''Ethernet 2'' ''192.168.10.20'' ''255.255.255.0'']) = [(''Ethernet 2'', 24, 254)]"
  by code_simp

lemma test_loopback_only:
  "filter_candidate_interfaces dotted_api [loopback_snapshot] = []"
  by code_simp

lemma test_multiple_candidates:
  "length (filter_candidate_interfaces dotted_api
      [make_snapshot ''Ethernet'' ''192.168.1.5'' ''255.255.255.0'', make_snapshot ''Ethernet 3'' ''10.0.0.5'' ''255.255.255.0'']) = 2"
  by code_simp

lemma test_without_ipv4:
  "filter_candidate_interfaces dotted_api [make_snapshot ''Ethernet 4'' [] []] = []"
  by code_simp

lemma test_down:
  "filter_candidate_interfaces dotted_api
      [(make_snapshot ''Ethernet'' ''192.168.1.5'' ''255.255.255.0'')\<lparr>snap_is_up := False, snap_is_running := False\<rparr>] = []"
  by code_simp

lemma test_no_carrier:
  "filter_candidate_interfaces dotted_api
      [(make_snapshot ''Ethernet'' ''192.168.1.5'' ''255.255.255.0'')\<lparr>snap_is_running := False\<rparr>] = []"
  by code_simp

lemma test_virtual_names:
  "list_all is_virtual_interface_name [''vEthernet (Default Switch)'', ''VMware Network Adapter VMnet1'',
      ''VirtualBox Host-Only Network'', ''Loopback Pseudo-Interface 1'', ''TAP-Windows Adapter V9'',
      ''Bluetooth Network Connection'', ''docker0'']"
  by code_simp

lemma test_real_names:
  "\<not> list_ex is_virtual_interface_name [''Ethernet'', ''Ethernet 2'', ''Wi-Fi'']"
  by code_simp

lemma test_network_arithmetic:
  "map (\<lambda>iface. (interface_facts iface, network iface, broadcast iface))
     (filter_candidate_interfaces dotted_api [make_snapshot ''Ethernet'' ''192.168.10.20'' ''255.255.255.128''])
   = [((''Ethernet'', 25, 126), 0xC0A80A00, 0xC0A80A7F)]"
  by code_simp

section \<open>\<open>test_subnet_sweep.cpp\<close>\<close>

definition hosts_of :: "string \<Rightarrow> string \<Rightarrow> string list" where
  "hosts_of ip netmask_text = concat (map (\<lambda>iface. enumerate_subnet_hosts dotted_api iface kMinimumScanPrefix)
     (filter_candidate_interfaces dotted_api [make_snapshot ''Ethernet'' ip netmask_text]))"

lemma test_enumeration:
  "hosts_of ''10.0.0.1'' ''255.255.255.252'' = [''10.0.0.2'']"
  "hosts_of ''10.0.0.0'' ''255.255.255.254'' = [''10.0.0.1'']"
  "hosts_of ''10.1.2.3'' ''255.0.0.0'' = []"
  by code_simp+

section \<open>\<open>test_arp_discovery.cpp\<close>\<close>

definition cache_entry :: "u32 \<Rightarrow> string \<Rightarrow> string \<Rightarrow> bool \<Rightarrow> NeighbourEntry" where
  "cache_entry if_index ip mac resolved = \<lparr>ne_if_index = if_index, ne_ip = ip, ne_mac = mac, ne_reachable = resolved\<rparr>"

definition sample_cache :: "NeighbourEntry list" where
  "sample_cache =
     [cache_entry 11 ''192.168.10.50'' ''00:0c:29:4a:1b:2c'' True,
      cache_entry 11 ''192.168.10.99'' ''00:00:00:00:00:00'' True,
      cache_entry 11 ''192.168.10.77'' ''00:0c:29:4a:1b:33'' False,
      cache_entry 11 ''224.0.0.22'' ''01:00:5e:00:00:16'' True,
      cache_entry 11 ''255.255.255.255'' ''ff:ff:ff:ff:ff:ff'' True,
      cache_entry 7 ''10.0.0.1'' ''aa:bb:cc:dd:ee:ff'' True]"

lemma test_neighbour_entries:
  "map (\<lambda>observation. (obs_ip observation, obs_mac observation, observation_source_text (obs_source observation)))
     (select_neighbour_entries dotted_api sample_cache 11) = [(''192.168.10.50'', ''00:0c:29:4a:1b:2c'', ''neighbour-cache'')]"
  "select_neighbour_entries dotted_api sample_cache 99 = []"
  "select_neighbour_entries dotted_api [] 11 = []"
  "length (select_neighbour_entries dotted_api [hd sample_cache, hd sample_cache] 11) = 1"
  by code_simp+

definition packet_from :: "u8 \<Rightarrow> u8 list" where
  "packet_from first = first # replicate 11 0 @ [192, 168, 10, 50] @ replicate 4 0"

lemma test_ipv4_source_parsing:
  "parse_ipv4_source_address dotted_api (Some (packet_from 0x45)) = ''192.168.10.50''"
  "parse_ipv4_source_address dotted_api (Some (take 10 (packet_from 0x45))) = []"
  "parse_ipv4_source_address dotted_api None = []"
  "parse_ipv4_source_address dotted_api (Some (packet_from 0x65)) = []"
  "parse_ipv4_source_address dotted_api (Some (packet_from 0x4F)) = []"
  by code_simp+

section \<open>\<open>test_ssh_detector.cpp\<close>\<close>

text \<open>\<open>FakeServer\<close>: it sends the payload and closes the connection; a silent one lets the poll time out.\<close>

definition fake_server :: "string \<Rightarrow> os" where
  "fake_server payload = sample_os\<lparr>os_recv := \<lambda>_ n t.
     if list_ex (\<lambda>e. case e of Sock (Ev_recv h k x) \<Rightarrow> True | _ \<Rightarrow> False) t then Received [] else Received (take n payload)\<rparr>"

definition silent_server :: os where
  "silent_server = sample_os\<lparr>os_WSAPoll := \<lambda>_ _ _ _. 0\<rparr>"

definition closed_port :: os where
  "closed_port = sample_os\<lparr>os_connect := \<lambda>_ _ _ _. - 1, os_SO_ERROR := \<lambda>_ _. (True, WSAECONNREFUSED)\<rparr>"

definition probe_local :: "os \<Rightarrow> SshProbeResult" where
  "probe_local os = fst (run_state (probe_ssh os ''127.0.0.1'' 2222 750 1000) [])"

lemma test_banner_validation:
  "list_all is_ssh_identification [''SSH-2.0-OpenSSH_9.6'', ''SSH-1.99-Cisco'']"
  "\<not> list_ex is_ssh_identification [''ssh-2.0-lowercase'', ''HTTP/1.1 200 OK'', []]"
  "sanitize_banner (''SSH-2.0-OpenSSH_9.6'' @ carriage_return # newline # ''more'') = ''SSH-2.0-OpenSSH_9.6''"
  "sanitize_banner (''SSH-2.0-'' @ CHR 0x1B # ''[31mEvil'' @ [carriage_return, newline]) = ''SSH-2.0-?[31mEvil''"
  by code_simp+

lemma test_valid_ssh: "is_ssh (probe_local (fake_server (''SSH-2.0-OpenSSH_9.6'' @ [carriage_return, newline])))"
  by code_simp

lemma test_valid_banner: "pr_banner (probe_local (fake_server (''SSH-2.0-OpenSSH_9.6'' @ [carriage_return, newline]))) = ''SSH-2.0-OpenSSH_9.6''"
  by code_simp

lemma test_non_ssh: "pr_status (probe_local (fake_server (''HTTP/1.1 400 Bad Request'' @ [carriage_return, newline]))) = NotSsh"
  by code_simp

lemma test_malformed: "pr_status (probe_local (fake_server (CHR 0x00 # CHR 0x01 # CHR 0x02 # ''SSH-''))) = NotSsh"
  by code_simp

lemma test_silent: "pr_status (probe_local silent_server) = NoBanner"
  by code_simp

lemma test_refused: "pr_status (probe_local closed_port) = PortClosed"
  by code_simp

section \<open>\<open>test_thread_pool.cpp\<close>\<close>

text \<open>An empty pool of eight workers shuts down, twice, and then refuses a task.\<close>

definition shut_pool :: "(nat, nat) pool option" where
  "shut_pool = run_actions Value (Begin_shutdown # Notify_all # map Check [0..<8] @ replicate 9 Join_next @ [Begin_shutdown])
     (thread_pool 8)"

lemma test_empty_queue_shutdown:
  "worker_count (thread_pool 8 :: (nat, nat) pool) = 8"
  "pending_tasks (thread_pool 8 :: (nat, nat) pool) = 0"
  "map_option (\<lambda>s. (phase s, submit 1 s)) shut_pool = Some (Joined, None)"
  by code_simp+

text \<open>A task that throws stores the exception in its future, and the pool runs the next one.\<close>

definition failing_then_seven :: "(nat, nat) pool option" where
  "failing_then_seven = run_actions (\<lambda>task. if task = 0 then Raised else Value task)
     [Submit 0, Notify_one None, Check 0, Finish 0, Submit 7, Notify_one None, Check 1, Finish 1] (thread_pool 2)"

lemma test_task_exception:
  "map_option (\<lambda>s. (future s 0, future s 1)) failing_then_seven = Some (Some Raised, Some (Value 7))"
  by code_simp

end
