(* ===== verification/Spec2Isabelle.thy ===== *)
theory Spec2Isabelle
  imports End_To_End Confinement Thread_Failures Mock_Mode Exit_Codes Password_Privacy Timeouts Terminal_Output
    Repository_Tests
begin

text \<open>
  A model of \<open>device-discovery\<close>, the C++ program under \<open>src/src/\<close> that finds the Linux
  device directly connected to a Windows PC, logs in over SSH and reports the IPv4 addresses of its network
  interfaces, and the theorems that make it correct.

  \<^bold>\<open>The program.\<close> \<open>main\<close> (\<open>main.cpp\<close>) starts Winsock, parses the
  command line and calls \<open>run\<close>. Mock mode parses a file and reports. Otherwise \<open>run\<close>
  resolves the password, selects the only candidate interface (\<open>network/interface_discovery.cpp\<close>),
  sweeps its subnet for SSH servers on a thread pool (\<open>scanner/subnet_sweep.cpp\<close>,
  \<open>threading/thread_pool.cpp\<close>, one \<open>probe_ssh\<close> of
  \<open>scanner/ssh_detector.cpp\<close> over \<open>scanner/port_scanner.cpp\<close> per address), and when it
  finds none listens on the link (\<open>network/arp_discovery.cpp\<close>) and sweeps the stations it saw. It
  shuts the pool down, chooses the device, connects (\<open>ssh/ssh_client.cpp\<close>), runs
  \<open>ifconfig\<close> or \<open>ip -4 addr\<close>, parses the output
  (\<open>parser/ifconfig_parser.cpp\<close>) and writes the report (\<open>output/formatter.cpp\<close>). When
  \<open>main\<close> has returned, the process ends with the destructor that cleans up Winsock
  (\<open>run_process\<close>).

  \<^bold>\<open>Theories.\<close> Each holds the definitions of one source file in the order of the source, and
  their lemmas:
  \<^item> \<open>Prelude\<close>, \<open>Keyed_Insert\<close>: shared types, collections and lemmas; insertion
    of items that are identified by a key, as a locale.
  \<^item> \<open>Config\<close>: \<open>config.hpp\<close>, defaults and exit codes (an instance of
    \<open>linorder\<close>).
  \<^item> \<open>Cxx_String\<close>: the standard library's string operations, decimals, stream extraction and
    text files.
  \<^item> \<open>Inet\<close>: \<open>inet_pton\<close>, \<open>inet_ntop\<close> and the byte orders as a
    parameter (\<open>inet_api\<close>); what the code relies on is the locales \<open>inet_text\<close> and
    \<open>inet_dotted\<close>, interpreted on a complete dotted-quad implementation.
  \<^item> \<open>Platform\<close>: \<open>platform/windows_sockets.cpp\<close>, and the traces on which all
    effects live.
  \<^item> \<open>Interface_Discovery\<close>, \<open>Subnet_Hosts\<close>, \<open>Arp_Discovery\<close>,
    \<open>Ifconfig_Parser\<close> (round trips of three formats in \<open>Ifconfig_Formats\<close>),
    \<open>Formatter\<close> (a JSON reader and the round trip in \<open>Report_Json\<close>),
    \<open>Port_Scanner\<close>, \<open>Ssh_Detector\<close>, \<open>Thread_Pool\<close>,
    \<open>Subnet_Sweep\<close>, \<open>Ssh_Client\<close>: the files of the same names;
    \<open>Subnet_Hosts\<close> and \<open>Subnet_Sweep\<close> share \<open>subnet_sweep.cpp\<close>.
  \<^item> \<open>Command_Line\<close>, \<open>Device_Discovery\<close>: \<open>main.cpp\<close>, the options
    and the program.
  \<^item> \<open>Run_Events\<close>, \<open>Sequential_Discovery\<close>, \<open>Run_Correctness\<close>: what
    the steps of the program add to the trace; discovery as a specification without threads, which the program
    refines; and the guarantees of a whole run.
  \<^item> \<open>End_To_End\<close>, \<open>Confinement\<close>, \<open>Thread_Failures\<close>: the report
    against the device it is about; what a run may do to the network, the device and its surroundings; and what
    becomes of it when the worker threads cannot be started.
  \<^item> \<open>Mock_Mode\<close>, \<open>Exit_Codes\<close>, \<open>Password_Privacy\<close>,
    \<open>Timeouts\<close>, \<open>Terminal_Output\<close>: further properties of a run, namely what mock mode
    reports, what the exit code says, what the password influences, what becomes of long timeouts, and what
    reaches the terminal.
  \<^item> \<open>Repository_Tests\<close>: the offline unit tests of \<open>src/tests/\<close>, evaluated on
    the model.

  \<^bold>\<open>State and effects.\<close> A trace is the list of the calls made so far, with their arguments
  and answers. An action is a state transformer over traces; a system or library call asks the environment
  (\<open>os\<close>, \<open>libssh2\<close>, \<open>net_table\<close>, or \<open>world\<close> for the
  program), whose answer may depend on the whole trace, and appends the call. Open sockets and SSH resources are
  functions of the trace (\<open>live_sockets\<close>, \<open>held\<close>). Errors are values: results of a sum
  or option type, or the enumerations of the code. Machine words keep their width; \<open>std::chrono\<close>
  milliseconds are integers.

  \<^bold>\<open>Loops and termination.\<close> The loops over strings, hosts and arguments are total functions.
  The capture loop and the two read loops may run forever, as in the code: they are partial functions into
  \<open>option\<close>, \<open>None\<close> being no return, and they are proved to return when the clock
  advances at least once in \<open>n\<close> calls (\<open>ticking\<close>) and when the server delivers at most
  \<open>n\<close> times on a stream (\<open>sends_at_most\<close>). The banner loop is total: a round that does
  not end it receives a byte, and it ends at 512. The fuel of the JSON reader is the length of the text, and
  more fuel does not change an answer.

  \<^bold>\<open>Threads.\<close> The pool is a transition system: every critical section, wait, notification,
  task execution and join of \<open>thread_pool.cpp\<close> is a step. Its constructor yields a pool, an
  exception, or the termination of the process, as the system starts the threads or not; a terminated process
  returns nothing, like one that runs forever. The code that uses the pool takes a schedule, the list of the
  steps of the other threads between any two of its own. The lemmas of \<open>Thread_Pool\<close> are invariants
  by rule induction and a weight that every step decreases. A task runs on a trace of its own, given for each
  task, so that the environment may answer every task differently; the number of the sweep in a task is a ghost.
  That the result of a run is independent of the schedule is proved under this reading.

  \<^bold>\<open>Interfaces.\<close> The locales state what a client needs of a provider and are interpreted on
  the model where it is provided: keyed insertion, the Internet address functions, connection attempts
  (\<open>tcp_connector\<close>), futures of the pool (\<open>future_pool\<close>) and SSH sessions
  (\<open>remote_session\<close>).

  \<^bold>\<open>What the lemmas show.\<close> For the whole program: that the report is about the device that
  was chosen and holds what it said of itself, what a run may connect to, bind, execute and wait for, where the
  password may go, when and what it writes to standard output, what its exit code means, that it releases what
  it opens, that it starts and cleans up Winsock once, that the threads do not matter, that it can return, that
  it reveals nothing of the password but whether the server accepts it, and what mock mode reports. The devices
  that a run found are always the result of the sequential discovery (\<open>find_sequential\<close>) at the point
  where the run starts its own (\<open>discovery_start\<close>), and the device it goes on with is the one of the rule
  \<open>chosen_among\<close>; every found device answered a probe of a host of the subnet or of a station that
  the neighbour cache or a captured packet gave (\<open>station_seen\<close>). The waits of a run are bounded by its
  options when these are below \<open>2^31\<close> ms; what happens beyond is in \<open>Timeouts\<close>. For the
  parts: exact results of the selections, parsers and formatters, round trips of four text formats and of the
  command line, bounds on probing, reading and waiting, ownership of sockets and sessions on every path, the
  order of host key check and password, and safety and progress of the pool. Some theorems state unwanted
  behaviour of the code: the misread mock file, the read error that passes for the end of the output, the thread
  that cannot be started and takes the process with it, the timeouts that overflow, the interface names that
  reach the terminal (as they are in the text report, and with everything but the characters below 20, hexadecimal,
  in the JSON report), the directed broadcast kept as a station.

  \<^bold>\<open>Hypotheses.\<close> Besides \<open>ticking\<close> and \<open>sends_at_most\<close>:
  \<open>inet_text\<close> (the text functions are inverse to each other), \<open>workers_start\<close> (the
  system starts all the threads), \<open>reports_errors\<close> (\<open>WSAGetLastError\<close> is not 0 after a
  failure), \<open>recv_bounded\<close> (\<open>recv\<close> fills at most the buffer),
  \<open>steady_clock\<close> (the clock does not go back), \<open>blind_library\<close> and
  \<open>alike\<close> (the answers of libssh2 after the authentication do not depend on the password, and the
  server accepts both passwords or neither). All hold in the sample environment of the witnesses.

  \<^bold>\<open>Not modelled.\<close> Winsock, libssh2, \<open>GetAdaptersAddresses\<close>,
  \<open>GetIpNetTable2\<close>, the conversion from wide characters and the bytes of files are parameters. The
  release of memory has no step, and an allocation that fails does not occur. The deadline arithmetic is on
  unbounded integers: for the timeouts for which the 64-bit clock of the code overflows, see
  \<open>Timeouts\<close>; the behaviour of the code is undefined there. Calls to start Winsock inside the text
  conversions are left out, since \<open>main\<close> starts it first and later calls do nothing. The tests with
  live sockets, threads and clocks, the build files, the samples and the README add no behaviour.
\<close>

end
